(* ===== verification/Prelude.thy ===== *)
theory Prelude
  imports Main "HOL-Library.Word" "HOL-Library.AList"
begin

text \<open>
  Shared vocabulary of the development: bytes and fixed-size C arrays, C++ character
  conversions, decimal printing and \<open>std::stoul\<close>, the C++ exceptions the sources can raise,
  and a small theory of transition systems (a locale with reachability and the invariant
  rule) that the concurrent components interpret.
\<close>

named_theorems array_simps \<open>reads and writes of C arrays\<close>
named_theorems stream_simps \<open>symbolic execution of stream operations\<close>
named_theorems frame_simps \<open>fields an operation does not change\<close>

section \<open>Fixed-size arrays\<close>

text \<open>
  A C array is a total function from offsets to bytes; its size is a constant of the code, and
  that every access is below it is a proved property, not a feature of the type.
\<close>

type_synonym carray = "nat \<Rightarrow> char"

definition subarr :: "carray \<Rightarrow> nat \<Rightarrow> nat \<Rightarrow> string" where
  "subarr a i j = map a [i..<j]"

definition blit :: "nat \<Rightarrow> string \<Rightarrow> carray \<Rightarrow> carray" where
  "blit off xs a = (\<lambda>i. if off \<le> i \<and> i < off + length xs then xs ! (i - off) else a i)"

section \<open>Characters as C++ sees them\<close>

text \<open>
  \<open>int_type\<close> of a character stream is \<open>int\<close>, \<open>EOF\<close> is \<open>-1\<close>. \<open>to_int_type\<close>
  reads a byte as unsigned; \<open>char_promote\<close> is the implicit conversion of a (signed)
  \<open>char\<close> to \<open>int\<close>, as gcc does it on x86-64.
\<close>

definition EOF :: int where
  "EOF = -1"

definition to_int_type :: "char \<Rightarrow> int" where
  "to_int_type c = of_char c"

definition to_char_type :: "int \<Rightarrow> char" where
  "to_char_type i = char_of (i mod 256)"

definition char_promote :: "char \<Rightarrow> int" where
  "char_promote c = (if (of_char c :: int) < 128 then of_char c else of_char c - 256)"

definition isspace :: "char \<Rightarrow> bool" where
  "isspace c = (c \<in> {CHR '' '', CHR 0x09, CHR 0x0A, CHR 0x0B, CHR 0x0C, CHR 0x0D})"

section \<open>Decimal numbers\<close>

definition digit_char :: "nat \<Rightarrow> char" where
  "digit_char d = char_of (48 + d)"

fun to_string :: "nat \<Rightarrow> string" where
  "to_string n =
     (if n < 10 then [digit_char n] else to_string (n div 10) @ [digit_char (n mod 10)])"

declare to_string.simps [simp del]

definition int_to_string :: "int \<Rightarrow> string" where
  "int_to_string i = (if i < 0 then ''-'' @ to_string (nat (- i)) else to_string (nat i))"

definition isdigit :: "char \<Rightarrow> bool" where
  "isdigit c = (48 \<le> (of_char c :: nat) \<and> (of_char c :: nat) \<le> 57)"

definition digit_val :: "char \<Rightarrow> nat" where
  "digit_val c = of_char c - 48"

definition digits_val :: "string \<Rightarrow> nat" where
  "digits_val ds = foldl (\<lambda>n c. 10 * n + digit_val c) 0 ds"

text \<open>
  The abnormal ends of a call: the exceptions the C++ library can throw out of this code (none
  is caught anywhere) and \<open>null_pointer\<close>, the dereference of a null pointer. The outcome of a
  call that may also run forever is a \<open>run\<close>: \<open>None\<close> when it never returns.
\<close>

datatype cpp_exception = invalid_argument | out_of_range | length_error | null_pointer

type_synonym 'a run = "(cpp_exception + 'a) option"

text \<open>
  \<open>std::stoul\<close> in base 10 on a 64-bit platform: leading white space, one optional sign,
  digits up to the first other character; a minus sign negates modulo \<open>2 ^ 64\<close>.
\<close>

definition stoul :: "string \<Rightarrow> cpp_exception + nat" where
  "stoul s =
     (let t = dropWhile isspace s;
          neg = (t \<noteq> [] \<and> hd t = CHR ''-'');
          u = (if t \<noteq> [] \<and> (hd t = CHR ''-'' \<or> hd t = CHR ''+'') then tl t else t);
          ds = takeWhile isdigit u;
          v = digits_val ds
      in if ds = [] then Inl invalid_argument
         else if 2 ^ 64 \<le> v then Inl out_of_range
         else if neg then Inr ((2 ^ 64 - v) mod 2 ^ 64)
         else Inr v)"

section \<open>Lemmas on arrays\<close>

lemma length_subarr [simp, array_simps]: "length (subarr a i j) = j - i"
  by (simp add: subarr_def)

lemma subarr_empty [simp, array_simps]: "j \<le> i \<Longrightarrow> subarr a i j = []"
  by (simp add: subarr_def)

lemma subarr_Cons: "i < j \<Longrightarrow> subarr a i j = a i # subarr a (Suc i) j"
  by (simp add: subarr_def upt_conv_Cons)

lemma subarr_snoc: "i \<le> j \<Longrightarrow> subarr a i (Suc j) = subarr a i j @ [a j]"
  by (simp add: subarr_def)

lemma subarr_append: "i \<le> j \<Longrightarrow> j \<le> k \<Longrightarrow> subarr a i j @ subarr a j k = subarr a i k"
  using upt_add_eq_append [of i j "k - j"] by (simp add: subarr_def flip: map_append)

lemma take_subarr: "take n (subarr a i j) = subarr a i (min j (i + n))"
  by (simp add: subarr_def take_map min_def)

lemma drop_subarr: "drop n (subarr a i j) = subarr a (i + n) j"
  by (simp add: subarr_def drop_map)

lemma subarr_eq_Nil_iff: "subarr a i j = [] \<longleftrightarrow> j \<le> i"
  by (auto simp: subarr_def)

lemma subarr_cong: "(\<And>k. i \<le> k \<Longrightarrow> k < j \<Longrightarrow> a k = b k) \<Longrightarrow> subarr a i j = subarr b i j"
  by (auto simp: subarr_def)

lemma subarr_upd_out [simp, array_simps]: "j \<le> k \<Longrightarrow> subarr (a(k := c)) i j = subarr a i j"
  by (rule subarr_cong) auto

lemma subarr_blit_same [simp, array_simps]:
  "subarr (blit off xs a) off (off + length xs) = xs"
  by (rule nth_equalityI) (auto simp: subarr_def blit_def)

lemma subarr_blit_zero [simp, array_simps]: "subarr (blit 0 xs a) 0 (length xs) = xs"
  using subarr_blit_same [of 0 xs a] by simp

lemma subarr_blit_below [simp, array_simps]: "j \<le> off \<Longrightarrow> subarr (blit off xs a) i j = subarr a i j"
  by (rule subarr_cong) (auto simp: blit_def)

lemma subarr_blit_extend:
  "subarr (blit off xs a) 0 (off + length xs) = subarr a 0 off @ xs"
proof -
  have "subarr (blit off xs a) 0 (off + length xs)
      = subarr (blit off xs a) 0 off @ subarr (blit off xs a) off (off + length xs)"
    by (rule subarr_append [symmetric]) simp_all
  then show ?thesis by simp
qed

lemma blit_hd [simp, array_simps]: "xs \<noteq> [] \<Longrightarrow> blit off xs a off = hd xs"
  by (simp add: blit_def hd_conv_nth)

section \<open>Lemmas on characters\<close>

lemma to_char_to_int [simp]: "to_char_type (to_int_type c) = c"
  by (simp add: to_char_type_def to_int_type_def)

lemma to_char_promote [simp]: "to_char_type (char_promote c) = c"
proof -
  have "char_of ((of_char c - 256 :: int) mod 256) = char_of ((of_char c :: int) mod 256)"
    by (simp only: minus_mod_self2)
  then show ?thesis by (simp add: to_char_type_def char_promote_def del: char_of_mod_256)
qed

lemma to_int_type_neq_EOF [simp]: "to_int_type c \<noteq> EOF"
proof -
  have "(of_char c :: int) = int (of_char c)" by (simp add: of_nat_of_char)
  then show ?thesis by (simp add: to_int_type_def EOF_def)
qed

lemma char_promote_EOF_iff [simp]: "char_promote c = EOF \<longleftrightarrow> c = CHR 0xFF"
proof
  assume "char_promote c = EOF"
  then have "(of_char c :: int) = of_char (CHR 0xFF)"
    using to_int_type_neq_EOF [of c]
    by (simp add: char_promote_def EOF_def to_int_type_def split: if_splits)
  then show "c = CHR 0xFF" by (simp only: of_char_eq_iff)
qed (simp add: char_promote_def EOF_def)

lemma isspace_code_points:
  "isspace (CHR '' '')" "isspace (CHR 0x0D)" "isspace (CHR 0x0A)"
  by (simp_all add: isspace_def)

section \<open>Lemmas on decimal numbers\<close>

lemma of_char_digit_char: "d < 10 \<Longrightarrow> (of_char (digit_char d) :: nat) = 48 + d"
  by (simp add: digit_char_def)

lemma isdigit_digit_char [simp]: "d < 10 \<Longrightarrow> isdigit (digit_char d)"
  by (simp add: isdigit_def of_char_digit_char)

lemma digit_val_digit_char [simp]: "d < 10 \<Longrightarrow> digit_val (digit_char d) = d"
  by (simp add: digit_val_def of_char_digit_char)

lemma digits_val_snoc: "digits_val (ds @ [c]) = 10 * digits_val ds + digit_val c"
  by (simp add: digits_val_def)

lemma isdigit_to_string: "c \<in> set (to_string n) \<Longrightarrow> isdigit c"
proof (induction n rule: to_string.induct)
  case (1 n)
  then show ?case by (cases "n < 10") (auto simp: to_string.simps [of n])
qed

lemma digits_val_to_string: "digits_val (to_string n) = n"
proof (induction n rule: to_string.induct)
  case (1 n)
  then show ?case
    by (cases "n < 10") (simp_all add: to_string.simps [of n] digits_val_snoc, simp add: digits_val_def)
qed

lemma to_string_not_Nil [simp]: "to_string n \<noteq> []"
  by (subst to_string.simps) simp

lemma isdigit_props:
  assumes "isdigit c"
  shows "\<not> isspace c" and "c \<noteq> CHR ''-''" and "c \<noteq> CHR ''+''"
  using assms by (auto simp: isdigit_def isspace_def)

text \<open>\<open>std::stoul\<close> reads back what \<open>std::to_string\<close> printed.\<close>

lemma stoul_to_string:
  assumes "n < 2 ^ 64"
  shows "stoul (to_string n) = Inr n"
proof -
  obtain c cs where eq: "to_string n = c # cs" by (cases "to_string n") simp_all
  then have "isdigit c" using isdigit_to_string [of c n] by simp
  then have "dropWhile isspace (to_string n) = to_string n"
    and "hd (to_string n) \<noteq> CHR ''-''" and "hd (to_string n) \<noteq> CHR ''+''"
    by (simp_all add: eq isdigit_props)
  moreover have "takeWhile isdigit (to_string n) = to_string n"
    by (simp add: isdigit_to_string takeWhile_eq_all_conv)
  ultimately show ?thesis
    using assms by (simp add: stoul_def digits_val_to_string Let_def del: takeWhile_eq_all_conv)
qed

section \<open>Association lists\<close>

lemma update_fresh: "k \<notin> fst ` set al \<Longrightarrow> AList.update k v al = al @ [(k, v)]"
  by (induction al) auto

lemma keys_delete: "fst ` set (AList.delete k xs) = fst ` set xs - {k}"
  by (auto simp: AList.delete_eq image_iff)

section \<open>Invariants of transition systems\<close>

text \<open>
  A component whose operations are interleaved by several threads is a step relation between
  states. What every step keeps, every run keeps; each component interprets this locale with
  its own steps and invariant.
\<close>

locale invariant_system =
  fixes step :: "'s \<Rightarrow> 's \<Rightarrow> bool"
    and inv :: "'s \<Rightarrow> bool"
  assumes step_inv: "inv s \<Longrightarrow> step s t \<Longrightarrow> inv t"
begin

lemma steps_inv: "step\<^sup>*\<^sup>* s t \<Longrightarrow> inv s \<Longrightarrow> inv t"
  by (induction rule: rtranclp_induct) (auto intro: step_inv)

lemma no_bad_state: "step\<^sup>*\<^sup>* s t \<Longrightarrow> inv s \<Longrightarrow> (\<And>u. inv u \<Longrightarrow> \<not> bad u) \<Longrightarrow> \<not> bad t"
  using steps_inv by blast

end

end
