(* ===== verification/Error_Codes.thy ===== *)
theory Error_Codes
  imports Prelude
begin

text \<open>
  \<open>src/src/Error.hpp\<close>: the error codes every component returns. \<open>server_err_t\<close> is
  \<open>unsigned\<close> in the source and only ever holds an enumerator, so it is the enumeration here;
  \<open>error_code\<close> is the number that is logged and printed.
\<close>

datatype Error =
    SERVER_OK | SERVER_ALREADY_RUNNING
  | SOCKET_INIT_FAILED | SOCKET_BIND_FAILED | SOCKET_LISTEN_FAILED
  | LISTEN_WORKER_DUMP | IO_WORKER_DUMP | WORKER_START_FAILED | WORKER_ALREADY_RUNNING
  | SAME_CLIENT_FD
  | INVALID_EPOLL_FD | MAX_EVENT_NUM | EPOLL_EVENT_ADD_FAILED
  | EPOLL_EVENT_DEL_FAILED | EPOLL_EVENT_MOD_FAILED | EPOLL_WAIT_FAILED
  | PARSE_REQ_METHOD_FAILED | PARSE_REQ_URI_FAILED | PARSE_REQ_VERSION_FAILED
  | PARSE_TERMINATE_CH_FAILED | INVALID_REQ_HEADER_FORMAT | PARSE_REQ_HEADER_FAILED
  | PARSE_REQ_BODY_FAILED
  | GEN_RESPONSE_LINE_FAILED | GEN_RESPONSE_HEAD_FAILED | GEN_RESPONSE_BODY_FAILED
  | INVALID_CONTENT_LENGTH
  | STATIC_RESOURCE_ACCESS_FAILED | INVALID_FILE_PATH | FILE_READ_ABORT
  | REDIS_CONN_TIMEOUT | REDIS_INIT_FAILED | REDIS_INIT_ALREADYDONE | REDIS_PASSWD_WRONG
  | REDIS_NULL_REPLY
  | REDIS_POOL_CONN_NULL | REDIS_POOL_MAXCONN | REDIS_POOL_CONNEXIST
  | LOGFILE_OPEN_FAILED | LOG_THREAD_STOPPED | LOGFILE_WRITE_FAILE

type_synonym server_err_t = Error

text \<open>The enumerators in declaration order; an enumerator's value is its position.\<close>

definition Error_values :: "Error list" where
  "Error_values =
    [SERVER_OK, SERVER_ALREADY_RUNNING,
     SOCKET_INIT_FAILED, SOCKET_BIND_FAILED, SOCKET_LISTEN_FAILED,
     LISTEN_WORKER_DUMP, IO_WORKER_DUMP, WORKER_START_FAILED, WORKER_ALREADY_RUNNING,
     SAME_CLIENT_FD,
     INVALID_EPOLL_FD, MAX_EVENT_NUM, EPOLL_EVENT_ADD_FAILED,
     EPOLL_EVENT_DEL_FAILED, EPOLL_EVENT_MOD_FAILED, EPOLL_WAIT_FAILED,
     PARSE_REQ_METHOD_FAILED, PARSE_REQ_URI_FAILED, PARSE_REQ_VERSION_FAILED,
     PARSE_TERMINATE_CH_FAILED, INVALID_REQ_HEADER_FORMAT, PARSE_REQ_HEADER_FAILED,
     PARSE_REQ_BODY_FAILED,
     GEN_RESPONSE_LINE_FAILED, GEN_RESPONSE_HEAD_FAILED, GEN_RESPONSE_BODY_FAILED,
     INVALID_CONTENT_LENGTH,
     STATIC_RESOURCE_ACCESS_FAILED, INVALID_FILE_PATH, FILE_READ_ABORT,
     REDIS_CONN_TIMEOUT, REDIS_INIT_FAILED, REDIS_INIT_ALREADYDONE, REDIS_PASSWD_WRONG,
     REDIS_NULL_REPLY,
     REDIS_POOL_CONN_NULL, REDIS_POOL_MAXCONN, REDIS_POOL_CONNEXIST,
     LOGFILE_OPEN_FAILED, LOG_THREAD_STOPPED, LOGFILE_WRITE_FAILE]"

fun index_of :: "'a list \<Rightarrow> 'a \<Rightarrow> nat" where
  "index_of [] x = 0"
| "index_of (y # ys) x = (if x = y then 0 else Suc (index_of ys x))"

definition error_code :: "server_err_t \<Rightarrow> nat" where
  "error_code e = index_of Error_values e"

lemma nth_index_of: "x \<in> set xs \<Longrightarrow> xs ! index_of xs x = x"
  by (induction xs) auto

lemma index_of_less: "x \<in> set xs \<Longrightarrow> index_of xs x < length xs"
  by (induction xs) auto

lemma Error_values_UNIV: "e \<in> set Error_values"
  by (cases e) (simp_all add: Error_values_def)

lemma error_code_inject: "error_code e = error_code e' \<longleftrightarrow> e = e'"
  by (metis error_code_def nth_index_of Error_values_UNIV)

lemma error_code_OK [simp]: "error_code e = 0 \<longleftrightarrow> e = SERVER_OK"
proof -
  have "error_code SERVER_OK = 0" by (simp add: error_code_def Error_values_def)
  then show ?thesis using error_code_inject [of e SERVER_OK] by simp
qed

lemma error_code_bound: "error_code e < 41"
proof -
  have "error_code e < length Error_values"
    using Error_values_UNIV [of e] unfolding error_code_def by (rule index_of_less)
  also have "length Error_values = 41" by (simp add: Error_values_def)
  finally show ?thesis .
qed

end
