(* ===== verification/Http_Config.thy ===== *)
theory Http_Config
  imports Error_Codes
begin

text \<open>
  \<open>src/src/HttpUtils/HttpConfig.hpp\<close> and \<open>HttpConfig.cc\<close>: request methods, protocol
  versions and response status lines, with their string tables. The static
  \<open>unordered_map\<close>s of the source are association lists with distinct keys.
\<close>

datatype HttpRequestMethod =
    GET | HEAD | POST | PUT | DELETE | CONNECT | OPTIONS | TRACE | PATCH
  | UNKNOWN_REQUEST_METHOD

fun method_index :: "HttpRequestMethod \<Rightarrow> nat" where
  "method_index GET = 0"
| "method_index HEAD = 1"
| "method_index POST = 2"
| "method_index PUT = 3"
| "method_index DELETE = 4"
| "method_index CONNECT = 5"
| "method_index OPTIONS = 6"
| "method_index TRACE = 7"
| "method_index PATCH = 8"
| "method_index UNKNOWN_REQUEST_METHOD = 9"

definition HttpRequestMethodString :: "string list" where
  "HttpRequestMethodString =
     [''GET'', ''HEAD'', ''POST'', ''PUT'', ''DELETE'', ''CONNECT'', ''OPTIONS'', ''TRACE'',
      ''PATCH'', ''UNKNOWN_REQUEST_METHOD'']"

definition string2HttpReqeustMethod :: "(string \<times> HttpRequestMethod) list" where
  "string2HttpReqeustMethod =
     [(''GET'', GET), (''HEAD'', HEAD), (''POST'', POST),
      (''PUT'', PUT), (''DELETE'', DELETE), (''CONNECT'', CONNECT),
      (''OPTIONS'', OPTIONS), (''TRACE'', TRACE), (''PATCH'', PATCH)]"

definition toRequestMethod :: "string \<Rightarrow> HttpRequestMethod" where
  "toRequestMethod s =
     (case map_of string2HttpReqeustMethod s of Some m \<Rightarrow> m | None \<Rightarrow> UNKNOWN_REQUEST_METHOD)"

definition serialize_method :: "HttpRequestMethod \<Rightarrow> string" where
  "serialize_method m = HttpRequestMethodString ! method_index m"

datatype HttpVersion = HTTP_1_0 | HTTP_1_1 | UNKNOWN_HTTP_VERSION

fun version_index :: "HttpVersion \<Rightarrow> nat" where
  "version_index HTTP_1_0 = 0"
| "version_index HTTP_1_1 = 1"
| "version_index UNKNOWN_HTTP_VERSION = 2"

definition HttpVersionString :: "string list" where
  "HttpVersionString = [''HTTP/1.0'', ''HTTP/1.1'', ''UNKNOWN_HTTP_VERSION'']"

definition string2HttpVersion :: "(string \<times> HttpVersion) list" where
  "string2HttpVersion = [(''HTTP/1.0'', HTTP_1_0), (''HTTP/1.1'', HTTP_1_1)]"

definition toHttpVersion :: "string \<Rightarrow> HttpVersion" where
  "toHttpVersion s =
     (case map_of string2HttpVersion s of Some v \<Rightarrow> v | None \<Rightarrow> UNKNOWN_HTTP_VERSION)"

definition serialize_version :: "HttpVersion \<Rightarrow> string" where
  "serialize_version v = HttpVersionString ! version_index v"

type_synonym statecode_t = "16 word"

record HttpResponseStatus =
  st_code :: statecode_t
  st_detail :: string

definition StatusCodeDetail :: "(statecode_t \<times> string) list" where
  "StatusCodeDetail =
     [(200, ''OK''), (206, ''Partial Content''),
      (400, ''Bad Request''), (403, ''Forbidden''), (404, ''Not Found''),
      (500, ''Internal Server Error''), (501, ''Not Implemented''),
      (502, ''Bad Gateway''), (505, ''HTTP Version not supported'')]"

definition mk_HttpResponseStatus :: "statecode_t \<Rightarrow> HttpResponseStatus" where
  "mk_HttpResponseStatus code =
     \<lparr>st_code = code,
      st_detail = (case map_of StatusCodeDetail code of Some d \<Rightarrow> d | None \<Rightarrow> [])\<rparr>"

definition default_HttpResponseStatus :: HttpResponseStatus where
  "default_HttpResponseStatus = mk_HttpResponseStatus 200"

definition RESPONSE_ENDLINE :: string where
  "RESPONSE_ENDLINE = [CHR 0x0A]"

section \<open>The string tables agree with the enumerations\<close>

lemma toRequestMethod_serialize:
  "m \<noteq> UNKNOWN_REQUEST_METHOD \<Longrightarrow> toRequestMethod (serialize_method m) = m"
  by (cases m)
     (simp_all add: toRequestMethod_def serialize_method_def HttpRequestMethodString_def
        string2HttpReqeustMethod_def)

lemma serialize_toRequestMethod:
  "toRequestMethod s \<noteq> UNKNOWN_REQUEST_METHOD \<Longrightarrow> serialize_method (toRequestMethod s) = s"
  by (auto simp: toRequestMethod_def serialize_method_def HttpRequestMethodString_def
        string2HttpReqeustMethod_def split: if_splits)

lemma toHttpVersion_serialize:
  "v \<noteq> UNKNOWN_HTTP_VERSION \<Longrightarrow> toHttpVersion (serialize_version v) = v"
  by (cases v)
     (simp_all add: toHttpVersion_def serialize_version_def HttpVersionString_def
        string2HttpVersion_def)

lemma serialize_toHttpVersion:
  "toHttpVersion s \<noteq> UNKNOWN_HTTP_VERSION \<Longrightarrow> serialize_version (toHttpVersion s) = s"
  by (auto simp: toHttpVersion_def serialize_version_def HttpVersionString_def
        string2HttpVersion_def split: if_splits)

lemma st_code_mk [simp]: "st_code (mk_HttpResponseStatus code) = code"
  by (simp add: mk_HttpResponseStatus_def)

lemma serialize_no_space:
  "c \<in> set (serialize_method m) \<Longrightarrow> \<not> isspace c"
  "c \<in> set (serialize_version v) \<Longrightarrow> \<not> isspace c"
  by (cases m; auto simp: serialize_method_def HttpRequestMethodString_def isspace_def)
     (cases v; auto simp: serialize_version_def HttpVersionString_def isspace_def)

lemma serialize_not_Nil [simp]: "serialize_method m \<noteq> []" "serialize_version v \<noteq> []"
  by (cases m; simp add: serialize_method_def HttpRequestMethodString_def)
     (cases v; simp add: serialize_version_def HttpVersionString_def)

end
