(* ===== verification/Socket_Stream.thy ===== *)
theory Socket_Stream
  imports Http_Config
begin

text \<open>
  \<open>src/src/HttpUtils/SocketStream.hpp\<close> and \<open>SocketStream.cc\<close>: the stream buffer over a
  socket, and the operations of \<open>std::istream\<close> and \<open>std::ostream\<close> that the HTTP code
  calls on it. The kernel's side of the socket is a script: what the successive calls of
  \<open>recv\<close> find in the receive queue, and how many bytes the successive calls of \<open>send\<close>
  accept; every theorem is for all scripts.

  The array \<open>__buffer\<close> is shared by the get area \<open>[gptr, egptr)\<close> and the put area
  \<open>[0, pptr)\<close>, as in the source; \<open>eback\<close> and \<open>pbase\<close> are always \<open>0\<close>.
\<close>

section \<open>The kernel's side\<close>

record socket =
  sk_rx :: "string list"
  sk_tx :: string
  sk_snd :: "nat \<Rightarrow> nat"
  sk_nsnd :: nat

text \<open>
  \<open>recv\<close> returns a non-empty prefix of the segment at the head of the queue; an empty
  segment, or an exhausted queue, is a call that returns \<open>0\<close> or \<open>-1\<close> (closed, or
  nothing to read on a non-blocking socket).
\<close>

definition recv :: "socket \<Rightarrow> nat \<Rightarrow> string \<times> socket" where
  "recv sk n =
     (case sk_rx sk of
        [] \<Rightarrow> ([], sk)
      | s # rest \<Rightarrow>
          (take n s, sk\<lparr>sk_rx := (if drop n s = [] then rest else drop n s # rest)\<rparr>))"

text \<open>\<open>send\<close> accepts a prefix of what it is offered; \<open>0\<close> stands for an error.\<close>

definition send :: "socket \<Rightarrow> string \<Rightarrow> nat \<times> socket" where
  "send sk xs =
     (let k = min (sk_snd sk (sk_nsnd sk)) (length xs)
      in (k, sk\<lparr>sk_tx := sk_tx sk @ take k xs, sk_nsnd := Suc (sk_nsnd sk)\<rparr>))"

section \<open>SocketStreamBuffer\<close>

definition BFSIZE :: nat where
  "BFSIZE = 4096"

record SocketStreamBuffer =
  ss_buffer :: carray
  ss_gptr :: nat
  ss_egptr :: nat
  ss_pptr :: nat
  ss_epptr :: nat
  ss_socket :: socket

text \<open>The constructor; \<open>junk\<close> is the uninitialised content of the array.\<close>

definition mk_SocketStreamBuffer :: "carray \<Rightarrow> socket \<Rightarrow> SocketStreamBuffer" where
  "mk_SocketStreamBuffer junk sk =
     \<lparr>ss_buffer = junk, ss_gptr = 0, ss_egptr = 0, ss_pptr = 0, ss_epptr = BFSIZE - 1,
      ss_socket = sk\<rparr>"

text \<open>The loop of \<open>flush\<close>: every call of \<open>send\<close> starts at the beginning of the array.\<close>

function flush_loop :: "carray \<Rightarrow> nat \<Rightarrow> socket \<Rightarrow> nat \<times> socket" where
  "flush_loop buf rest sk =
     (if rest = 0 then (0, sk)
      else (case send sk (subarr buf 0 rest) of
              (tmp, sk') \<Rightarrow> if tmp = 0 then (rest, sk') else flush_loop buf (rest - tmp) sk'))"
  by pat_completeness auto
termination
  by (relation "measure (\<lambda>(buf, rest, sk). rest)") auto

declare flush_loop.simps [simp del]

definition ss_flush :: "SocketStreamBuffer \<Rightarrow> int \<times> SocketStreamBuffer" where
  "ss_flush b =
     (let total = ss_pptr b
      in case flush_loop (ss_buffer b) total (ss_socket b) of
           (rest, sk) \<Rightarrow>
             (if rest \<noteq> 0 then EOF else int total,
              b\<lparr>ss_pptr := rest, ss_socket := sk\<rparr>))"

definition overflow :: "SocketStreamBuffer \<Rightarrow> int \<Rightarrow> int \<times> SocketStreamBuffer" where
  "overflow b c =
     (let b1 = (if c \<noteq> EOF
                then b\<lparr>ss_buffer := (ss_buffer b)(ss_pptr b := to_char_type c),
                       ss_pptr := Suc (ss_pptr b)\<rparr>
                else b)
      in case ss_flush b1 of (r, b2) \<Rightarrow> (if r = EOF then EOF else c, b2))"

definition sync :: "SocketStreamBuffer \<Rightarrow> int \<times> SocketStreamBuffer" where
  "sync b = (case ss_flush b of (r, b') \<Rightarrow> (if r = EOF then EOF else 0, b'))"

text \<open>
  \<open>underflow\<close> returns \<open>*gptr()\<close>, a \<open>char\<close> converted to \<open>int\<close>.
\<close>

definition underflow :: "SocketStreamBuffer \<Rightarrow> int \<times> SocketStreamBuffer" where
  "underflow b =
     (case recv (ss_socket b) BFSIZE of
        (data, sk) \<Rightarrow>
          if data = [] then (EOF, b\<lparr>ss_socket := sk\<rparr>)
          else (let b' = b\<lparr>ss_buffer := blit 0 data (ss_buffer b),
                           ss_gptr := 0, ss_egptr := length data, ss_socket := sk\<rparr>
                in (char_promote (ss_buffer b' (ss_gptr b')), b')))"

text \<open>The destructor of \<open>SocketStreamBuffer\<close>.\<close>

definition destroy_SocketStreamBuffer :: "SocketStreamBuffer \<Rightarrow> SocketStreamBuffer" where
  "destroy_SocketStreamBuffer b = snd (sync b)"

section \<open>std::streambuf on top of it\<close>

definition sgetc :: "SocketStreamBuffer \<Rightarrow> int \<times> SocketStreamBuffer" where
  "sgetc b =
     (if ss_gptr b < ss_egptr b then (to_int_type (ss_buffer b (ss_gptr b)), b) else underflow b)"

definition uflow :: "SocketStreamBuffer \<Rightarrow> int \<times> SocketStreamBuffer" where
  "uflow b =
     (case underflow b of
        (r, b') \<Rightarrow>
          if r = EOF then (EOF, b')
          else (to_int_type (ss_buffer b' (ss_gptr b')), b'\<lparr>ss_gptr := Suc (ss_gptr b')\<rparr>))"

definition sbumpc :: "SocketStreamBuffer \<Rightarrow> int \<times> SocketStreamBuffer" where
  "sbumpc b =
     (if ss_gptr b < ss_egptr b
      then (to_int_type (ss_buffer b (ss_gptr b)), b\<lparr>ss_gptr := Suc (ss_gptr b)\<rparr>)
      else uflow b)"

definition snextc :: "SocketStreamBuffer \<Rightarrow> int \<times> SocketStreamBuffer" where
  "snextc b = (case sbumpc b of (r, b') \<Rightarrow> if r = EOF then (EOF, b') else sgetc b')"

definition sputc :: "SocketStreamBuffer \<Rightarrow> char \<Rightarrow> int \<times> SocketStreamBuffer" where
  "sputc b c =
     (if ss_pptr b < ss_epptr b
      then (to_int_type c, b\<lparr>ss_buffer := (ss_buffer b)(ss_pptr b := c),
                             ss_pptr := Suc (ss_pptr b)\<rparr>)
      else overflow b (to_int_type c))"

text \<open>\<open>sputn\<close>: characters are put one by one until one is refused; the count of those put.\<close>

fun sputn :: "SocketStreamBuffer \<Rightarrow> string \<Rightarrow> nat \<times> SocketStreamBuffer" where
  "sputn b [] = (0, b)"
| "sputn b (c # cs) =
     (case sputc b c of
        (r, b') \<Rightarrow>
          if r = EOF then (0, b') else (case sputn b' cs of (n, b'') \<Rightarrow> (Suc n, b'')))"

section \<open>The bytes still to be read\<close>

definition unread :: "SocketStreamBuffer \<Rightarrow> string" where
  "unread b = subarr (ss_buffer b) (ss_gptr b) (ss_egptr b) @ concat (sk_rx (ss_socket b))"

definition unread_len :: "SocketStreamBuffer \<Rightarrow> nat" where
  "unread_len b = length (unread b)"

lemma unread_len_split:
  "unread_len b = (ss_egptr b - ss_gptr b) + length (concat (sk_rx (ss_socket b)))"
  by (simp add: unread_len_def unread_def)

lemma recv_concat: "recv sk n = (data, sk') \<Longrightarrow> data @ concat (sk_rx sk') = concat (sk_rx sk)"
  by (auto simp: recv_def split: list.splits if_splits)

lemma underflow_unread:
  "underflow b = (r, b') \<Longrightarrow> ss_egptr b \<le> ss_gptr b \<Longrightarrow> unread b' = unread b"
  by (auto simp: underflow_def unread_def Let_def split: prod.splits if_splits dest!: recv_concat)

lemma uflow_unread:
  assumes "uflow b = (r, b')" and "ss_egptr b \<le> ss_gptr b"
  shows "r = EOF \<Longrightarrow> unread b' = unread b"
    and "r \<noteq> EOF \<Longrightarrow> unread b = to_char_type r # unread b'"
proof -
  obtain r1 b1 where u: "underflow b = (r1, b1)" by fastforce
  from u assms(2) have eq: "unread b1 = unread b" by (rule underflow_unread)
  show "r = EOF \<Longrightarrow> unread b' = unread b"
    using assms(1) u eq by (auto simp: uflow_def split: if_splits)
  assume "r \<noteq> EOF"
  with assms(1) u have "r = to_int_type (ss_buffer b1 (ss_gptr b1))"
    and b': "b' = b1\<lparr>ss_gptr := Suc (ss_gptr b1)\<rparr>" and "r1 \<noteq> EOF"
    by (auto simp: uflow_def split: if_splits)
  moreover from u \<open>r1 \<noteq> EOF\<close> have "ss_gptr b1 < ss_egptr b1"
    by (auto simp: underflow_def Let_def split: prod.splits if_splits)
  ultimately show "unread b = to_char_type r # unread b'"
    using eq by (simp add: unread_def b' subarr_Cons)
qed

text \<open>Where the get area stands after a read, and which integers a byte can appear as.\<close>

definition reads_as :: "int \<Rightarrow> char \<Rightarrow> bool" where
  "reads_as r c = (r = to_int_type c \<or> r = char_promote c)"

lemma reads_as_to_char: "reads_as r c \<Longrightarrow> to_char_type r = c"
  by (auto simp: reads_as_def)

lemma reads_as_ascii:
  "reads_as r c \<Longrightarrow> (of_char d :: int) < 128 \<Longrightarrow> r = to_int_type d \<longleftrightarrow> c = d"
  by (auto simp: reads_as_def char_promote_def to_int_type_def split: if_splits)
     (metis char_of_char to_char_promote to_char_to_int char_promote_def to_int_type_def)

lemma sgetc_unread:
  assumes "sgetc b = (r, b')"
  shows "unread b' = unread b"
    and "r \<noteq> EOF \<Longrightarrow> ss_gptr b' < ss_egptr b' \<and> reads_as r (ss_buffer b' (ss_gptr b'))"
proof -
  show "unread b' = unread b"
    using assms underflow_unread [of b r b'] by (auto simp: sgetc_def split: if_splits)
  show "r \<noteq> EOF \<Longrightarrow> ss_gptr b' < ss_egptr b' \<and> reads_as r (ss_buffer b' (ss_gptr b'))"
    using assms
    by (auto simp: sgetc_def underflow_def reads_as_def Let_def split: if_splits prod.splits)
qed

lemma sgetc_Some:
  assumes "sgetc b = (r, b')" and "r \<noteq> EOF"
  shows "unread b = to_char_type r # tl (unread b)" and "reads_as r (hd (unread b))"
proof -
  from sgetc_unread [OF assms(1)] assms(2)
  have u: "unread b' = unread b" "ss_gptr b' < ss_egptr b'" "reads_as r (ss_buffer b' (ss_gptr b'))"
    by auto
  then have "unread b = ss_buffer b' (ss_gptr b') # tl (unread b)"
    by (metis append_Cons list.sel(3) subarr_Cons unread_def)
  with u(3) show "unread b = to_char_type r # tl (unread b)" and "reads_as r (hd (unread b))"
    by (metis reads_as_to_char, metis list.sel(1))
qed

lemma sbumpc_unread:
  assumes "sbumpc b = (r, b')"
  shows "r = EOF \<Longrightarrow> unread b' = unread b"
    and "r \<noteq> EOF \<Longrightarrow> unread b = to_char_type r # unread b'"
  using assms uflow_unread [of b r b']
  by (auto simp: sbumpc_def unread_def subarr_Cons split: if_splits)

lemma snextc_unread:
  assumes "snextc b = (r, b')"
  shows "unread b' = unread b \<or> unread b' = tl (unread b)"
    and "r \<noteq> EOF \<Longrightarrow> unread_len b' < unread_len b"
proof -
  obtain r1 b1 where s: "sbumpc b = (r1, b1)" by fastforce
  show "unread b' = unread b \<or> unread b' = tl (unread b)"
    using assms s sbumpc_unread [OF s] sgetc_unread(1) [of b1]
    by (auto simp: snextc_def split: if_splits)
  assume "r \<noteq> EOF"
  with assms s have "r1 \<noteq> EOF" and "sgetc b1 = (r, b')"
    by (auto simp: snextc_def split: if_splits)
  then show "unread_len b' < unread_len b"
    using sbumpc_unread(2) [OF s] sgetc_unread(1) [of b1 r b'] by (simp add: unread_len_def)
qed

section \<open>std::istream on top of it: SocketInputStream\<close>

record SocketInputStream =
  is_buf :: SocketStreamBuffer
  is_eof :: bool
  is_fail :: bool

definition mk_SocketInputStream :: "SocketStreamBuffer \<Rightarrow> SocketInputStream" where
  "mk_SocketInputStream b = \<lparr>is_buf = b, is_eof = False, is_fail = False\<rparr>"

definition is_good :: "SocketInputStream \<Rightarrow> bool" where
  "is_good s = (\<not> is_eof s \<and> \<not> is_fail s)"

text \<open>\<open>get()\<close>: one character, or \<open>EOF\<close> with \<open>failbit\<close> set.\<close>

definition istream_get :: "SocketInputStream \<Rightarrow> int \<times> SocketInputStream" where
  "istream_get s =
     (if \<not> is_good s then (EOF, s\<lparr>is_fail := True\<rparr>)
      else (case sbumpc (is_buf s) of
              (c, b) \<Rightarrow>
                if c = EOF then (EOF, s\<lparr>is_buf := b, is_eof := True, is_fail := True\<rparr>)
                else (c, s\<lparr>is_buf := b\<rparr>)))"

text \<open>The loops of \<open>operator>>\<close> and of \<open>getline\<close> over the buffer.\<close>

abbreviation loop_measure :: "int \<Rightarrow> SocketStreamBuffer \<Rightarrow> nat" where
  "loop_measure c b \<equiv> (if c = EOF then 0 else Suc (unread_len b))"

function skip_ws :: "int \<Rightarrow> SocketStreamBuffer \<Rightarrow> int \<times> SocketStreamBuffer" where
  "skip_ws c b =
     (if c \<noteq> EOF \<and> isspace (to_char_type c)
      then (case snextc b of (c', b') \<Rightarrow> skip_ws c' b')
      else (c, b))"
  by pat_completeness auto
termination
  by (relation "measure (\<lambda>(c, b). loop_measure c b)")
     (auto dest: snextc_unread(2) dest!: sym [where s = "(_, _)"] split: prod.splits)

function word_loop ::
  "int \<Rightarrow> SocketStreamBuffer \<Rightarrow> string \<Rightarrow> string \<times> int \<times> SocketStreamBuffer" where
  "word_loop c b acc =
     (if c \<noteq> EOF \<and> \<not> isspace (to_char_type c)
      then (case snextc b of (c', b') \<Rightarrow> word_loop c' b' (acc @ [to_char_type c]))
      else (acc, c, b))"
  by pat_completeness auto
termination
  by (relation "measure (\<lambda>(c, b, acc). loop_measure c b)")
     (auto dest: snextc_unread(2) dest!: sym [where s = "(_, _)"] split: prod.splits)

function line_loop ::
  "char \<Rightarrow> int \<Rightarrow> SocketStreamBuffer \<Rightarrow> string \<Rightarrow> string \<times> int \<times> SocketStreamBuffer" where
  "line_loop d c b acc =
     (if c \<noteq> EOF \<and> c \<noteq> to_int_type d
      then (case snextc b of (c', b') \<Rightarrow> line_loop d c' b' (acc @ [to_char_type c]))
      else (acc, c, b))"
  by pat_completeness auto
termination
  by (relation "measure (\<lambda>(d, c, b, acc). loop_measure c b)")
     (auto dest: snextc_unread(2) dest!: sym [where s = "(_, _)"] split: prod.splits)

declare skip_ws.simps [simp del] word_loop.simps [simp del] line_loop.simps [simp del]

text \<open>
  \<open>operator>>(istream&, string&)\<close>: the sentry skips white space and fails at the end of the
  input; the word ends before the next white space. The target string is written only when the
  sentry succeeds, so the operation returns \<open>None\<close> when it leaves the string alone.
\<close>

definition istream_extract :: "SocketInputStream \<Rightarrow> string option \<times> SocketInputStream" where
  "istream_extract s =
     (if \<not> is_good s then (None, s\<lparr>is_fail := True\<rparr>)
      else (case sgetc (is_buf s) of
        (c0, b0) \<Rightarrow> case skip_ws c0 b0 of
          (c1, b1) \<Rightarrow>
            if c1 = EOF then (None, s\<lparr>is_buf := b1, is_eof := True, is_fail := True\<rparr>)
            else (case sgetc b1 of
              (c2, b2) \<Rightarrow> case word_loop c2 b2 [] of
                (w, c3, b3) \<Rightarrow>
                  (Some w, s\<lparr>is_buf := b3, is_eof := (c3 = EOF), is_fail := (w = [])\<rparr>))))"

text \<open>\<open>std::getline(istream&, string&, char)\<close>.\<close>

definition istream_getline :: "SocketInputStream \<Rightarrow> char \<Rightarrow> string option \<times> SocketInputStream" where
  "istream_getline s d =
     (if \<not> is_good s then (None, s\<lparr>is_fail := True\<rparr>)
      else (case sgetc (is_buf s) of
        (c0, b0) \<Rightarrow> case line_loop d c0 b0 [] of
          (l, c1, b1) \<Rightarrow>
            if c1 = EOF
            then (Some l, s\<lparr>is_buf := b1, is_eof := True, is_fail := (l = [])\<rparr>)
            else (Some l, s\<lparr>is_buf := snd (sbumpc b1)\<rparr>)))"

text \<open>
  \<open>readsome\<close> on this buffer: \<open>in_avail\<close> is the size of the get area, and when the get
  area is empty it is \<open>showmanyc()\<close>, which the class does not override and is \<open>0\<close>. It
  never calls \<open>underflow\<close>.
\<close>

definition istream_readsome :: "SocketInputStream \<Rightarrow> nat \<Rightarrow> string \<times> SocketInputStream" where
  "istream_readsome s n =
     (if \<not> is_good s then ([], s\<lparr>is_fail := True\<rparr>)
      else (let b = is_buf s; k = min n (ss_egptr b - ss_gptr b)
            in (subarr (ss_buffer b) (ss_gptr b) (ss_gptr b + k),
                s\<lparr>is_buf := b\<lparr>ss_gptr := ss_gptr b + k\<rparr>\<rparr>)))"

section \<open>std::ostream on top of it: SocketOutputStream\<close>

record SocketOutputStream =
  os_buf :: SocketStreamBuffer
  os_bad :: bool

definition mk_SocketOutputStream :: "SocketStreamBuffer \<Rightarrow> SocketOutputStream" where
  "mk_SocketOutputStream b = \<lparr>os_buf = b, os_bad = False\<rparr>"

text \<open>
  \<open>operator<<\<close> and \<open>write\<close> of a string of known length: nothing is written once the
  stream is bad, and a short write makes it bad. \<open>fail()\<close> is \<open>os_bad\<close>.
\<close>

definition ostream_write :: "SocketOutputStream \<Rightarrow> string \<Rightarrow> SocketOutputStream" where
  "ostream_write out xs =
     (if os_bad out then out
      else (case sputn (os_buf out) xs of
              (n, b) \<Rightarrow> \<lparr>os_buf = b, os_bad = (n \<noteq> length xs)\<rparr>))"

definition ostream_flush :: "SocketOutputStream \<Rightarrow> SocketOutputStream" where
  "ostream_flush out =
     (if os_bad out then out
      else (case sync (os_buf out) of (r, b) \<Rightarrow> \<lparr>os_buf = b, os_bad = (r = EOF)\<rparr>))"

section \<open>Reading refines a flat byte sequence\<close>

text \<open>
  A socket is clean when no segment is empty and no byte is \<open>0xFF\<close>: then no call of
  \<open>underflow\<close> reports the end of the input before the peer has closed.
\<close>

definition clean :: "SocketStreamBuffer \<Rightarrow> bool" where
  "clean b = (\<forall>s \<in> set (sk_rx (ss_socket b)). s \<noteq> [] \<and> CHR 0xFF \<notin> set s)"

definition at_byte :: "int \<Rightarrow> SocketStreamBuffer \<Rightarrow> bool" where
  "at_byte c b =
     (clean b \<and> (c = EOF \<longleftrightarrow> unread b = []) \<and> (c \<noteq> EOF \<longrightarrow> reads_as c (hd (unread b))))"

lemma clean_underflow:
  assumes "clean b" and "underflow b = (r, b')"
  shows "clean b'" and "r = EOF \<longleftrightarrow> concat (sk_rx (ss_socket b)) = []"
proof -
  show "clean b'"
    using assms by (auto simp: clean_def underflow_def recv_def Let_def BFSIZE_def
        split: list.splits if_splits prod.splits dest: in_set_dropD)
  show "r = EOF \<longleftrightarrow> concat (sk_rx (ss_socket b)) = []"
  proof (cases "sk_rx (ss_socket b)")
    case Nil
    with assms(2) show ?thesis by (simp add: underflow_def recv_def)
  next
    case (Cons s rest)
    with assms(1) obtain x xs where "s = x # xs" "x \<noteq> CHR 0xFF"
      by (cases s) (auto simp: clean_def)
    with Cons assms(2) show ?thesis
      by (auto simp: underflow_def recv_def BFSIZE_def Let_def)
  qed
qed

lemma clean_gptr [simp]: "clean (b\<lparr>ss_gptr := n\<rparr>) = clean b"
  by (simp add: clean_def)

lemma at_byte_sgetc:
  assumes "clean b" and "sgetc b = (r, b')"
  shows "at_byte r b'" and "unread b' = unread b"
proof -
  show eq: "unread b' = unread b" using sgetc_unread(1) [OF assms(2)] .
  have "clean b' \<and> (r = EOF \<longleftrightarrow> unread b = [])"
  proof (cases "ss_gptr b < ss_egptr b")
    case True
    with assms show ?thesis by (auto simp: sgetc_def unread_def subarr_Cons)
  next
    case False
    then have "underflow b = (r, b')" using assms(2) by (simp add: sgetc_def)
    with clean_underflow [OF assms(1) this] False show ?thesis by (simp add: unread_def)
  qed
  with eq sgetc_Some(2) [OF assms(2)] show "at_byte r b'" by (simp add: at_byte_def)
qed

lemma clean_sbumpc:
  assumes "clean b" and "sbumpc b = (r, b')"
  shows "clean b'" and "r = EOF \<longleftrightarrow> unread b = []"
proof -
  have "clean b' \<and> (r = EOF \<longleftrightarrow> unread b = [])"
  proof (cases "ss_gptr b < ss_egptr b")
    case True
    with assms show ?thesis by (auto simp: sbumpc_def unread_def subarr_Cons)
  next
    case False
    obtain r1 b1 where u: "underflow b = (r1, b1)" by fastforce
    have "uflow b = (r, b')" using assms(2) False by (simp add: sbumpc_def)
    with u clean_underflow [OF assms(1) u] False show ?thesis
      by (auto simp: uflow_def unread_def split: if_splits)
  qed
  then show "clean b'" and "r = EOF \<longleftrightarrow> unread b = []" by auto
qed

lemma at_byte_snextc:
  assumes "at_byte c b" and "c \<noteq> EOF" and "snextc b = (r, b')"
  shows "at_byte r b'" and "unread b' = tl (unread b)"
proof -
  obtain r1 b1 where s: "sbumpc b = (r1, b1)" by fastforce
  from assms(1,2) have "clean b" and "unread b \<noteq> []" by (auto simp: at_byte_def)
  with clean_sbumpc [OF _ s] have r1: "r1 \<noteq> EOF" and c1: "clean b1" by auto
  with assms(3) s have g: "sgetc b1 = (r, b')" by (simp add: snextc_def)
  from sbumpc_unread(2) [OF s r1] have "unread b1 = tl (unread b)" by simp
  with at_byte_sgetc [OF c1 g] show "at_byte r b'" and "unread b' = tl (unread b)" by auto
qed

lemma at_byte_hd:
  "at_byte c b \<Longrightarrow> c \<noteq> EOF \<Longrightarrow> unread b = to_char_type c # tl (unread b)"
  by (metis at_byte_def list.collapse reads_as_to_char)

lemma skip_ws_spec:
  "at_byte c b \<Longrightarrow> skip_ws c b = (c', b') \<Longrightarrow>
     at_byte c' b' \<and> unread b' = dropWhile isspace (unread b)"
proof (induction c b arbitrary: c' b' rule: skip_ws.induct)
  case (1 c b)
  show ?case
  proof (cases "c \<noteq> EOF \<and> isspace (to_char_type c)")
    case True
    obtain r1 b1 where s: "snextc b = (r1, b1)" by fastforce
    with "1.prems" True have "at_byte r1 b1" and "unread b1 = tl (unread b)"
      and "skip_ws r1 b1 = (c', b')"
      using at_byte_snextc [OF "1.prems"(1) _ s] by (simp_all add: skip_ws.simps [of c b])
    with "1.IH" [OF True s [symmetric]] at_byte_hd [OF "1.prems"(1)] True show ?thesis
      by (metis dropWhile.simps(2))
  next
    case False
    then have "c' = c" "b' = b" using "1.prems"(2) by (auto simp: skip_ws.simps [of c b] split: if_splits)
    with "1.prems"(1) False at_byte_hd [OF "1.prems"(1)] show ?thesis
      by (cases "c = EOF") (simp add: at_byte_def, metis dropWhile.simps(2))
  qed
qed

lemma word_loop_spec:
  "at_byte c b \<Longrightarrow> word_loop c b acc = (w, c', b') \<Longrightarrow>
     at_byte c' b' \<and> w = acc @ takeWhile (\<lambda>x. \<not> isspace x) (unread b)
     \<and> unread b' = dropWhile (\<lambda>x. \<not> isspace x) (unread b)"
proof (induction c b acc arbitrary: w c' b' rule: word_loop.induct)
  case (1 c b acc)
  show ?case
  proof (cases "c \<noteq> EOF \<and> \<not> isspace (to_char_type c)")
    case True
    obtain r1 b1 where s: "snextc b = (r1, b1)" by fastforce
    with "1.prems" True have b1: "at_byte r1 b1" "unread b1 = tl (unread b)"
      and w: "word_loop r1 b1 (acc @ [to_char_type c]) = (w, c', b')"
      using at_byte_snextc [OF "1.prems"(1) _ s] by (simp_all add: word_loop.simps [of c b])
    obtain xs where "unread b = to_char_type c # xs"
      using at_byte_hd [OF "1.prems"(1)] True by blast
    with "1.IH" [OF True s [symmetric] b1(1) w] b1(2) True show ?thesis by simp
  next
    case False
    then have "w = acc" "c' = c" "b' = b"
      using "1.prems"(2) by (auto simp: word_loop.simps [of c b] split: if_splits)
    with "1.prems"(1) False at_byte_hd [OF "1.prems"(1)] show ?thesis
      by (cases "c = EOF")
         (simp add: at_byte_def, metis dropWhile.simps(2) takeWhile.simps(2) append_Nil2)
  qed
qed

lemma line_loop_spec:
  "at_byte c b \<Longrightarrow> line_loop d c b acc = (l, c', b') \<Longrightarrow>
     (of_char d :: int) < 128 \<Longrightarrow>
     at_byte c' b' \<and> l = acc @ takeWhile (\<lambda>x. x \<noteq> d) (unread b)
     \<and> unread b' = dropWhile (\<lambda>x. x \<noteq> d) (unread b)"
proof (induction d c b acc arbitrary: l c' b' rule: line_loop.induct)
  case (1 d c b acc)
  have d: "c = to_int_type d \<longleftrightarrow> to_char_type c = d" if "c \<noteq> EOF"
    using "1.prems"(1,3) that reads_as_ascii [of c "hd (unread b)" d]
      reads_as_to_char [of c "hd (unread b)"] by (simp add: at_byte_def)
  show ?case
  proof (cases "c \<noteq> EOF \<and> c \<noteq> to_int_type d")
    case True
    obtain r1 b1 where s: "snextc b = (r1, b1)" by fastforce
    with "1.prems" True have b1: "at_byte r1 b1" "unread b1 = tl (unread b)"
      and w: "line_loop d r1 b1 (acc @ [to_char_type c]) = (l, c', b')"
      using at_byte_snextc [OF "1.prems"(1) _ s] by (simp_all add: line_loop.simps [of d c b])
    obtain xs where "unread b = to_char_type c # xs"
      using at_byte_hd [OF "1.prems"(1)] True by blast
    with "1.IH" [OF True s [symmetric] b1(1) w "1.prems"(3)] b1(2) True d show ?thesis by simp
  next
    case False
    then have "l = acc" "c' = c" "b' = b"
      using "1.prems"(2) by (auto simp: line_loop.simps [of d c b] split: if_splits)
    moreover have "takeWhile (\<lambda>x. x \<noteq> d) (unread b) = []
        \<and> dropWhile (\<lambda>x. x \<noteq> d) (unread b) = unread b"
    proof (cases "c = EOF")
      case True
      with "1.prems"(1) show ?thesis by (simp add: at_byte_def)
    next
      case c: False
      obtain xs where "unread b = to_char_type c # xs"
        using at_byte_hd [OF "1.prems"(1) c] by blast
      with d c False show ?thesis by simp
    qed
    ultimately show ?thesis using "1.prems"(1) by simp
  qed
qed

text \<open>
  The abstract input stream: a flat sequence of bytes and the two state bits. Its operations
  are what the C++ standard says of \<open>get\<close>, \<open>operator>>\<close> and \<open>getline\<close>, with no
  buffer and no segments.
\<close>

record flat_istream =
  fl_data :: string
  fl_eof :: bool
  fl_fail :: bool

definition flat_get :: "flat_istream \<Rightarrow> int \<times> flat_istream" where
  "flat_get s =
     (if fl_eof s \<or> fl_fail s then (EOF, s\<lparr>fl_fail := True\<rparr>)
      else case fl_data s of
             [] \<Rightarrow> (EOF, s\<lparr>fl_eof := True, fl_fail := True\<rparr>)
           | c # cs \<Rightarrow> (to_int_type c, s\<lparr>fl_data := cs\<rparr>))"

definition flat_extract :: "flat_istream \<Rightarrow> string option \<times> flat_istream" where
  "flat_extract s =
     (if fl_eof s \<or> fl_fail s then (None, s\<lparr>fl_fail := True\<rparr>)
      else let r = dropWhile isspace (fl_data s);
               w = takeWhile (\<lambda>c. \<not> isspace c) r;
               r' = dropWhile (\<lambda>c. \<not> isspace c) r
           in if r = [] then (None, \<lparr>fl_data = [], fl_eof = True, fl_fail = True\<rparr>)
              else (Some w, \<lparr>fl_data = r', fl_eof = (r' = []), fl_fail = False\<rparr>))"

definition flat_getline :: "flat_istream \<Rightarrow> char \<Rightarrow> string option \<times> flat_istream" where
  "flat_getline s d =
     (if fl_eof s \<or> fl_fail s then (None, s\<lparr>fl_fail := True\<rparr>)
      else let l = takeWhile (\<lambda>c. c \<noteq> d) (fl_data s);
               r = dropWhile (\<lambda>c. c \<noteq> d) (fl_data s)
           in if r = [] then (Some l, \<lparr>fl_data = [], fl_eof = True, fl_fail = (l = [])\<rparr>)
              else (Some l, \<lparr>fl_data = tl r, fl_eof = False, fl_fail = False\<rparr>))"

text \<open>
  The interface a parser relies on: an input stream whose operations are those of its flat
  view. Two streams with equal views cannot be told apart by a client.
\<close>

locale byte_istream =
  fixes get :: "'s \<Rightarrow> int \<times> 's"
    and extr :: "'s \<Rightarrow> string option \<times> 's"
    and getln :: "'s \<Rightarrow> char \<Rightarrow> string option \<times> 's"
    and view :: "'s \<Rightarrow> flat_istream"
    and inv :: "'s \<Rightarrow> bool"
  assumes get_flat: "inv s \<Longrightarrow> get s = (r, t) \<Longrightarrow> inv t \<and> flat_get (view s) = (r, view t)"
    and extract_flat:
      "inv s \<Longrightarrow> extr s = (w, t) \<Longrightarrow> inv t \<and> flat_extract (view s) = (w, view t)"
    and getln_flat:
      "inv s \<Longrightarrow> (of_char d :: int) < 128 \<Longrightarrow> getln s d = (l, t) \<Longrightarrow>
         inv t \<and> flat_getline (view s) d = (l, view t)"
begin

definition same :: "'s \<Rightarrow> 's \<Rightarrow> bool" where
  "same s s' = (inv s \<and> inv s' \<and> view s = view s')"

lemma same_get:
  "same s s' \<Longrightarrow> get s = (r, t) \<Longrightarrow> get s' = (r', t') \<Longrightarrow> r = r' \<and> same t t'"
  using get_flat [of s r t] get_flat [of s' r' t'] by (simp add: same_def)

lemma same_extract:
  "same s s' \<Longrightarrow> extr s = (w, t) \<Longrightarrow> extr s' = (w', t') \<Longrightarrow> w = w' \<and> same t t'"
  using extract_flat [of s w t] extract_flat [of s' w' t'] by (simp add: same_def)

lemma same_getln:
  "same s s' \<Longrightarrow> (of_char d :: int) < 128 \<Longrightarrow> getln s d = (l, t) \<Longrightarrow> getln s' d = (l', t') \<Longrightarrow>
     l = l' \<and> same t t'"
  using getln_flat [of s d l t] getln_flat [of s' d l' t'] by (simp add: same_def)

lemma extract_word:
  assumes "inv s" and "extr s = (Some w, t)" and "\<not> fl_fail (view t)"
  shows "w \<noteq> []" and "c \<in> set w \<Longrightarrow> \<not> isspace c"
proof -
  from extract_flat [OF assms(1,2)] assms(3)
  have w: "w = takeWhile (\<lambda>c. \<not> isspace c) (dropWhile isspace (fl_data (view s)))"
    and "dropWhile isspace (fl_data (view s)) \<noteq> []"
    by (auto simp: flat_extract_def Let_def split: if_splits)
  then show "w \<noteq> []" using hd_dropWhile [of isspace] by (auto simp: takeWhile_eq_Nil_iff)
  show "c \<in> set w \<Longrightarrow> \<not> isspace c" unfolding w by (auto dest: set_takeWhileD)
qed

end

definition is_view :: "SocketInputStream \<Rightarrow> flat_istream" where
  "is_view s = \<lparr>fl_data = unread (is_buf s), fl_eof = is_eof s, fl_fail = is_fail s\<rparr>"

definition is_clean :: "SocketInputStream \<Rightarrow> bool" where
  "is_clean s = clean (is_buf s)"

lemma istream_get_flat:
  assumes "is_clean s" and "istream_get s = (r, t)"
  shows "is_clean t \<and> flat_get (is_view s) = (r, is_view t)"
proof (cases "is_good s")
  case False
  with assms show ?thesis
    by (auto simp: istream_get_def flat_get_def is_view_def is_clean_def is_good_def)
next
  case True
  obtain c b where s: "sbumpc (is_buf s) = (c, b)" by fastforce
  have cl: "clean (is_buf s)" using assms(1) by (simp add: is_clean_def)
  show ?thesis
  proof (cases "c = EOF")
    case True
    with s \<open>is_good s\<close> assms(2) clean_sbumpc [OF cl s] sbumpc_unread(1) [OF s] show ?thesis
      by (auto simp: istream_get_def flat_get_def is_view_def is_clean_def is_good_def)
  next
    case False
    have "c = to_int_type (to_char_type c)"
      using s False by (auto simp: sbumpc_def uflow_def split: if_splits prod.splits)
    with False s \<open>is_good s\<close> assms(2) clean_sbumpc [OF cl s] sbumpc_unread(2) [OF s] show ?thesis
      by (auto simp: istream_get_def flat_get_def is_view_def is_clean_def is_good_def)
  qed
qed

lemma istream_extract_flat:
  assumes "is_clean s" and "istream_extract s = (w, t)"
  shows "is_clean t \<and> flat_extract (is_view s) = (w, is_view t)"
proof (cases "is_good s")
  case False
  with assms show ?thesis
    by (auto simp: istream_extract_def flat_extract_def is_view_def is_clean_def is_good_def)
next
  case True
  obtain c0 b0 where g0: "sgetc (is_buf s) = (c0, b0)" by fastforce
  obtain c1 b1 where k: "skip_ws c0 b0 = (c1, b1)" by fastforce
  obtain c2 b2 where g2: "sgetc b1 = (c2, b2)" by fastforce
  obtain u c3 b3 where l: "word_loop c2 b2 [] = (u, c3, b3)" by (metis prod_cases3)
  have cl: "clean (is_buf s)" using assms(1) by (simp add: is_clean_def)
  note 0 = at_byte_sgetc [OF cl g0]
  note 1 = skip_ws_spec [OF 0(1) k]
  from 1 have "clean b1" by (simp add: at_byte_def)
  note 2 = at_byte_sgetc [OF this g2]
  note 3 = word_loop_spec [OF 2(1) l]
  let ?r = "dropWhile isspace (unread (is_buf s))"
  have w: "u = takeWhile (\<lambda>c. \<not> isspace c) ?r"
    and b3: "unread b3 = dropWhile (\<lambda>c. \<not> isspace c) ?r" and "clean b3" "clean b1"
    and eof: "c3 = EOF \<longleftrightarrow> unread b3 = []" "c1 = EOF \<longleftrightarrow> ?r = []" and b1: "unread b1 = ?r"
    using 0 1 2 3 by (auto simp: at_byte_def)
  have "?r \<noteq> [] \<Longrightarrow> u \<noteq> []"
    unfolding w using hd_dropWhile [of isspace "unread (is_buf s)"]
    by (auto simp: takeWhile_eq_Nil_iff)
  with True assms(2) g0 k g2 l w b3 eof b1 \<open>clean b3\<close> \<open>clean b1\<close> show ?thesis
    by (auto simp: istream_extract_def flat_extract_def is_view_def is_clean_def is_good_def Let_def
        simp del: dropWhile_eq_Nil_conv takeWhile_eq_Nil_iff
        split: if_splits)
qed

lemma istream_getline_flat:
  assumes "is_clean s" and d: "(of_char d :: int) < 128" and "istream_getline s d = (l, t)"
  shows "is_clean t \<and> flat_getline (is_view s) d = (l, is_view t)"
proof (cases "is_good s")
  case False
  with assms show ?thesis
    by (auto simp: istream_getline_def flat_getline_def is_view_def is_clean_def is_good_def)
next
  case True
  obtain c0 b0 where g0: "sgetc (is_buf s) = (c0, b0)" by fastforce
  obtain u c1 b1 where k: "line_loop d c0 b0 [] = (u, c1, b1)" by (metis prod_cases3)
  obtain r b2 where g2: "sbumpc b1 = (r, b2)" by fastforce
  have cl: "clean (is_buf s)" using assms(1) by (simp add: is_clean_def)
  note 0 = at_byte_sgetc [OF cl g0]
  note 1 = line_loop_spec [OF 0(1) k d]
  from 1 have c1: "clean b1" by (simp add: at_byte_def)
  note 2 = clean_sbumpc [OF c1 g2]
  have "c1 = EOF \<longleftrightarrow> unread b1 = []" using 1 by (simp add: at_byte_def)
  moreover have "unread b1 \<noteq> [] \<Longrightarrow> unread b2 = tl (unread b1)"
    using 2(2) sbumpc_unread(2) [OF g2] by auto
  ultimately show ?thesis
    using True assms(3) g0 k g2 0 1 2 c1
    by (auto simp: istream_getline_def flat_getline_def is_view_def is_clean_def is_good_def Let_def
        simp del: dropWhile_eq_Nil_conv takeWhile_eq_Nil_iff
        split: if_splits)
qed

interpretation sis: byte_istream istream_get istream_extract istream_getline is_view is_clean
  by unfold_locales
     (rule istream_get_flat istream_extract_flat istream_getline_flat; assumption)+

section \<open>Writing appends to the byte sequence of the peer\<close>

text \<open>Everything handed to the stream so far: what the kernel took and what is still buffered.\<close>

definition written :: "SocketOutputStream \<Rightarrow> string" where
  "written out =
     sk_tx (ss_socket (os_buf out)) @ subarr (ss_buffer (os_buf out)) 0 (ss_pptr (os_buf out))"

definition takes_all :: "socket \<Rightarrow> bool" where
  "takes_all sk = (\<forall>i. BFSIZE \<le> sk_snd sk i)"

definition out_ready :: "SocketOutputStream \<Rightarrow> bool" where
  "out_ready out =
     (\<not> os_bad out \<and> takes_all (ss_socket (os_buf out))
      \<and> ss_epptr (os_buf out) = BFSIZE - 1 \<and> ss_pptr (os_buf out) \<le> BFSIZE - 1)"

lemma out_ready_not_bad: "out_ready out \<Longrightarrow> \<not> os_bad out"
  by (simp add: out_ready_def)

lemma flush_loop_all:
  assumes "takes_all sk" and "rest \<le> BFSIZE"
  shows "\<exists>sk'. flush_loop buf rest sk = (0, sk')
    \<and> sk_tx sk' = sk_tx sk @ subarr buf 0 rest \<and> sk_snd sk' = sk_snd sk"
proof (cases "rest = 0")
  case True
  then show ?thesis by (simp add: flush_loop.simps)
next
  case False
  from assms have "rest \<le> sk_snd sk (sk_nsnd sk)"
    by (auto simp: takes_all_def intro: le_trans)
  then have s: "send sk (subarr buf 0 rest) = (rest, sk\<lparr>sk_tx := sk_tx sk @ subarr buf 0 rest,
      sk_nsnd := Suc (sk_nsnd sk)\<rparr>)"
    by (simp add: send_def Let_def min_def)
  with False show ?thesis
    by (simp add: flush_loop.simps [of buf rest] flush_loop.simps [of buf 0])
qed

lemma ss_flush_all:
  assumes "takes_all (ss_socket b)" and "ss_pptr b \<le> BFSIZE"
  shows "\<exists>sk'. ss_flush b = (int (ss_pptr b), b\<lparr>ss_pptr := 0, ss_socket := sk'\<rparr>)
    \<and> sk_tx sk' = sk_tx (ss_socket b) @ subarr (ss_buffer b) 0 (ss_pptr b)
    \<and> sk_snd sk' = sk_snd (ss_socket b)"
  using flush_loop_all [OF assms, of "ss_buffer b"] by (auto simp: ss_flush_def)

lemma sputc_ready:
  assumes "out_ready \<lparr>os_buf = b, os_bad = False\<rparr>"
  shows "\<exists>b'. sputc b c = (to_int_type c, b') \<and> out_ready \<lparr>os_buf = b', os_bad = False\<rparr>
    \<and> written \<lparr>os_buf = b', os_bad = False\<rparr> = written \<lparr>os_buf = b, os_bad = False\<rparr> @ [c]"
proof (cases "ss_pptr b < ss_epptr b")
  case True
  with assms show ?thesis
    by (auto simp: sputc_def out_ready_def written_def subarr_snoc)
next
  case False
  let ?b = "b\<lparr>ss_buffer := (ss_buffer b)(ss_pptr b := c), ss_pptr := Suc (ss_pptr b)\<rparr>"
  from assms have "takes_all (ss_socket ?b)" and "ss_pptr ?b \<le> BFSIZE"
    by (auto simp: out_ready_def BFSIZE_def)
  from ss_flush_all [OF this] obtain sk' where
    f: "ss_flush ?b = (int (Suc (ss_pptr b)), ?b\<lparr>ss_pptr := 0, ss_socket := sk'\<rparr>)"
    and tx: "sk_tx sk' = sk_tx (ss_socket b) @ subarr ((ss_buffer b)(ss_pptr b := c)) 0 (Suc (ss_pptr b))"
    and snd: "sk_snd sk' = sk_snd (ss_socket b)" by auto
  have "int (Suc (ss_pptr b)) \<noteq> EOF" by (simp add: EOF_def)
  with f False have "sputc b c = (to_int_type c, ?b\<lparr>ss_pptr := 0, ss_socket := sk'\<rparr>)"
    by (simp add: sputc_def overflow_def Let_def)
  with assms tx snd show ?thesis
    by (simp add: out_ready_def takes_all_def written_def subarr_snoc)
qed

lemma sputn_ready:
  "out_ready \<lparr>os_buf = b, os_bad = False\<rparr> \<Longrightarrow>
   \<exists>b'. sputn b xs = (length xs, b') \<and> out_ready \<lparr>os_buf = b', os_bad = False\<rparr>
     \<and> written \<lparr>os_buf = b', os_bad = False\<rparr> = written \<lparr>os_buf = b, os_bad = False\<rparr> @ xs"
proof (induction xs arbitrary: b)
  case Nil
  then show ?case by simp
next
  case (Cons x xs)
  from sputc_ready [OF Cons.prems, of x] obtain b1 where
    1: "sputc b x = (to_int_type x, b1)" "out_ready \<lparr>os_buf = b1, os_bad = False\<rparr>"
      "written \<lparr>os_buf = b1, os_bad = False\<rparr> = written \<lparr>os_buf = b, os_bad = False\<rparr> @ [x]"
    by blast
  from Cons.IH [OF 1(2)] 1 show ?case by auto
qed

lemma ostream_write_ready:
  assumes "out_ready out"
  shows "out_ready (ostream_write out xs)" and "written (ostream_write out xs) = written out @ xs"
proof -
  from assms obtain b where o: "out = \<lparr>os_buf = b, os_bad = False\<rparr>"
    by (cases out) (simp add: out_ready_def)
  from sputn_ready [OF assms [unfolded o], of xs]
  show "out_ready (ostream_write out xs)" and "written (ostream_write out xs) = written out @ xs"
    by (auto simp: ostream_write_def o)
qed

lemma ostream_flush_ready:
  assumes "out_ready out"
  shows "out_ready (ostream_flush out)" and "written (ostream_flush out) = written out"
    and "ss_pptr (os_buf (ostream_flush out)) = 0"
proof -
  from assms have "takes_all (ss_socket (os_buf out))" and "ss_pptr (os_buf out) \<le> BFSIZE"
    by (auto simp: out_ready_def BFSIZE_def)
  from ss_flush_all [OF this] obtain sk' where
    "ss_flush (os_buf out) = (int (ss_pptr (os_buf out)),
        (os_buf out)\<lparr>ss_pptr := 0, ss_socket := sk'\<rparr>)"
    and "sk_tx sk' = sk_tx (ss_socket (os_buf out))
        @ subarr (ss_buffer (os_buf out)) 0 (ss_pptr (os_buf out))"
    and "sk_snd sk' = sk_snd (ss_socket (os_buf out))" by blast
  moreover have "int n \<noteq> EOF" for n by (simp add: EOF_def)
  ultimately show "out_ready (ostream_flush out)" and "written (ostream_flush out) = written out"
    and "ss_pptr (os_buf (ostream_flush out)) = 0"
    using assms
    by (auto simp: ostream_flush_def sync_def out_ready_def takes_all_def written_def EOF_def)
qed

text \<open>
  The interface the response code relies on: a stream that, while it is ready, appends exactly
  what it is given and delivers all of it when flushed.
\<close>

locale byte_ostream =
  fixes put :: "'o \<Rightarrow> string \<Rightarrow> 'o"
    and flush :: "'o \<Rightarrow> 'o"
    and failed :: "'o \<Rightarrow> bool"
    and content :: "'o \<Rightarrow> string"
    and ready :: "'o \<Rightarrow> bool"
  assumes put_ready: "ready out \<Longrightarrow> ready (put out xs)"
    and put_content: "ready out \<Longrightarrow> content (put out xs) = content out @ xs"
    and flush_ready: "ready out \<Longrightarrow> ready (flush out)"
    and flush_content: "ready out \<Longrightarrow> content (flush out) = content out"
    and ready_not_failed: "ready out \<Longrightarrow> \<not> failed out"
begin

lemma puts_ready: "ready out \<Longrightarrow> ready (foldl put out xss)"
  by (induction xss arbitrary: out) (simp_all add: put_ready)

lemma puts_content: "ready out \<Longrightarrow> content (foldl put out xss) = content out @ concat xss"
  by (induction xss arbitrary: out) (simp_all add: put_ready put_content)

lemma puts_flush:
  "ready out \<Longrightarrow> content (flush (foldl put out xss)) = content out @ concat xss"
  by (simp add: flush_content puts_ready puts_content)

end

interpretation sos: byte_ostream ostream_write ostream_flush os_bad written out_ready
  by unfold_locales
     (simp_all add: ostream_write_ready ostream_flush_ready out_ready_not_bad)

section \<open>Every access is inside the array\<close>

text \<open>
  The put pointer is below the last byte while the stream is good; a failed flush may leave it
  at the end of the array, but then the stream is bad and nothing is put any more.
\<close>

definition put_wf :: "SocketStreamBuffer \<Rightarrow> bool" where
  "put_wf b = (ss_epptr b = BFSIZE - 1 \<and> ss_pptr b \<le> BFSIZE - 1)"

definition os_wf :: "SocketOutputStream \<Rightarrow> bool" where
  "os_wf out =
     (ss_epptr (os_buf out) = BFSIZE - 1
      \<and> ss_pptr (os_buf out) \<le> (if os_bad out then BFSIZE else BFSIZE - 1))"

definition get_wf :: "SocketStreamBuffer \<Rightarrow> bool" where
  "get_wf b = (ss_gptr b \<le> ss_egptr b \<and> ss_egptr b \<le> BFSIZE)"

lemma flush_loop_le: "flush_loop buf rest sk = (r, sk') \<Longrightarrow> r \<le> rest"
proof (induction buf rest sk rule: flush_loop.induct)
  case (1 buf rest sk)
  then show ?case
    by (fastforce simp: flush_loop.simps [of buf rest sk] split: if_splits prod.splits)
qed

lemma ss_flush_frame:
  assumes "ss_flush b = (r, b')"
  shows "ss_buffer b' = ss_buffer b" and "ss_epptr b' = ss_epptr b" and "ss_pptr b' \<le> ss_pptr b"
    and "r \<noteq> EOF \<Longrightarrow> ss_pptr b' = 0"
  using assms flush_loop_le [of "ss_buffer b" "ss_pptr b" "ss_socket b"]
  by (auto simp: ss_flush_def Let_def split: prod.splits if_splits)

lemma sputc_wf:
  assumes "put_wf b" and "sputc b c = (r, b')"
  shows "\<forall>i \<ge> BFSIZE. ss_buffer b' i = ss_buffer b i"
    and "if r = EOF then ss_epptr b' = BFSIZE - 1 \<and> ss_pptr b' \<le> BFSIZE else put_wf b'"
proof -
  have "(\<forall>i \<ge> BFSIZE. ss_buffer b' i = ss_buffer b i)
    \<and> (if r = EOF then ss_epptr b' = BFSIZE - 1 \<and> ss_pptr b' \<le> BFSIZE else put_wf b')"
  proof (cases "ss_pptr b < ss_epptr b")
    case True
    with assms show ?thesis by (auto simp: sputc_def put_wf_def)
  next
    case False
    let ?b = "b\<lparr>ss_buffer := (ss_buffer b)(ss_pptr b := c), ss_pptr := Suc (ss_pptr b)\<rparr>"
    obtain r1 b1 where f: "ss_flush ?b = (r1, b1)" by fastforce
    with False assms(2) have "r = (if r1 = EOF then EOF else to_int_type c)" "b' = b1"
      by (auto simp: sputc_def overflow_def Let_def split: if_splits)
    with ss_flush_frame [OF f] assms(1) show ?thesis
      by (auto simp: put_wf_def BFSIZE_def)
  qed
  then show "\<forall>i \<ge> BFSIZE. ss_buffer b' i = ss_buffer b i"
    and "if r = EOF then ss_epptr b' = BFSIZE - 1 \<and> ss_pptr b' \<le> BFSIZE else put_wf b'" by auto
qed

lemma sputn_wf:
  "put_wf b \<Longrightarrow> sputn b xs = (n, b') \<Longrightarrow>
     (\<forall>i \<ge> BFSIZE. ss_buffer b' i = ss_buffer b i)
     \<and> (if n = length xs then put_wf b' else ss_epptr b' = BFSIZE - 1 \<and> ss_pptr b' \<le> BFSIZE)"
proof (induction xs arbitrary: b n b')
  case Nil
  then show ?case by simp
next
  case (Cons x xs)
  obtain r b1 where s: "sputc b x = (r, b1)" by fastforce
  note 1 = sputc_wf [OF Cons.prems(1) s]
  show ?case
  proof (cases "r = EOF")
    case True
    with 1 s Cons.prems(2) show ?thesis by auto
  next
    case False
    obtain m b2 where m: "sputn b1 xs = (m, b2)" by fastforce
    with s False Cons.prems(2) have "n = Suc m" "b' = b2" by auto
    with Cons.IH [OF _ m] 1 False show ?thesis by auto
  qed
qed

text \<open>
  (C17) Memory safety of the output path: from a well-formed output stream, writing any string,
  with any behaviour of \<open>send\<close>, leaves every byte outside the 4096-byte array
  \<open>__buffer\<close> unchanged and the stream well-formed again.
\<close>

theorem ostream_write_in_bounds:
  assumes "os_wf out"
  shows "os_wf (ostream_write out xs)
    \<and> (\<forall>i. BFSIZE \<le> i \<longrightarrow>
         ss_buffer (os_buf (ostream_write out xs)) i = ss_buffer (os_buf out) i)"
proof (cases "os_bad out")
  case True
  with assms show ?thesis by (simp add: ostream_write_def)
next
  case False
  obtain n b where s: "sputn (os_buf out) xs = (n, b)" by fastforce
  from False assms have "put_wf (os_buf out)" by (simp add: os_wf_def put_wf_def)
  from sputn_wf [OF this s] False s show ?thesis
    by (auto simp: ostream_write_def os_wf_def put_wf_def split: if_splits)
qed

theorem ostream_write_in_bounds_witness:
  "os_wf (ostream_write
     (mk_SocketOutputStream (mk_SocketStreamBuffer (\<lambda>_. CHR 0x00)
        \<lparr>sk_rx = [], sk_tx = [], sk_snd = (\<lambda>_. 0), sk_nsnd = 0\<rparr>)) ''HTTP/1.1'')"
proof -
  let ?out = "mk_SocketOutputStream (mk_SocketStreamBuffer (\<lambda>_. CHR 0x00)
    \<lparr>sk_rx = [], sk_tx = [], sk_snd = (\<lambda>_. 0), sk_nsnd = 0\<rparr>)"
  have "os_wf ?out" by (simp add: os_wf_def mk_SocketOutputStream_def mk_SocketStreamBuffer_def)
  from ostream_write_in_bounds [OF this, of "''HTTP/1.1''"] show ?thesis by blast
qed

lemma underflow_wf:
  assumes "get_wf b" and "underflow b = (r, b')"
  shows "get_wf b'" and "BFSIZE \<le> i \<Longrightarrow> ss_buffer b' i = ss_buffer b i"
  using assms
  by (auto simp: get_wf_def underflow_def recv_def blit_def Let_def
      split: prod.splits list.splits if_splits)

text \<open>
  (C36) A partial \<open>send\<close> corrupts the stream: \<open>flush\<close> restarts at the beginning of the
  array after every call, so when the kernel takes only the first \<open>k\<close> of the pending bytes
  and then everything, the peer receives the first \<open>k\<close> bytes, then the first
  \<open>n - k\<close> bytes again instead of the last ones, and \<open>flush\<close> reports success.
\<close>

theorem flush_resends_prefix:
  assumes "ss_pptr b = n" and "0 < k" and "k < n" and "n \<le> BFSIZE"
    and "sk_snd (ss_socket b) (sk_nsnd (ss_socket b)) = k"
    and "BFSIZE \<le> sk_snd (ss_socket b) (Suc (sk_nsnd (ss_socket b)))"
    and "pending = subarr (ss_buffer b) 0 n"
  shows "fst (ss_flush b) = int n
    \<and> sk_tx (ss_socket (snd (ss_flush b)))
        = sk_tx (ss_socket b) @ take k pending @ take (n - k) pending"
proof -
  let ?sk = "ss_socket b"
  have s1: "send ?sk pending = (k, ?sk\<lparr>sk_tx := sk_tx ?sk @ take k pending,
      sk_nsnd := Suc (sk_nsnd ?sk)\<rparr>)" (is "_ = (_, ?sk1)")
    using assms by (simp add: send_def Let_def)
  have "take (n - k) pending = subarr (ss_buffer b) 0 (n - k)"
    by (simp add: assms(7) take_subarr)
  then have s2: "send ?sk1 (subarr (ss_buffer b) 0 (n - k))
      = (n - k, ?sk1\<lparr>sk_tx := sk_tx ?sk1 @ take (n - k) pending,
          sk_nsnd := Suc (sk_nsnd ?sk1)\<rparr>)"
    using assms by (simp add: send_def Let_def min_def)
  have "flush_loop (ss_buffer b) n ?sk = (0, snd (send ?sk1 (subarr (ss_buffer b) 0 (n - k))))"
    using s1 s2 assms
    by (simp add: flush_loop.simps [of _ n] flush_loop.simps [of _ "n - k"]
        flush_loop.simps [of _ 0])
  with s2 assms(1) show ?thesis by (simp add: ss_flush_def)
qed

theorem flush_resends_prefix_witness:
  "sk_tx (ss_socket (snd (ss_flush
     \<lparr>ss_buffer = blit 0 ''abcd'' (\<lambda>_. CHR 0x00), ss_gptr = 0, ss_egptr = 0, ss_pptr = 4,
      ss_epptr = BFSIZE - 1,
      ss_socket = \<lparr>sk_rx = [], sk_tx = [], sk_snd = (\<lambda>i. if i = 0 then 3 else 5000),
                   sk_nsnd = 0\<rparr>\<rparr>)))
   = ''abca''"
proof -
  let ?b = "\<lparr>ss_buffer = blit 0 ''abcd'' (\<lambda>_. CHR 0x00), ss_gptr = 0, ss_egptr = 0, ss_pptr = 4,
      ss_epptr = BFSIZE - 1,
      ss_socket = \<lparr>sk_rx = [], sk_tx = [], sk_snd = (\<lambda>i. if i = 0 then 3 else 5000),
                   sk_nsnd = 0\<rparr>\<rparr>"
  have p: "subarr (ss_buffer ?b) 0 4 = ''abcd''"
    using subarr_blit_zero [of "''abcd''" "\<lambda>_. CHR 0x00"] by (simp add: numeral_eq_Suc)
  show ?thesis
    using flush_resends_prefix [of ?b 4 3 "''abcd''"] p by (simp add: BFSIZE_def)
qed

text \<open>
  A segment that starts with the byte \<open>0xFF\<close> is taken for the end of the input:
  \<open>underflow\<close> returns the signed \<open>char\<close> itself, which is \<open>-1\<close>, although the get area
  has just been filled with that segment.
\<close>

theorem underflow_0xFF_is_EOF:
  assumes "sk_rx (ss_socket b) = (CHR 0xFF # xs) # rest"
  shows "fst (underflow b) = EOF \<and> ss_gptr (snd (underflow b)) < ss_egptr (snd (underflow b))"
  using assms by (simp add: underflow_def recv_def Let_def BFSIZE_def)

theorem underflow_0xFF_is_EOF_witness:
  "fst (underflow (mk_SocketStreamBuffer (\<lambda>_. CHR 0x00)
      \<lparr>sk_rx = [[CHR 0xFF, CHR ''G'']], sk_tx = [], sk_snd = (\<lambda>_. 0), sk_nsnd = 0\<rparr>)) = EOF"
  using underflow_0xFF_is_EOF
    [of "mk_SocketStreamBuffer (\<lambda>_. CHR 0x00)
      \<lparr>sk_rx = [[CHR 0xFF, CHR ''G'']], sk_tx = [], sk_snd = (\<lambda>_. 0), sk_nsnd = 0\<rparr>"
      "''G''" "[]"]
  by (simp add: mk_SocketStreamBuffer_def)

section \<open>Progress of reading, for every socket\<close>

lemma snextc_buffered:
  assumes "ss_gptr b < ss_egptr b" and "snextc b = (r, b')"
  shows "unread b' = tl (unread b)" and "r \<noteq> EOF \<Longrightarrow> ss_gptr b' < ss_egptr b'"
    and "r \<noteq> EOF \<Longrightarrow> reads_as r (ss_buffer b' (ss_gptr b'))"
proof -
  let ?b = "b\<lparr>ss_gptr := Suc (ss_gptr b)\<rparr>"
  have g: "sgetc ?b = (r, b')"
    using assms by (simp add: snextc_def sbumpc_def)
  have "unread ?b = tl (unread b)" using assms(1) by (simp add: unread_def subarr_Cons)
  with sgetc_unread [OF g] show "unread b' = tl (unread b)"
    and "r \<noteq> EOF \<Longrightarrow> ss_gptr b' < ss_egptr b'"
    and "r \<noteq> EOF \<Longrightarrow> reads_as r (ss_buffer b' (ss_gptr b'))" by auto
qed

lemma unread_buffered: "ss_gptr b < ss_egptr b \<Longrightarrow> 0 < unread_len b"
  by (simp add: unread_len_def unread_def)

lemma line_loop_len:
  "(c \<noteq> EOF \<Longrightarrow> ss_gptr b < ss_egptr b) \<Longrightarrow> line_loop d c b acc = (l, c', b') \<Longrightarrow>
     unread_len b' + length l = unread_len b + length acc
     \<and> (c' \<noteq> EOF \<longrightarrow> ss_gptr b' < ss_egptr b')"
proof (induction d c b acc arbitrary: l c' b' rule: line_loop.induct)
  case (1 d c b acc)
  show ?case
  proof (cases "c \<noteq> EOF \<and> c \<noteq> to_int_type d")
    case True
    obtain r1 b1 where s: "snextc b = (r1, b1)" by fastforce
    with "1.prems" True have b: "ss_gptr b < ss_egptr b"
      and w: "line_loop d r1 b1 (acc @ [to_char_type c]) = (l, c', b')"
      by (auto simp: line_loop.simps [of d c b])
    note 2 = snextc_buffered [OF b s]
    from "1.IH" [OF True s [symmetric] 2(2) w] 2(1) unread_buffered [OF b] show ?thesis
      by (simp add: unread_len_def)
  next
    case False
    with "1.prems" show ?thesis by (auto simp: line_loop.simps [of d c b] split: if_splits)
  qed
qed

lemma istream_getline_consumes:
  assumes "istream_getline s d = (l, t)" and "\<not> is_fail t"
  shows "unread_len (is_buf t) < unread_len (is_buf s)" and "l \<noteq> None" and "is_good s"
proof -
  have good: "is_good s" using assms by (auto simp: istream_getline_def split: if_splits)
  obtain c0 b0 where g0: "sgetc (is_buf s) = (c0, b0)" by fastforce
  obtain u c1 b1 where k: "line_loop d c0 b0 [] = (u, c1, b1)" by (metis prod_cases3)
  obtain r b2 where g2: "sbumpc b1 = (r, b2)" by fastforce
  note 0 = sgetc_unread [OF g0]
  have 1: "unread_len b1 + length u = unread_len (is_buf s)"
    "c1 \<noteq> EOF \<Longrightarrow> ss_gptr b1 < ss_egptr b1"
    using line_loop_len [OF _ k] 0 by (auto simp: unread_len_def)
  have "c1 \<noteq> EOF \<Longrightarrow> Suc (unread_len b2) = unread_len b1"
    using 1(2) g2 by (auto simp: sbumpc_def unread_len_split)
  moreover have "u \<noteq> [] \<Longrightarrow> unread_len b1 < unread_len (is_buf s)" using 1(1) by (cases u) auto
  ultimately show "unread_len (is_buf t) < unread_len (is_buf s)" using 1 assms good g0 k g2
    by (auto simp: istream_getline_def split: if_splits)
  show "l \<noteq> None" and "is_good s"
    using assms good g0 k by (auto simp: istream_getline_def split: if_splits)
qed

lemma word_loop_len:
  "(c \<noteq> EOF \<Longrightarrow> ss_gptr b < ss_egptr b) \<Longrightarrow> word_loop c b acc = (w, c', b') \<Longrightarrow>
     unread_len b' + length w = unread_len b + length acc"
proof (induction c b acc arbitrary: w c' b' rule: word_loop.induct)
  case (1 c b acc)
  show ?case
  proof (cases "c \<noteq> EOF \<and> \<not> isspace (to_char_type c)")
    case True
    obtain r1 b1 where s: "snextc b = (r1, b1)" by fastforce
    with "1.prems" True have b: "ss_gptr b < ss_egptr b"
      and w: "word_loop r1 b1 (acc @ [to_char_type c]) = (w, c', b')"
      by (auto simp: word_loop.simps [of c b])
    note 2 = snextc_buffered [OF b s]
    from "1.IH" [OF True s [symmetric] 2(2) w] 2(1) unread_buffered [OF b] show ?thesis
      by (simp add: unread_len_def)
  next
    case False
    with "1.prems" show ?thesis by (auto simp: word_loop.simps [of c b] split: if_splits)
  qed
qed

lemma word_loop_grows: "word_loop c b acc = (w, c', b') \<Longrightarrow> length acc \<le> length w"
proof (induction c b acc arbitrary: w c' b' rule: word_loop.induct)
  case (1 c b acc)
  then show ?case
    by (fastforce simp: word_loop.simps [of c b acc] split: if_splits prod.splits)
qed

lemma word_loop_not_Nil:
  "c \<noteq> EOF \<Longrightarrow> \<not> isspace (to_char_type c) \<Longrightarrow> word_loop c b [] = (w, c', b') \<Longrightarrow> w \<noteq> []"
  using word_loop_grows [of _ _ "[to_char_type c]"]
  by (fastforce simp: word_loop.simps [of c b] split: prod.splits)

lemma skip_ws_len:
  "skip_ws c b = (c', b') \<Longrightarrow>
     (c \<noteq> EOF \<Longrightarrow> ss_gptr b < ss_egptr b \<and> reads_as c (ss_buffer b (ss_gptr b))) \<Longrightarrow>
     unread_len b' \<le> unread_len b
     \<and> (c' \<noteq> EOF \<longrightarrow> ss_gptr b' < ss_egptr b' \<and> reads_as c' (ss_buffer b' (ss_gptr b'))
          \<and> \<not> isspace (to_char_type c'))"
proof (induction c b arbitrary: c' b' rule: skip_ws.induct)
  case (1 c b)
  show ?case
  proof (cases "c \<noteq> EOF \<and> isspace (to_char_type c)")
    case True
    obtain r1 b1 where s: "snextc b = (r1, b1)" by fastforce
    with "1.prems" True have k: "skip_ws r1 b1 = (c', b')" and b: "ss_gptr b < ss_egptr b"
      by (auto simp: skip_ws.simps [of c b])
    note 2 = snextc_buffered [OF b s]
    from "1.IH" [OF True s [symmetric] k] 2 show ?thesis by (auto simp: unread_len_def)
  next
    case False
    with "1.prems" show ?thesis by (auto simp: skip_ws.simps [of c b] split: if_splits)
  qed
qed

lemma istream_extract_consumes:
  assumes "istream_extract s = (w, t)"
  shows "unread_len (is_buf t) \<le> unread_len (is_buf s)"
    and "\<not> is_fail t \<Longrightarrow> unread_len (is_buf t) < unread_len (is_buf s) \<and> is_good s \<and> w \<noteq> None"
    and "is_fail t \<Longrightarrow> \<not> is_eof s \<Longrightarrow> \<not> is_fail s \<Longrightarrow> is_eof t"
proof -
  obtain c0 b0 where g0: "sgetc (is_buf s) = (c0, b0)" by fastforce
  obtain c1 b1 where k: "skip_ws c0 b0 = (c1, b1)" by fastforce
  obtain c2 b2 where g2: "sgetc b1 = (c2, b2)" by fastforce
  obtain u c3 b3 where l: "word_loop c2 b2 [] = (u, c3, b3)" by (metis prod_cases3)
  have 1: "unread_len b1 \<le> unread_len (is_buf s)"
    and c1: "c1 \<noteq> EOF \<Longrightarrow> ss_gptr b1 < ss_egptr b1 \<and> reads_as c1 (ss_buffer b1 (ss_gptr b1))
        \<and> \<not> isspace (to_char_type c1)"
    using skip_ws_len [OF k] sgetc_unread [OF g0] by (simp_all add: unread_len_def)
  have "u \<noteq> []" if "c1 \<noteq> EOF"
  proof -
    have "c2 = to_int_type (to_char_type c1)"
      using c1 [OF that] g2 reads_as_to_char [of c1] by (auto simp: sgetc_def)
    with c1 [OF that] l show ?thesis by (auto dest: word_loop_not_Nil [rotated 2])
  qed
  have 3: "unread_len b3 + length u = unread_len b1"
    using word_loop_len [OF _ l] sgetc_unread [OF g2] by (simp add: unread_len_def)
  have 4: "u \<noteq> [] \<Longrightarrow> unread_len b3 < unread_len b1" using 3 by (cases u) auto
  show "unread_len (is_buf t) \<le> unread_len (is_buf s)"
    using assms g0 k g2 l 1 3 by (auto simp: istream_extract_def split: if_splits)
  show "\<not> is_fail t \<Longrightarrow> unread_len (is_buf t) < unread_len (is_buf s) \<and> is_good s \<and> w \<noteq> None"
    using assms g0 k g2 l 1 3 4 by (auto simp: istream_extract_def split: if_splits)
  show "is_fail t \<Longrightarrow> \<not> is_eof s \<Longrightarrow> \<not> is_fail s \<Longrightarrow> is_eof t"
    using assms g0 k g2 l \<open>c1 \<noteq> EOF \<Longrightarrow> u \<noteq> []\<close> by (auto simp: istream_extract_def is_good_def split: if_splits)
qed

lemma istream_get_consumes:
  assumes "istream_get s = (c, t)"
  shows "unread_len (is_buf t) \<le> unread_len (is_buf s)"
    and "is_good s \<Longrightarrow> is_fail t \<Longrightarrow> is_eof t"
    and "\<not> is_fail t \<Longrightarrow> unread_len (is_buf t) < unread_len (is_buf s) \<and> is_good s \<and> is_good t"
proof -
  obtain r b where s: "sbumpc (is_buf s) = (r, b)" by fastforce
  show "unread_len (is_buf t) \<le> unread_len (is_buf s)"
    and "is_good s \<Longrightarrow> is_fail t \<Longrightarrow> is_eof t"
    and "\<not> is_fail t \<Longrightarrow> unread_len (is_buf t) < unread_len (is_buf s) \<and> is_good s \<and> is_good t"
    using assms s sbumpc_unread [OF s]
    by (auto simp: istream_get_def unread_len_def is_good_def split: if_splits)
qed

lemma istream_getline_le:
  assumes "istream_getline s d = (l, t)"
  shows "unread_len (is_buf t) \<le> unread_len (is_buf s)"
    and "is_good s \<Longrightarrow> is_fail t \<Longrightarrow> is_eof t"
proof -
  obtain c0 b0 where g0: "sgetc (is_buf s) = (c0, b0)" by fastforce
  obtain u c1 b1 where k: "line_loop d c0 b0 [] = (u, c1, b1)" by (metis prod_cases3)
  obtain r b2 where g2: "sbumpc b1 = (r, b2)" by fastforce
  have "unread_len b1 \<le> unread_len (is_buf s)"
    using line_loop_len [OF _ k] sgetc_unread [OF g0] by (fastforce simp: unread_len_def)
  moreover have "unread_len b2 \<le> unread_len b1"
    using sbumpc_unread [OF g2] by (cases "r = EOF") (auto simp: unread_len_def)
  ultimately show "unread_len (is_buf t) \<le> unread_len (is_buf s)"
    and "is_good s \<Longrightarrow> is_fail t \<Longrightarrow> is_eof t"
    using assms g0 k g2 by (auto simp: istream_getline_def is_good_def split: if_splits)
qed

abbreviation get_area :: "SocketStreamBuffer \<Rightarrow> string" where
  "get_area b \<equiv> subarr (ss_buffer b) (ss_gptr b) (ss_egptr b)"

lemma subarr_min: "subarr a g (g + min n (e - g)) = take n (subarr a g e)"
proof (cases "g \<le> e")
  case True
  then have "g + min n (e - g) = min e (g + n)" by arith
  then show ?thesis by (simp add: take_subarr)
qed simp

lemma istream_readsome_good:
  assumes "is_good s" and "istream_readsome s n = (xs, t)"
  shows "xs = take n (get_area (is_buf s))" and "get_area (is_buf t) = drop n (get_area (is_buf s))"
    and "is_good t" and "unread (is_buf s) = xs @ unread (is_buf t)"
    and "sk_rx (ss_socket (is_buf t)) = sk_rx (ss_socket (is_buf s))"
proof -
  let ?b = "is_buf s" and ?k = "min n (ss_egptr (is_buf s) - ss_gptr (is_buf s))"
  have t: "t = s\<lparr>is_buf := ?b\<lparr>ss_gptr := ss_gptr ?b + ?k\<rparr>\<rparr>"
    and xs: "xs = subarr (ss_buffer ?b) (ss_gptr ?b) (ss_gptr ?b + ?k)"
    using assms by (auto simp: istream_readsome_def Let_def)
  show xs_take: "xs = take n (get_area ?b)" unfolding xs by (rule subarr_min)
  have "drop n (get_area ?b) = drop ?k (get_area ?b)" by (simp add: min_def)
  then show d: "get_area (is_buf t) = drop n (get_area ?b)" by (simp add: t drop_subarr)
  show "is_good t" using assms(1) by (simp add: t is_good_def)
  show "sk_rx (ss_socket (is_buf t)) = sk_rx (ss_socket ?b)" by (simp add: t)
  then show "unread ?b = xs @ unread (is_buf t)"
    by (simp add: unread_def d xs_take)
qed

lemma istream_readsome_flags:
  assumes "istream_readsome s n = (xs, t)"
  shows "is_eof t = is_eof s" and "unread_len (is_buf t) \<le> unread_len (is_buf s)"
proof -
  show "is_eof t = is_eof s"
    using assms by (auto simp: istream_readsome_def Let_def split: if_splits)
  show "unread_len (is_buf t) \<le> unread_len (is_buf s)"
  proof (cases "is_good s")
    case True
    then show ?thesis using istream_readsome_good(4) [OF True assms] by (simp add: unread_len_def)
  next
    case False
    with assms show ?thesis by (auto simp: istream_readsome_def)
  qed
qed

text \<open>Symbolic execution on a stream that is good and whose next bytes are known.\<close>

abbreviation flat_good :: "string \<Rightarrow> flat_istream" where
  "flat_good xs \<equiv> \<lparr>fl_data = xs, fl_eof = False, fl_fail = False\<rparr>"

lemma dropWhile_all_append: "(\<And>x. x \<in> set xs \<Longrightarrow> P x) \<Longrightarrow> dropWhile P (xs @ ys) = dropWhile P ys"
  by (induction xs) auto

context byte_istream
begin

lemma get_char:
  assumes "inv s" and "view s = flat_good (c # rest)"
  shows "\<exists>t. get s = (to_int_type c, t) \<and> inv t \<and> view t = flat_good rest"
proof -
  obtain r t where g: "get s = (r, t)" by fastforce
  from get_flat [OF assms(1) g] assms(2) g show ?thesis by (auto simp: flat_get_def)
qed

lemma extr_next:
  assumes "inv s" and "view s = flat_good (sp @ w @ c # rest)"
    and "\<And>x. x \<in> set sp \<Longrightarrow> isspace x" and "w \<noteq> []" and "\<And>x. x \<in> set w \<Longrightarrow> \<not> isspace x"
    and "isspace c"
  shows "\<exists>t. extr s = (Some w, t) \<and> inv t \<and> view t = flat_good (c # rest)"
proof -
  obtain r t where g: "extr s = (r, t)" by fastforce
  obtain x xs where w: "w = x # xs" using assms(4) by (cases w) auto
  with assms(3,5) have "dropWhile isspace (sp @ w @ c # rest) = w @ c # rest"
    by (simp add: dropWhile_all_append)
  moreover have "takeWhile (\<lambda>y. \<not> isspace y) (w @ c # rest) = w"
    using assms(5,6) by (simp add: takeWhile_append2)
  moreover have "dropWhile (\<lambda>y. \<not> isspace y) (w @ c # rest) = c # rest"
    using assms(5,6) by (simp add: dropWhile_all_append)
  ultimately show ?thesis
    using extract_flat [OF assms(1) g] assms(2) g w by (auto simp: flat_extract_def Let_def)
qed

lemma getln_next:
  assumes "inv s" and "view s = flat_good (l @ d # rest)" and "(of_char d :: int) < 128"
    and "d \<notin> set l"
  shows "\<exists>t. getln s d = (Some l, t) \<and> inv t \<and> view t = flat_good rest"
proof -
  obtain r t where g: "getln s d = (r, t)" by fastforce
  have "takeWhile (\<lambda>y. y \<noteq> d) (l @ d # rest) = l"
    using assms(4) by (subst takeWhile_append2) auto
  moreover have "dropWhile (\<lambda>y. y \<noteq> d) (l @ d # rest) = d # rest"
    using assms(4) by (subst dropWhile_all_append) auto
  ultimately show ?thesis
    using getln_flat [OF assms(1,3) g] assms(2) g by (auto simp: flat_getline_def Let_def)
qed

end

section \<open>Input that has arrived in one piece\<close>

text \<open>Everything the socket has delivered is in the get area; no operation changes that.\<close>

definition received :: "SocketStreamBuffer \<Rightarrow> bool" where
  "received b = (sk_rx (ss_socket b) = [])"

lemma received_underflow: "received b \<Longrightarrow> underflow b = (EOF, b)"
  by (simp add: received_def underflow_def recv_def)

lemma received_sgetc: "received b \<Longrightarrow> sgetc b = (r, b') \<Longrightarrow> b' = b"
  by (auto simp: sgetc_def received_underflow split: if_splits)

lemma received_sbumpc: "received b \<Longrightarrow> sbumpc b = (r, b') \<Longrightarrow> received b'"
  by (auto simp: sbumpc_def uflow_def received_underflow received_def split: if_splits)

lemma received_snextc: "received b \<Longrightarrow> snextc b = (r, b') \<Longrightarrow> received b'"
  by (auto simp: snextc_def dest: received_sbumpc received_sgetc split: if_splits prod.splits)

lemma received_skip_ws: "skip_ws c b = (c', b') \<Longrightarrow> received b \<Longrightarrow> received b'"
proof (induction c b rule: skip_ws.induct)
  case (1 c b)
  obtain c1 b1 where s: "snextc b = (c1, b1)" by fastforce
  with 1 received_snextc [OF 1(3) s] show ?case
    by (auto simp: skip_ws.simps [of c b] split: if_splits)
qed

lemma received_word_loop: "word_loop c b acc = (w, c', b') \<Longrightarrow> received b \<Longrightarrow> received b'"
proof (induction c b acc rule: word_loop.induct)
  case (1 c b acc)
  obtain c1 b1 where s: "snextc b = (c1, b1)" by fastforce
  with 1 received_snextc [OF 1(3) s] show ?case
    by (auto simp: word_loop.simps [of c b] split: if_splits)
qed

lemma received_line_loop: "line_loop d c b acc = (w, c', b') \<Longrightarrow> received b \<Longrightarrow> received b'"
proof (induction d c b acc rule: line_loop.induct)
  case (1 d c b acc)
  obtain c1 b1 where s: "snextc b = (c1, b1)" by fastforce
  with 1 received_snextc [OF 1(3) s] show ?case
    by (auto simp: line_loop.simps [of d c b] split: if_splits)
qed

text \<open>A new stream on whose socket one segment has arrived that fits into the buffer.\<close>

definition one_segment :: "SocketInputStream \<Rightarrow> bool" where
  "one_segment s =
     (received (is_buf s)
      \<or> (\<exists>seg. sk_rx (ss_socket (is_buf s)) = [seg] \<and> length seg \<le> BFSIZE
            \<and> ss_egptr (is_buf s) \<le> ss_gptr (is_buf s)))"

lemma one_segment_sgetc: "one_segment s \<Longrightarrow> sgetc (is_buf s) = (r, b) \<Longrightarrow> received b"
  by (auto simp: one_segment_def sgetc_def received_underflow)
     (auto simp: underflow_def recv_def received_def Let_def split: if_splits)

lemma istream_extract_received:
  assumes "istream_extract s = (w, t)" and "is_good s" and "one_segment s"
  shows "received (is_buf t)"
proof -
  obtain c0 b0 where 0: "sgetc (is_buf s) = (c0, b0)" by fastforce
  obtain c1 b1 where 1: "skip_ws c0 b0 = (c1, b1)" by fastforce
  obtain c2 b2 where 2: "sgetc b1 = (c2, b2)" by fastforce
  obtain u c3 b3 where 3: "word_loop c2 b2 [] = (u, c3, b3)" using prod_cases3 by blast
  have r: "received b1" using one_segment_sgetc [OF assms(3) 0] received_skip_ws [OF 1] by blast
  with received_sgetc [OF r 2] received_word_loop [OF 3] have "received b3" by simp
  with assms(1,2) 0 1 2 3 r show ?thesis by (auto simp: istream_extract_def split: if_splits)
qed

lemma istream_get_received:
  "istream_get s = (c, t) \<Longrightarrow> received (is_buf s) \<Longrightarrow> received (is_buf t)"
  by (auto simp: istream_get_def dest: received_sbumpc split: if_splits prod.splits)

lemma istream_getline_received:
  assumes "istream_getline s d = (l, t)" and "received (is_buf s)"
  shows "received (is_buf t)"
proof -
  obtain c0 b0 where 0: "sgetc (is_buf s) = (c0, b0)" by fastforce
  obtain u c1 b1 where 1: "line_loop d c0 b0 [] = (u, c1, b1)" using prod_cases3 by blast
  obtain r b2 where 2: "sbumpc b1 = (r, b2)" by fastforce
  have "received b1" using received_sgetc [OF assms(2) 0] received_line_loop [OF 1] assms(2) by simp
  with received_sbumpc [OF this 2] assms 0 1 2 show ?thesis
    by (auto simp: istream_getline_def split: if_splits)
qed

lemma received_view:
  "received (is_buf s) \<Longrightarrow> get_area (is_buf s) = fl_data (is_view s)"
  by (simp add: received_def is_view_def unread_def)

end
