(* ===== verification/Http_Request.thy ===== *)
theory Http_Request
  imports Socket_Stream
begin

text \<open>
  \<open>src/src/HttpUtils/HttpRequest.hpp\<close> and \<open>HttpRequest.cc\<close>: the request object, its
  builder, and the analyser that reads one request from a socket stream.

  A result of type \<open>'a run\<close> is \<open>None\<close> when the C++ call never returns,
  \<open>Some (Inl e)\<close> when it ends with the exception \<open>e\<close> (nothing catches it), and
  \<open>Some (Inr a)\<close> when it returns \<open>a\<close>.
\<close>

section \<open>HttpRequest and its builder\<close>

type_synonym header_t = "(string \<times> string) list"

record HttpRequest =
  rq_method :: HttpRequestMethod
  rq_uri :: string
  rq_version :: HttpVersion
  rq_header :: header_t
  rq_body :: string

definition mk_HttpRequest :: HttpRequest where
  "mk_HttpRequest =
     \<lparr>rq_method = UNKNOWN_REQUEST_METHOD, rq_uri = [], rq_version = UNKNOWN_HTTP_VERSION,
      rq_header = [], rq_body = []\<rparr>"

definition setRequestMethod :: "HttpRequestMethod \<Rightarrow> HttpRequest \<Rightarrow> HttpRequest" where
  "setRequestMethod m r = r\<lparr>rq_method := m\<rparr>"

definition setHttpVersion :: "HttpVersion \<Rightarrow> HttpRequest \<Rightarrow> HttpRequest" where
  "setHttpVersion v r = r\<lparr>rq_version := v\<rparr>"

definition setURI :: "string \<Rightarrow> HttpRequest \<Rightarrow> HttpRequest" where
  "setURI u r = r\<lparr>rq_uri := u\<rparr>"

definition setHeader :: "string \<Rightarrow> string \<Rightarrow> HttpRequest \<Rightarrow> HttpRequest" where
  "setHeader k v r = r\<lparr>rq_header := AList.update k v (rq_header r)\<rparr>"

definition delHeader :: "string \<Rightarrow> HttpRequest \<Rightarrow> HttpRequest" where
  "delHeader k r =
     (if map_of (rq_header r) k \<noteq> None then r\<lparr>rq_header := AList.delete k (rq_header r)\<rparr> else r)"

definition setBody :: "string \<Rightarrow> HttpRequest \<Rightarrow> HttpRequest" where
  "setBody b r = r\<lparr>rq_body := b\<rparr>"

text \<open>
  \<open>serialize\<close>: the range-for over the \<open>unordered_map\<close> visits its entries in an unspecified
  order, the parameter \<open>ord\<close>.
\<close>

definition serialize_request :: "(header_t \<Rightarrow> header_t) \<Rightarrow> HttpRequest \<Rightarrow> string" where
  "serialize_request ord r =
     serialize_method (rq_method r) @ '' '' @ rq_uri r @ '' ''
     @ serialize_version (rq_version r) @ [CHR 0x0A]
     @ concat (map (\<lambda>(k, v). k @ '': '' @ v @ [CHR 0x0A]) (ord (rq_header r)))
     @ [CHR 0x0A] @ rq_body r"

record HttpRequestBuilder =
  rb_obj :: HttpRequest

definition mk_HttpRequestBuilder :: HttpRequestBuilder where
  "mk_HttpRequestBuilder = \<lparr>rb_obj = mk_HttpRequest\<rparr>"

definition rb_build :: "HttpRequestBuilder \<Rightarrow> HttpRequest" where
  "rb_build b = rb_obj b"

definition rb_setRequestMethod :: "HttpRequestMethod \<Rightarrow> HttpRequestBuilder \<Rightarrow> HttpRequestBuilder"
  where "rb_setRequestMethod m b = b\<lparr>rb_obj := setRequestMethod m (rb_obj b)\<rparr>"

definition rb_setHttpVersion :: "HttpVersion \<Rightarrow> HttpRequestBuilder \<Rightarrow> HttpRequestBuilder" where
  "rb_setHttpVersion v b = b\<lparr>rb_obj := setHttpVersion v (rb_obj b)\<rparr>"

definition rb_setURI :: "string \<Rightarrow> HttpRequestBuilder \<Rightarrow> HttpRequestBuilder" where
  "rb_setURI u b = b\<lparr>rb_obj := setURI u (rb_obj b)\<rparr>"

definition rb_setHeader :: "string \<Rightarrow> string \<Rightarrow> HttpRequestBuilder \<Rightarrow> HttpRequestBuilder" where
  "rb_setHeader k v b = b\<lparr>rb_obj := setHeader k v (rb_obj b)\<rparr>"

definition rb_delHeader :: "string \<Rightarrow> HttpRequestBuilder \<Rightarrow> HttpRequestBuilder" where
  "rb_delHeader k b = b\<lparr>rb_obj := delHeader k (rb_obj b)\<rparr>"

definition rb_setBody :: "string \<Rightarrow> HttpRequestBuilder \<Rightarrow> HttpRequestBuilder" where
  "rb_setBody x b = b\<lparr>rb_obj := setBody x (rb_obj b)\<rparr>"

section \<open>HttpRequestAnalyser\<close>

definition requestBodyLength :: "HttpRequest \<Rightarrow> cpp_exception + nat" where
  "requestBodyLength r =
     (case map_of (rq_header r) ''Content-Length'' of None \<Rightarrow> Inr 0 | Some v \<Rightarrow> stoul v)"

definition skipTerminateCH :: "SocketInputStream \<Rightarrow> server_err_t \<times> SocketInputStream" where
  "skipTerminateCH s =
     (case istream_get s of
        (c1, s1) \<Rightarrow>
          if c1 \<noteq> to_int_type (CHR 0x0D) \<or> is_fail s1 then (PARSE_TERMINATE_CH_FAILED, s1)
          else (case istream_get s1 of
            (c2, s2) \<Rightarrow>
              if c2 \<noteq> to_int_type (CHR 0x0A) \<or> is_fail s2 then (PARSE_TERMINATE_CH_FAILED, s2)
              else (SERVER_OK, s2)))"

text \<open>A string variable keeps its old value when an extraction does not write it.\<close>

definition extract_into :: "string \<Rightarrow> SocketInputStream \<Rightarrow> string \<times> SocketInputStream" where
  "extract_into old s =
     (case istream_extract s of (w, s') \<Rightarrow> (case w of None \<Rightarrow> old | Some x \<Rightarrow> x, s'))"

definition parseLine ::
  "SocketInputStream \<Rightarrow> HttpRequestBuilder \<Rightarrow> server_err_t \<times> SocketInputStream \<times> HttpRequestBuilder"
where
  "parseLine s b =
     (case extract_into [] s of
        (meth, s1) \<Rightarrow> if is_fail s1 then (PARSE_REQ_METHOD_FAILED, s1, b)
        else (case extract_into [] s1 of
          (uri, s2) \<Rightarrow> if is_fail s2 then (PARSE_REQ_URI_FAILED, s2, b)
          else (case extract_into [] s2 of
            (version, s3) \<Rightarrow> if is_fail s3 then (PARSE_REQ_VERSION_FAILED, s3, b)
            else (case skipTerminateCH s3 of
              (e, s4) \<Rightarrow>
                (e, s4, rb_setHttpVersion (toHttpVersion version)
                          (rb_setURI uri (rb_setRequestMethod (toRequestMethod meth) b)))))))"

text \<open>\<open>std::string\<close>: \<open>find\<close>, and \<open>substr(pos)\<close>, which throws past the end.\<close>

fun str_find :: "string \<Rightarrow> char \<Rightarrow> nat option" where
  "str_find [] c = None"
| "str_find (x # xs) c = (if x = c then Some 0 else map_option Suc (str_find xs c))"

definition str_substr_from :: "string \<Rightarrow> nat \<Rightarrow> cpp_exception + string" where
  "str_substr_from xs pos = (if pos \<le> length xs then Inr (drop pos xs) else Inl out_of_range)"

function skip_blanks :: "string \<Rightarrow> nat \<Rightarrow> nat" where
  "skip_blanks cur tok =
     (if tok < length cur \<and> cur ! tok = CHR '' '' then skip_blanks cur (Suc tok) else tok)"
  by pat_completeness auto
termination
  by (relation "measure (\<lambda>(cur, tok). length cur - tok)") auto

declare skip_blanks.simps [simp del]

text \<open>One header line: what the body of the loop does once the line is read.\<close>

datatype header_item = EndOfHead | BadHeader | HeaderField string string

definition parse_header_line :: "string \<Rightarrow> cpp_exception + header_item" where
  "parse_header_line cur =
     (if length cur = 1 then Inr EndOfHead
      else case str_find cur (CHR '':'') of
             None \<Rightarrow> Inr BadHeader
           | Some tok \<Rightarrow>
               (let cur' = butlast cur; key = take tok cur'; tok' = skip_blanks cur' (Suc tok)
                in case str_substr_from cur' tok' of
                     Inl e \<Rightarrow> Inl e
                   | Inr val \<Rightarrow> Inr (HeaderField key val)))"

text \<open>
  The loop of \<open>parseHead\<close>. Its condition \<open>while (_input)\<close> holds whenever it is reached,
  since a failed \<open>getline\<close> has already returned.
\<close>

function parseHead ::
  "SocketInputStream \<Rightarrow> HttpRequestBuilder \<Rightarrow>
     cpp_exception + (server_err_t \<times> SocketInputStream \<times> HttpRequestBuilder)" where
  "parseHead s b =
     (case istream_getline s (CHR 0x0A) of
        (l, s1) \<Rightarrow>
          if is_fail s1 then Inr (PARSE_REQ_HEADER_FAILED, s1, b)
          else (case parse_header_line (case l of None \<Rightarrow> [] | Some x \<Rightarrow> x) of
                  Inl e \<Rightarrow> Inl e
                | Inr EndOfHead \<Rightarrow> Inr (SERVER_OK, s1, b)
                | Inr BadHeader \<Rightarrow> Inr (INVALID_REQ_HEADER_FORMAT, s1, b)
                | Inr (HeaderField k v) \<Rightarrow>
                    if is_fail s1 then Inr (SERVER_OK, s1, rb_setHeader k v b)
                    else parseHead s1 (rb_setHeader k v b)))"
  by pat_completeness auto
termination
  by (relation "measure (\<lambda>(s, b). unread_len (is_buf s))")
     (auto dest: istream_getline_consumes(1) dest!: sym [where s = "(_, _)"])

declare parseHead.simps [simp del]

definition RQ_BFSIZE :: nat where
  "RQ_BFSIZE = 512"

partial_function (option) parse_body_loop ::
  "nat \<Rightarrow> string \<Rightarrow> SocketInputStream \<Rightarrow> (server_err_t \<times> string \<times> SocketInputStream) option"
where
  "parse_body_loop rest body s =
     (if rest = 0 then Some (SERVER_OK, body, s)
      else (case istream_readsome s (if rest < RQ_BFSIZE then rest else RQ_BFSIZE) of
              (xs, s') \<Rightarrow>
                if is_fail s' then Some (PARSE_REQ_BODY_FAILED, body @ xs, s')
                else parse_body_loop (rest - length xs) (body @ xs) s'))"

definition parseBody ::
  "SocketInputStream \<Rightarrow> HttpRequestBuilder \<Rightarrow>
     (server_err_t \<times> SocketInputStream \<times> HttpRequestBuilder) run" where
  "parseBody s b =
     (case requestBodyLength (rb_build b) of
        Inl e \<Rightarrow> Some (Inl e)
      | Inr bodyLen \<Rightarrow>
          if bodyLen = 0 then Some (Inr (SERVER_OK, s, b))
          else (case parse_body_loop bodyLen [] s of
                  None \<Rightarrow> None
                | Some (e, body, s') \<Rightarrow>
                    Some (Inr (e, s', if e = SERVER_OK then rb_setBody body b else b))))"

definition getOneHttpRequest ::
  "SocketInputStream \<Rightarrow> (HttpRequest \<times> server_err_t \<times> SocketInputStream) run" where
  "getOneHttpRequest s =
     (case parseLine s mk_HttpRequestBuilder of
        (e1, s1, b1) \<Rightarrow>
          if e1 \<noteq> SERVER_OK then Some (Inr (rb_build b1, e1, s1))
          else (case parseHead s1 b1 of
                  Inl x \<Rightarrow> Some (Inl x)
                | Inr (e2, s2, b2) \<Rightarrow>
                    if e2 \<noteq> SERVER_OK then Some (Inr (rb_build b2, e2, s2))
                    else (case parseBody s2 b2 of
                            None \<Rightarrow> None
                          | Some (Inl x) \<Rightarrow> Some (Inl x)
                          | Some (Inr (e3, s3, b3)) \<Rightarrow> Some (Inr (rb_build b3, e3, s3)))))"

section \<open>Header lines\<close>

lemma skip_blanks_eq: "skip_blanks cur tok = tok + length (takeWhile (\<lambda>c. c = CHR '' '') (drop tok cur))"
proof (induction cur tok rule: skip_blanks.induct)
  case (1 cur tok)
  show ?case
  proof (cases "tok < length cur")
    case True
    then have "drop tok cur = cur ! tok # drop (Suc tok) cur" by (simp add: Cons_nth_drop_Suc)
    with 1 True show ?thesis by (simp add: skip_blanks.simps [of cur tok])
  next
    case False
    then show ?thesis by (simp add: skip_blanks.simps [of cur tok])
  qed
qed

lemma str_find_append: "c \<notin> set xs \<Longrightarrow> str_find (xs @ c # ys) c = Some (length xs)"
  by (induction xs) auto

lemma str_find_None: "str_find xs c = None \<longleftrightarrow> c \<notin> set xs"
  by (induction xs) auto

lemma str_find_SomeD:
  "str_find xs c = Some n \<Longrightarrow> n < length xs \<and> c \<notin> set (take n xs) \<and> xs ! n = c"
  by (induction xs arbitrary: n) (auto split: if_splits)

text \<open>A field line as a client sends it.\<close>

lemma parse_header_line_field:
  assumes "CHR '':'' \<notin> set k" and "v = [] \<or> hd v \<noteq> CHR '' ''"
  shows "parse_header_line (k @ '': '' @ v @ [CHR 0x0D]) = Inr (HeaderField k v)"
proof -
  let ?cur = "k @ '': '' @ v @ [CHR 0x0D]"
  have "str_find ?cur (CHR '':'') = Some (length k)"
    using str_find_append [OF assms(1), of "CHR '' '' # v @ [CHR 0x0D]"] by simp
  moreover have "butlast ?cur = k @ '': '' @ v" by (simp add: butlast_append)
  moreover have "skip_blanks (k @ '': '' @ v) (Suc (length k)) = length k + 2"
    using assms(2) by (cases v) (auto simp: skip_blanks_eq)
  ultimately show ?thesis
    by (simp add: parse_header_line_def str_substr_from_def Let_def)
qed

lemma parse_header_line_end: "length cur = 1 \<Longrightarrow> parse_header_line cur = Inr EndOfHead"
  by (simp add: parse_header_line_def)

text \<open>\<open>substr\<close> throws exactly when the line ends with its first colon.\<close>

lemma parse_header_line_throws_iff:
  "(\<exists>e. parse_header_line cur = Inl e) \<longleftrightarrow>
     length cur \<noteq> 1 \<and> str_find cur (CHR '':'') = Some (length cur - 1)"
proof (cases "str_find cur (CHR '':'')")
  case None
  then show ?thesis by (simp add: parse_header_line_def)
next
  case (Some tok)
  then have tok: "tok < length cur" by (rule str_find_SomeD [THEN conjunct1])
  let ?n = "length (takeWhile (\<lambda>c. c = CHR '' '') (drop (Suc tok) (butlast cur)))"
  have "?n \<le> length cur - 1 - Suc tok"
    using length_takeWhile_le [of "\<lambda>c. c = CHR '' ''" "drop (Suc tok) (butlast cur)"] by simp
  then have "length (butlast cur) < skip_blanks (butlast cur) (Suc tok) \<longleftrightarrow> tok = length cur - 1"
    using tok by (auto simp: skip_blanks_eq)
  with Some show ?thesis
    by (auto simp: parse_header_line_def str_substr_from_def Let_def not_le split: sum.splits)
qed

section \<open>What the analyser reads does not depend on the segmentation\<close>

lemma is_fail_view: "is_fail s = fl_fail (is_view s)"
  by (simp add: is_view_def)

lemma same_is_fail: "sis.same s s' \<Longrightarrow> is_fail s = is_fail s'"
  by (simp add: sis.same_def is_fail_view)

lemma same_extract_into:
  "sis.same s s' \<Longrightarrow> extract_into old s = (w, t) \<Longrightarrow> extract_into old s' = (w', t') \<Longrightarrow>
     w = w' \<and> sis.same t t' \<and> is_fail t = is_fail t'"
  using sis.same_extract [of s s'] same_is_fail [of t t']
  by (auto simp: extract_into_def split: prod.splits)

lemma same_skipTerminateCH:
  assumes "sis.same s s'" and "skipTerminateCH s = (e, t)" and "skipTerminateCH s' = (e', t')"
  shows "e = e' \<and> sis.same t t'"
proof -
  obtain c1 s1 where g: "istream_get s = (c1, s1)" by fastforce
  obtain c1' s1' where g': "istream_get s' = (c1', s1')" by fastforce
  from sis.same_get [OF assms(1) g g'] have 1: "c1 = c1'" "sis.same s1 s1'" by auto
  obtain c2 s2 where h: "istream_get s1 = (c2, s2)" by fastforce
  obtain c2' s2' where h': "istream_get s1' = (c2', s2')" by fastforce
  from sis.same_get [OF 1(2) h h'] have 2: "c2 = c2'" "sis.same s2 s2'" by auto
  from 1 2 assms g g' h h' same_is_fail [OF 1(2)] same_is_fail [OF 2(2)] show ?thesis
    by (auto simp: skipTerminateCH_def split: if_splits)
qed

lemma same_parseLine:
  assumes "sis.same s s'" and "parseLine s b = (e, t, b1)" and "parseLine s' b = (e', t', b1')"
  shows "e = e' \<and> sis.same t t' \<and> b1 = b1'"
proof -
  obtain w1 s1 where x1: "extract_into [] s = (w1, s1)" by fastforce
  obtain w1' s1' where x1': "extract_into [] s' = (w1', s1')" by fastforce
  note 1 = same_extract_into [OF assms(1) x1 x1']
  obtain w2 s2 where x2: "extract_into [] s1 = (w2, s2)" by fastforce
  obtain w2' s2' where x2': "extract_into [] s1' = (w2', s2')" by fastforce
  from same_extract_into [OF _ x2 x2'] 1 have 2: "w2 = w2'" "sis.same s2 s2'" "is_fail s2 = is_fail s2'"
    by auto
  obtain w3 s3 where x3: "extract_into [] s2 = (w3, s3)" by fastforce
  obtain w3' s3' where x3': "extract_into [] s2' = (w3', s3')" by fastforce
  note 3 = same_extract_into [OF 2(2) x3 x3']
  obtain e4 s4 where x4: "skipTerminateCH s3 = (e4, s4)" by fastforce
  obtain e4' s4' where x4': "skipTerminateCH s3' = (e4', s4')" by fastforce
  from same_skipTerminateCH [OF _ x4 x4'] 3 have 4: "e4 = e4'" "sis.same s4 s4'" by auto
  from 1 2 3 4 x1 x1' x2 x2' x3 x3' x4 x4' assms(2,3) show ?thesis
    by (auto simp: parseLine_def split: if_splits)
qed

lemma same_parseHead:
  assumes "sis.same s s'"
  shows "case (parseHead s b, parseHead s' b) of
      (Inr (e, t, c), Inr (e', t', c')) \<Rightarrow> e = e' \<and> sis.same t t' \<and> c = c'
    | (Inl x, Inl y) \<Rightarrow> x = y
    | _ \<Rightarrow> False"
  using assms
proof (induction s b arbitrary: s' rule: parseHead.induct)
  case (1 s b)
  obtain l s1 where g: "istream_getline s (CHR 0x0A) = (l, s1)" by fastforce
  obtain l' s1' where g': "istream_getline s' (CHR 0x0A) = (l', s1')" by fastforce
  have lt: "(of_char (CHR 0x0A) :: int) < 128" by simp
  from sis.same_getln [OF 1(2) lt g g'] have 2: "l = l'" "sis.same s1 s1'" by auto
  note 3 = same_is_fail [OF 2(2)]
  show ?case
  proof (cases "is_fail s1")
    case True
    with g g' 2 3 show ?thesis by (simp add: parseHead.simps [of s] parseHead.simps [of s'])
  next
    case False
    let ?h = "parse_header_line (case l of None \<Rightarrow> [] | Some x \<Rightarrow> x)"
    show ?thesis
    proof (cases "\<exists>k v. ?h = Inr (HeaderField k v)")
      case True
      then obtain k v where h: "?h = Inr (HeaderField k v)" by blast
      have "parseHead s b = parseHead s1 (rb_setHeader k v b)"
        and "parseHead s' b = parseHead s1' (rb_setHeader k v b)"
        using g g' 2 3 False h by (simp_all add: parseHead.simps [of s] parseHead.simps [of s'])
      with "1.IH" [OF g [symmetric] False h refl False 2(2)] False show ?thesis by simp
    next
      case no: False
      with g g' 2 3 False show ?thesis
        by (auto simp: parseHead.simps [of s] parseHead.simps [of s']
            split: sum.splits header_item.splits)
    qed
  qed
qed

section \<open>Requests on the wire\<close>

text \<open>
  A request as RFC 7230 writes it: the lines end with carriage return and line feed, one blank
  separates the parts of the request line and follows the colon of a field.
\<close>

definition CRLF :: string where
  "CRLF = [CHR 0x0D, CHR 0x0A]"

definition wire_line :: "HttpRequestMethod \<Rightarrow> string \<Rightarrow> HttpVersion \<Rightarrow> string" where
  "wire_line m uri v = serialize_method m @ '' '' @ uri @ '' '' @ serialize_version v @ CRLF"

definition wire_head :: "header_t \<Rightarrow> string" where
  "wire_head hs = concat (map (\<lambda>(k, v). k @ '': '' @ v @ CRLF) hs) @ CRLF"

definition wire_uri :: "string \<Rightarrow> bool" where
  "wire_uri u = (u \<noteq> [] \<and> list_all (\<lambda>c. \<not> isspace c) u)"

definition wire_field :: "string \<times> string \<Rightarrow> bool" where
  "wire_field kv =
     (CHR '':'' \<notin> set (fst kv) \<and> CHR 0x0A \<notin> set (fst kv) \<and> CHR 0x0A \<notin> set (snd kv)
      \<and> (snd kv = [] \<or> hd (snd kv) \<noteq> CHR '' ''))"

lemma view_not_fail: "is_view s = flat_good xs \<Longrightarrow> \<not> is_fail s"
  by (simp add: is_view_def)

lemma extract_into_next:
  assumes "is_clean s" and "is_view s = flat_good (sp @ w @ c # rest)"
    and "\<And>x. x \<in> set sp \<Longrightarrow> isspace x" and "w \<noteq> []" and "\<And>x. x \<in> set w \<Longrightarrow> \<not> isspace x"
    and "isspace c"
  shows "\<exists>t. extract_into old s = (w, t) \<and> is_clean t \<and> is_view t = flat_good (c # rest)"
  using sis.extr_next [OF assms] by (auto simp: extract_into_def)

lemma skipTerminateCH_CRLF:
  assumes "is_clean s" and "is_view s = flat_good (CRLF @ rest)"
  shows "\<exists>t. skipTerminateCH s = (SERVER_OK, t) \<and> is_clean t \<and> is_view t = flat_good rest"
proof -
  from sis.get_char [of s "CHR 0x0D" "CHR 0x0A # rest"] assms obtain s1 where
    1: "istream_get s = (to_int_type (CHR 0x0D), s1)" "is_clean s1"
      "is_view s1 = flat_good (CHR 0x0A # rest)" by (auto simp: CRLF_def)
  from sis.get_char [OF 1(2,3)] obtain s2 where
    2: "istream_get s1 = (to_int_type (CHR 0x0A), s2)" "is_clean s2" "is_view s2 = flat_good rest"
    by auto
  from 1 2 view_not_fail [OF 1(3)] view_not_fail [OF 2(3)] show ?thesis
    by (simp add: skipTerminateCH_def)
qed

lemma parseLine_wire:
  assumes "is_clean s" and "is_view s = flat_good (wire_line m uri v @ rest)" and "wire_uri uri"
    and "m \<noteq> UNKNOWN_REQUEST_METHOD" and "v \<noteq> UNKNOWN_HTTP_VERSION"
  shows "\<exists>t. parseLine s b =
      (SERVER_OK, t, rb_setHttpVersion v (rb_setURI uri (rb_setRequestMethod m b)))
    \<and> is_clean t \<and> is_view t = flat_good rest"
proof -
  let ?r2 = "serialize_version v @ CRLF @ rest"
  from extract_into_next [of s "[]" "serialize_method m" "CHR '' ''" "uri @ '' '' @ ?r2" "[]"] assms(1,2)
  obtain s1 where 1: "extract_into [] s = (serialize_method m, s1)" "is_clean s1"
      "is_view s1 = flat_good (CHR '' '' # uri @ '' '' @ ?r2)"
    by (auto simp: wire_line_def serialize_no_space isspace_code_points)
  from extract_into_next [of s1 "'' ''" uri "CHR '' ''" ?r2 "[]"] 1(2,3) assms(3)
  obtain s2 where 2: "extract_into [] s1 = (uri, s2)" "is_clean s2"
      "is_view s2 = flat_good (CHR '' '' # ?r2)"
    by (auto simp: wire_uri_def list_all_iff isspace_code_points)
  from extract_into_next [of s2 "'' ''" "serialize_version v" "CHR 0x0D" "CHR 0x0A # rest" "[]"] 2(2,3)
  obtain s3 where 3: "extract_into [] s2 = (serialize_version v, s3)" "is_clean s3"
      "is_view s3 = flat_good (CRLF @ rest)"
    by (auto simp: CRLF_def serialize_no_space isspace_code_points)
  from skipTerminateCH_CRLF [OF 3(2,3)] obtain t where
    "skipTerminateCH s3 = (SERVER_OK, t)" "is_clean t" "is_view t = flat_good rest" by auto
  with 1 2 3 assms(4,5) show ?thesis
    by (simp add: parseLine_def view_not_fail toRequestMethod_serialize toHttpVersion_serialize)
qed

lemma parseHead_wire:
  "is_clean s \<Longrightarrow> is_view s = flat_good (wire_head hs @ rest) \<Longrightarrow> list_all wire_field hs \<Longrightarrow>
     \<exists>t. parseHead s b = Inr (SERVER_OK, t, foldl (\<lambda>b (k, v). rb_setHeader k v b) b hs)
       \<and> is_clean t \<and> is_view t = flat_good rest"
proof (induction hs arbitrary: s b)
  case Nil
  from sis.getln_next [of s "[CHR 0x0D]" "CHR 0x0A" rest] Nil.prems(1,2) obtain t where
    "istream_getline s (CHR 0x0A) = (Some [CHR 0x0D], t)" "is_clean t" "is_view t = flat_good rest"
    by (auto simp: wire_head_def CRLF_def)
  then show ?case
    by (simp add: parseHead.simps [of s] view_not_fail parse_header_line_end)
next
  case (Cons h hs)
  obtain k v where h: "h = (k, v)" by fastforce
  with Cons.prems(3) have kv: "CHR '':'' \<notin> set k" "CHR 0x0A \<notin> set k" "CHR 0x0A \<notin> set v"
    "v = [] \<or> hd v \<noteq> CHR '' ''" by (simp_all add: wire_field_def)
  let ?l = "k @ '': '' @ v @ [CHR 0x0D]"
  have "is_view s = flat_good (?l @ CHR 0x0A # wire_head hs @ rest)"
    using Cons.prems(2) by (simp add: wire_head_def CRLF_def h)
  moreover have "CHR 0x0A \<notin> set ?l" using kv by simp
  ultimately obtain s1 where 1: "istream_getline s (CHR 0x0A) = (Some ?l, s1)" "is_clean s1"
      "is_view s1 = flat_good (wire_head hs @ rest)"
    using sis.getln_next [of s ?l "CHR 0x0A" "wire_head hs @ rest"] Cons.prems(1) by auto
  have "parseHead s b = parseHead s1 (rb_setHeader k v b)"
    using 1 parse_header_line_field [OF kv(1,4)]
    by (simp add: parseHead.simps [of s] view_not_fail)
  with Cons.IH [OF 1(2,3)] Cons.prems(3) h show ?case by simp
qed

lemma foldl_setHeader:
  "distinct (map fst (rq_header (rb_obj b) @ hs)) \<Longrightarrow>
     foldl (\<lambda>b (k, v). rb_setHeader k v b) b hs
     = b\<lparr>rb_obj := (rb_obj b)\<lparr>rq_header := rq_header (rb_obj b) @ hs\<rparr>\<rparr>"
proof (induction hs arbitrary: b)
  case Nil
  then show ?case by simp
next
  case (Cons h hs)
  obtain k v where h: "h = (k, v)" by fastforce
  have "rq_header (rb_obj (rb_setHeader k v b)) = rq_header (rb_obj b) @ [(k, v)]"
    using Cons.prems h by (auto simp: rb_setHeader_def setHeader_def intro!: update_fresh)
  with Cons.IH [of "rb_setHeader k v b"] Cons.prems h show ?case
    by (simp add: rb_setHeader_def setHeader_def)
qed

section \<open>The body loop\<close>

lemma readsome_not_fail: "is_good s \<Longrightarrow> istream_readsome s n = (xs, t) \<Longrightarrow> \<not> is_fail t"
  using istream_readsome_good(3) [of s n xs t] by (simp add: is_good_def)

lemma parse_body_loop_returns:
  "is_good s \<Longrightarrow> rest \<le> length (get_area (is_buf s)) \<Longrightarrow>
     \<exists>t. parse_body_loop rest body s = Some (SERVER_OK, body @ take rest (get_area (is_buf s)), t)
       \<and> is_good t \<and> unread (is_buf s) = take rest (get_area (is_buf s)) @ unread (is_buf t)"
proof (induction rest arbitrary: body s rule: less_induct)
  case (less rest)
  show ?case
  proof (cases "rest = 0")
    case True
    with less.prems show ?thesis by (simp add: parse_body_loop.simps)
  next
    case False
    let ?n = "if rest < RQ_BFSIZE then rest else RQ_BFSIZE" and ?g = "get_area (is_buf s)"
    obtain xs t where r: "istream_readsome s ?n = (xs, t)" by fastforce
    note 1 = istream_readsome_good [OF less.prems(1) r]
    have n: "0 < ?n" "?n \<le> rest" using False by (auto simp: RQ_BFSIZE_def)
    with less.prems(2) have len: "length xs = ?n" by (simp add: 1(1))
    have "rest - ?n < rest" "rest - ?n \<le> length (get_area (is_buf t))"
      using n less.prems(2) by (simp_all add: 1(2))
    from less.IH [OF this(1) 1(3) this(2), of "body @ xs"] obtain u where
      u: "parse_body_loop (rest - ?n) (body @ xs) t
          = Some (SERVER_OK, (body @ xs) @ take (rest - ?n) (get_area (is_buf t)), u)"
        "is_good u" "unread (is_buf t) = take (rest - ?n) (get_area (is_buf t)) @ unread (is_buf u)"
      by blast
    have "xs @ take (rest - ?n) (get_area (is_buf t)) = take rest ?g"
      using n by (simp add: 1(1,2) flip: take_add)
    moreover have "parse_body_loop rest body s = parse_body_loop (rest - ?n) (body @ xs) t"
      using False r len readsome_not_fail [OF less.prems(1) r]
      by (simp add: parse_body_loop.simps [of rest])
    ultimately show ?thesis using u 1(4) by (metis append_assoc)
  qed
qed

lemma parse_body_loop_bound:
  assumes "parse_body_loop rest body s = Some res"
  shows "is_good s \<longrightarrow> rest \<le> length (get_area (is_buf s))"
proof (rule parse_body_loop.raw_induct
    [where P = "\<lambda>rest body s res. is_good s \<longrightarrow> rest \<le> length (get_area (is_buf s))", OF _ assms])
  fix f rest body s res
  assume IH: "\<And>rest body s res. f rest body s = Some res \<Longrightarrow>
        is_good s \<longrightarrow> rest \<le> length (get_area (is_buf s))"
    and eq: "(if rest = 0 then Some (SERVER_OK, body, s)
      else (case istream_readsome s (if rest < RQ_BFSIZE then rest else RQ_BFSIZE) of
              (xs, s') \<Rightarrow>
                if is_fail s' then Some (PARSE_REQ_BODY_FAILED, body @ xs, s')
                else f (rest - length xs) (body @ xs) s')) = Some res"
  show "is_good s \<longrightarrow> rest \<le> length (get_area (is_buf s))"
  proof (intro impI)
    assume good: "is_good s"
    let ?n = "if rest < RQ_BFSIZE then rest else RQ_BFSIZE"
    obtain xs t where r: "istream_readsome s ?n = (xs, t)" by fastforce
    note 1 = istream_readsome_good [OF good r]
    show "rest \<le> length (get_area (is_buf s))"
    proof (cases "rest = 0")
      case False
      with eq r readsome_not_fail [OF good r] have "f (rest - length xs) (body @ xs) t = Some res"
        by simp
      from IH [OF this] 1 show ?thesis by auto
    qed simp
  qed
qed

text \<open>
  (C33) A request body is read completely exactly when it is already in the get area of the
  stream. Otherwise \<open>parseBody\<close> never returns: \<open>readsome\<close> gives zero bytes without
  refilling the buffer and without setting any state bit, and the loop spins.
\<close>

theorem parseBody_returns_iff_buffered:
  assumes "is_good s" and "requestBodyLength (rb_build b) = Inr n" and "0 < n"
  shows "if n \<le> length (get_area (is_buf s))
         then \<exists>t. parseBody s b = Some (Inr (SERVER_OK, t, rb_setBody (take n (get_area (is_buf s))) b))
         else parseBody s b = None"
proof (cases "n \<le> length (get_area (is_buf s))")
  case True
  from parse_body_loop_returns [OF assms(1) True, of "[]"] True assms show ?thesis
    by (auto simp: parseBody_def)
next
  case False
  then have "parse_body_loop n [] s = None"
    using parse_body_loop_bound [of n "[]" s] assms(1) by (cases "parse_body_loop n [] s") auto
  with False assms show ?thesis by (simp add: parseBody_def)
qed

theorem parseBody_returns_iff_buffered_witness:
  "parseBody (mk_SocketInputStream (mk_SocketStreamBuffer (\<lambda>_. CHR 0x00)
       \<lparr>sk_rx = [''hello''], sk_tx = [], sk_snd = (\<lambda>_. 0), sk_nsnd = 0\<rparr>))
     (rb_setHeader ''Content-Length'' ''5'' mk_HttpRequestBuilder) = None"
proof -
  let ?s = "mk_SocketInputStream (mk_SocketStreamBuffer (\<lambda>_. CHR 0x00)
       \<lparr>sk_rx = [''hello''], sk_tx = [], sk_snd = (\<lambda>_. 0), sk_nsnd = 0\<rparr>)"
  let ?b = "rb_setHeader ''Content-Length'' ''5'' mk_HttpRequestBuilder"
  have "requestBodyLength (rb_build ?b) = Inr 5"
    by (simp add: requestBodyLength_def rb_build_def rb_setHeader_def setHeader_def
        mk_HttpRequestBuilder_def mk_HttpRequest_def stoul_def Let_def isspace_def isdigit_def
        digits_val_def digit_val_def)
  moreover have "is_good ?s" by (simp add: mk_SocketInputStream_def is_good_def)
  moreover have "get_area (is_buf ?s) = []"
    by (simp add: mk_SocketInputStream_def mk_SocketStreamBuffer_def)
  ultimately show ?thesis using parseBody_returns_iff_buffered [of ?s ?b 5] by simp
qed

section \<open>The whole request\<close>

lemma rb_build_simp [simp]: "rb_build b = rb_obj b"
  by (simp add: rb_build_def)

lemma requestBodyLength_absent:
  "map_of (rq_header r) ''Content-Length'' = None \<Longrightarrow> requestBodyLength r = Inr 0"
  by (simp add: requestBodyLength_def)

lemma parseBody_absent:
  "map_of (rq_header (rb_obj b)) ''Content-Length'' = None \<Longrightarrow>
     parseBody s b = Some (Inr (SERVER_OK, s, b))"
  by (simp add: parseBody_def requestBodyLength_absent)

lemma parseBody_header:
  "parseBody s b = Some (Inr (e, t, b')) \<Longrightarrow> rq_header (rb_obj b') = rq_header (rb_obj b)"
  by (auto simp: parseBody_def rb_setBody_def setBody_def split: sum.splits if_splits option.splits)

lemma getOneHttpRequest_wire_head:
  assumes "is_clean s"
    and "is_view s = flat_good (wire_line m uri v @ wire_head hs @ rest)"
    and "wire_uri uri" and "m \<noteq> UNKNOWN_REQUEST_METHOD" and "v \<noteq> UNKNOWN_HTTP_VERSION"
    and "list_all wire_field hs" and "distinct (map fst hs)"
  obtains t b where "rb_obj b =
      \<lparr>rq_method = m, rq_uri = uri, rq_version = v, rq_header = hs, rq_body = []\<rparr>"
    and "is_clean t" and "is_view t = flat_good rest"
    and "getOneHttpRequest s =
      (case parseBody t b of
         None \<Rightarrow> None
       | Some (Inl x) \<Rightarrow> Some (Inl x)
       | Some (Inr (e3, s3, b3)) \<Rightarrow> Some (Inr (rb_obj b3, e3, s3)))"
proof -
  let ?b1 = "rb_setHttpVersion v (rb_setURI uri (rb_setRequestMethod m mk_HttpRequestBuilder))"
  from parseLine_wire [OF assms(1,2,3,4,5), of mk_HttpRequestBuilder] obtain s1 where
    1: "parseLine s mk_HttpRequestBuilder = (SERVER_OK, s1, ?b1)" "is_clean s1"
      "is_view s1 = flat_good (wire_head hs @ rest)" by auto
  have b1: "rb_obj ?b1 = \<lparr>rq_method = m, rq_uri = uri, rq_version = v, rq_header = [], rq_body = []\<rparr>"
    by (simp add: rb_setHttpVersion_def rb_setURI_def rb_setRequestMethod_def setHttpVersion_def
        setURI_def setRequestMethod_def mk_HttpRequestBuilder_def mk_HttpRequest_def)
  let ?b2 = "foldl (\<lambda>b (k, v). rb_setHeader k v b) ?b1 hs"
  from parseHead_wire [OF 1(2,3) assms(6), of ?b1] obtain t where
    2: "parseHead s1 ?b1 = Inr (SERVER_OK, t, ?b2)" "is_clean t" "is_view t = flat_good rest" by auto
  have b2: "rb_obj ?b2 = \<lparr>rq_method = m, rq_uri = uri, rq_version = v, rq_header = hs, rq_body = []\<rparr>"
    using foldl_setHeader [of ?b1 hs] assms(7) b1 by simp
  show thesis
    by (rule that [OF b2 2(2,3)])
       (simp add: getOneHttpRequest_def 1 2 split: option.split sum.split)
qed

lemma getOneHttpRequest_reads:
  assumes "is_clean s"
    and "is_view s = flat_good (wire_line m uri v @ wire_head hs @ rest)"
    and "wire_uri uri" and "m \<noteq> UNKNOWN_REQUEST_METHOD" and "v \<noteq> UNKNOWN_HTTP_VERSION"
    and "list_all wire_field hs" and "distinct (map fst hs)"
    and "''Content-Length'' \<notin> set (map fst hs)"
  shows "\<exists>t. getOneHttpRequest s = Some (Inr
      (\<lparr>rq_method = m, rq_uri = uri, rq_version = v, rq_header = hs, rq_body = []\<rparr>, SERVER_OK, t))
    \<and> is_clean t \<and> is_view t = flat_good rest"
proof -
  from getOneHttpRequest_wire_head [OF assms(1-7)] obtain t b where
    b: "rb_obj b = \<lparr>rq_method = m, rq_uri = uri, rq_version = v, rq_header = hs, rq_body = []\<rparr>"
    and t: "is_clean t" "is_view t = flat_good rest"
    and g: "getOneHttpRequest s =
      (case parseBody t b of
         None \<Rightarrow> None
       | Some (Inl x) \<Rightarrow> Some (Inl x)
       | Some (Inr (e3, s3, b3)) \<Rightarrow> Some (Inr (rb_obj b3, e3, s3)))" by blast
  have "parseBody t b = Some (Inr (SERVER_OK, t, b))"
    using assms(8) b by (intro parseBody_absent) (auto simp: map_of_eq_None_iff)
  with b t g show ?thesis by simp
qed

text \<open>
  (C11) What a client sends is what the analyser builds: a well-formed request without a body,
  cut into segments in any way, is parsed into its method, URI, version and fields in order,
  and exactly its bytes are consumed.
\<close>

theorem getOneHttpRequest_wire:
  assumes "is_clean s"
    and "is_view s = flat_good (wire_line m uri v @ wire_head hs @ rest)"
    and "wire_uri uri" and "m \<noteq> UNKNOWN_REQUEST_METHOD" and "v \<noteq> UNKNOWN_HTTP_VERSION"
    and "list_all wire_field hs" and "distinct (map fst hs)"
    and "''Content-Length'' \<notin> set (map fst hs)"
  shows "\<exists>t. getOneHttpRequest s = Some (Inr
      (\<lparr>rq_method = m, rq_uri = uri, rq_version = v, rq_header = hs, rq_body = []\<rparr>, SERVER_OK, t))
    \<and> is_clean t \<and> is_view t = flat_good rest"
  by (rule getOneHttpRequest_reads [OF assms])

theorem getOneHttpRequest_wire_witness:
  "\<exists>t. getOneHttpRequest (mk_SocketInputStream (mk_SocketStreamBuffer (\<lambda>_. CHR 0x00)
       \<lparr>sk_rx = [''GET /hel'', ''lo HTTP/1.1'' @ CRLF @ ''Host: a'', CRLF @ CRLF], sk_tx = [],
        sk_snd = (\<lambda>_. 0), sk_nsnd = 0\<rparr>))
     = Some (Inr (\<lparr>rq_method = GET, rq_uri = ''/hello'', rq_version = HTTP_1_1,
          rq_header = [(''Host'', ''a'')], rq_body = []\<rparr>, SERVER_OK, t))"
proof -
  let ?s = "mk_SocketInputStream (mk_SocketStreamBuffer (\<lambda>_. CHR 0x00)
       \<lparr>sk_rx = [''GET /hel'', ''lo HTTP/1.1'' @ CRLF @ ''Host: a'', CRLF @ CRLF], sk_tx = [],
        sk_snd = (\<lambda>_. 0), sk_nsnd = 0\<rparr>)"
  have "is_clean ?s"
    by (simp add: is_clean_def clean_def mk_SocketInputStream_def mk_SocketStreamBuffer_def CRLF_def)
  moreover have "is_view ?s = flat_good (wire_line GET ''/hello'' HTTP_1_1
      @ wire_head [(''Host'', ''a'')] @ [])"
    by (simp add: is_view_def unread_def mk_SocketInputStream_def mk_SocketStreamBuffer_def CRLF_def
        wire_line_def wire_head_def serialize_method_def serialize_version_def
        HttpRequestMethodString_def HttpVersionString_def)
  ultimately show ?thesis
    using getOneHttpRequest_wire [of ?s GET "''/hello''" HTTP_1_1 "[(''Host'', ''a'')]" "[]"]
    by (auto simp: wire_uri_def wire_field_def isspace_def)
qed

text \<open>
  (C18) TCP segmentation is invisible: two clean streams with the same remaining bytes and the
  same state bits give the same request, the same error code and the same remaining bytes,
  whenever the request has no \<open>Content-Length\<close> field.
\<close>

theorem getOneHttpRequest_segmentation:
  assumes "is_clean s" and "is_clean s'" and "is_view s = is_view s'"
    and "getOneHttpRequest s = Some (Inr (r, e, t))"
    and "map_of (rq_header r) ''Content-Length'' = None"
  shows "\<exists>t'. getOneHttpRequest s' = Some (Inr (r, e, t')) \<and> is_view t' = is_view t"
proof -
  have same: "sis.same s s'" using assms(1-3) by (simp add: sis.same_def)
  obtain e1 s1 b1 where l: "parseLine s mk_HttpRequestBuilder = (e1, s1, b1)" by (metis prod_cases3)
  obtain e1' s1' b1' where l': "parseLine s' mk_HttpRequestBuilder = (e1', s1', b1')"
    by (metis prod_cases3)
  from same_parseLine [OF same l l'] have 1: "e1' = e1" "sis.same s1 s1'" "b1' = b1" by auto
  show ?thesis
  proof (cases "e1 = SERVER_OK")
    case False
    with assms(4) l l' 1 show ?thesis by (auto simp: getOneHttpRequest_def sis.same_def)
  next
    case True
    with assms(4) l obtain e2 s2 b2 where h: "parseHead s1 b1 = Inr (e2, s2, b2)"
      by (auto simp: getOneHttpRequest_def split: sum.splits)
    with same_parseHead [OF 1(2), of b1] obtain s2' where
      h': "parseHead s1' b1 = Inr (e2, s2', b2)" and 2: "sis.same s2 s2'"
      by (auto split: sum.splits)
    have "e2 = SERVER_OK \<Longrightarrow> map_of (rq_header (rb_obj b2)) ''Content-Length'' = None"
      using assms(4,5) l True h
      by (auto simp: getOneHttpRequest_def split: option.splits sum.splits dest: parseBody_header)
    with assms(4) l l' True h h' 1 2 show ?thesis
      by (auto simp: getOneHttpRequest_def sis.same_def parseBody_absent split: if_splits)
  qed
qed

theorem getOneHttpRequest_segmentation_witness:
  "\<exists>t. getOneHttpRequest (mk_SocketInputStream (mk_SocketStreamBuffer (\<lambda>_. CHR 0x00)
       \<lparr>sk_rx = [''GE'', ''T / HTTP/1.0'' @ CRLF, CRLF], sk_tx = [], sk_snd = (\<lambda>_. 0), sk_nsnd = 0\<rparr>))
     = Some (Inr (\<lparr>rq_method = GET, rq_uri = ''/'', rq_version = HTTP_1_0,
          rq_header = [], rq_body = []\<rparr>, SERVER_OK, t))"
proof -
  let ?s = "\<lambda>segs. mk_SocketInputStream (mk_SocketStreamBuffer (\<lambda>_. CHR 0x00)
       \<lparr>sk_rx = segs, sk_tx = [], sk_snd = (\<lambda>_. 0), sk_nsnd = 0\<rparr>)"
  let ?one = "?s [''GET / HTTP/1.0'' @ CRLF @ CRLF]"
  let ?three = "?s [''GE'', ''T / HTTP/1.0'' @ CRLF, CRLF]"
  have v: "is_clean ?one" "is_clean ?three" "is_view ?one = is_view ?three"
    "is_view ?one = flat_good (wire_line GET ''/'' HTTP_1_0 @ wire_head [] @ [])"
    by (simp_all add: is_clean_def clean_def is_view_def unread_def mk_SocketInputStream_def
        mk_SocketStreamBuffer_def CRLF_def wire_line_def wire_head_def serialize_method_def
        serialize_version_def HttpRequestMethodString_def HttpVersionString_def)
  from parseLine_wire [OF v(1) v(4), of mk_HttpRequestBuilder] obtain s1 where
    1: "parseLine ?one mk_HttpRequestBuilder = (SERVER_OK, s1,
        rb_setHttpVersion HTTP_1_0 (rb_setURI ''/'' (rb_setRequestMethod GET mk_HttpRequestBuilder)))"
      (is "_ = (_, _, ?b)")
      "is_clean s1" "is_view s1 = flat_good (wire_head [] @ [])"
    by (auto simp: wire_uri_def isspace_def)
  have b: "rb_obj ?b = \<lparr>rq_method = GET, rq_uri = ''/'', rq_version = HTTP_1_0, rq_header = [],
      rq_body = []\<rparr>"
    by (simp add: rb_setHttpVersion_def rb_setURI_def rb_setRequestMethod_def setHttpVersion_def
        setURI_def setRequestMethod_def mk_HttpRequestBuilder_def mk_HttpRequest_def)
  from parseHead_wire [OF 1(2,3), of ?b] 1(1) b obtain t where
    "getOneHttpRequest ?one = Some (Inr (rb_obj ?b, SERVER_OK, t))"
    by (auto simp: getOneHttpRequest_def parseBody_absent)
  from getOneHttpRequest_segmentation [OF v(1-3) this] b show ?thesis by auto
qed

text \<open>
  (C37) One malformed header line ends the process: when the next line of the head ends with its
  first colon (a field without value, sent with a bare line feed), \<open>substr\<close> is called past
  the end of the string and the \<open>out_of_range\<close> exception leaves \<open>parseHead\<close>.
\<close>

theorem parseHead_throws:
  assumes "is_clean s" and "is_view s = flat_good (k @ '':'' @ [CHR 0x0A] @ rest)"
    and "k \<noteq> []" and "CHR '':'' \<notin> set k" and "CHR 0x0A \<notin> set k"
  shows "parseHead s b = Inl out_of_range"
proof -
  let ?l = "k @ '':''"
  from sis.getln_next [of s ?l "CHR 0x0A" rest] assms obtain t where
    t: "istream_getline s (CHR 0x0A) = (Some ?l, t)" "is_view t = flat_good rest" by auto
  have "parse_header_line ?l = Inl out_of_range"
    using assms(3) str_find_append [OF assms(4), of "[]"]
    by (simp add: parse_header_line_def str_substr_from_def skip_blanks_eq butlast_append Let_def)
  with t show ?thesis by (simp add: parseHead.simps [of s] view_not_fail)
qed

theorem parseHead_throws_witness:
  "parseHead (mk_SocketInputStream (mk_SocketStreamBuffer (\<lambda>_. CHR 0x00)
      \<lparr>sk_rx = [''Host:'' @ [CHR 0x0A]], sk_tx = [], sk_snd = (\<lambda>_. 0), sk_nsnd = 0\<rparr>))
    mk_HttpRequestBuilder = Inl out_of_range"
  by (rule parseHead_throws [where k = "''Host''" and rest = "[]"])
     (simp_all add: is_clean_def clean_def is_view_def unread_def mk_SocketInputStream_def
        mk_SocketStreamBuffer_def)

lemma getOneHttpRequest_None:
  assumes "getOneHttpRequest s = None"
  shows "\<exists>s1 b1 s2 b2 v. parseLine s mk_HttpRequestBuilder = (SERVER_OK, s1, b1)
    \<and> parseHead s1 b1 = Inr (SERVER_OK, s2, b2)
    \<and> map_of (rq_header (rb_obj b2)) ''Content-Length'' = Some v
    \<and> is_good s2 \<and> (\<exists>n. stoul v = Inr n \<and> length (get_area (is_buf s2)) < n)"
proof -
  from assms obtain s1 b1 s2 b2 where
    1: "parseLine s mk_HttpRequestBuilder = (SERVER_OK, s1, b1)"
      "parseHead s1 b1 = Inr (SERVER_OK, s2, b2)" "parseBody s2 b2 = None"
    by (auto simp: getOneHttpRequest_def split: prod.splits if_splits sum.splits option.splits)
  from 1(3) obtain n where n: "requestBodyLength (rb_obj b2) = Inr n" "0 < n"
    "parse_body_loop n [] s2 = None"
    by (auto simp: parseBody_def split: sum.splits if_splits option.splits)
  have good: "is_good s2"
  proof (rule ccontr)
    assume "\<not> is_good s2"
    with n(2) have "parse_body_loop n [] s2 \<noteq> None"
      by (simp add: parse_body_loop.simps [of n] istream_readsome_def)
    with n(3) show False by simp
  qed
  from n(1,2) obtain v where v: "map_of (rq_header (rb_obj b2)) ''Content-Length'' = Some v"
    "stoul v = Inr n" by (auto simp: requestBodyLength_def split: option.splits)
  have "length (get_area (is_buf s2)) < n"
    using parse_body_loop_returns [OF good, of n "[]"] n(3) by (metis not_le option.distinct(1))
  with 1 good v show ?thesis by blast
qed

text \<open>
  The head of every request is parsed in finite time, whatever arrives, and only a
  \<open>Content-Length\<close> field can keep \<open>getOneHttpRequest\<close> from returning.
\<close>

theorem getOneHttpRequest_stuck_only_in_body:
  assumes "getOneHttpRequest s = None"
  shows "\<exists>s1 b1 s2 b2 v. parseLine s mk_HttpRequestBuilder = (SERVER_OK, s1, b1)
    \<and> parseHead s1 b1 = Inr (SERVER_OK, s2, b2)
    \<and> map_of (rq_header (rb_obj b2)) ''Content-Length'' = Some v
    \<and> is_good s2 \<and> (\<exists>n. stoul v = Inr n \<and> length (get_area (is_buf s2)) < n)"
  using assms by (rule getOneHttpRequest_None)

lemma getOneHttpRequest_waits:
  assumes "is_clean s" and "is_view s = flat_good (wire_line m uri v @ wire_head hs @ rest)"
    and "wire_uri uri" and "m \<noteq> UNKNOWN_REQUEST_METHOD" and "v \<noteq> UNKNOWN_HTTP_VERSION"
    and "list_all wire_field hs" and "distinct (map fst hs)"
    and "map_of hs ''Content-Length'' = Some len" and "stoul len = Inr n" and "length rest < n"
  shows "getOneHttpRequest s = None"
proof -
  from getOneHttpRequest_wire_head [OF assms(1-7)] obtain t b where
    b: "rb_obj b = \<lparr>rq_method = m, rq_uri = uri, rq_version = v, rq_header = hs, rq_body = []\<rparr>"
    and t: "is_view t = flat_good rest"
    and g: "getOneHttpRequest s =
      (case parseBody t b of
         None \<Rightarrow> None
       | Some (Inl x) \<Rightarrow> Some (Inl x)
       | Some (Inr (e3, s3, b3)) \<Rightarrow> Some (Inr (rb_obj b3, e3, s3)))" by blast
  have n: "requestBodyLength (rb_obj b) = Inr n" "0 < n"
    using assms(8-10) by (simp_all add: b requestBodyLength_def)
  have "is_good t" "length (get_area (is_buf t)) \<le> length rest"
    using t by (auto simp: is_view_def is_good_def unread_def)
  with assms(10) have "parse_body_loop n [] t = None"
    using parse_body_loop_bound [of n "[]" t] by (cases "parse_body_loop n [] t") auto
  with n g show ?thesis by (simp add: parseBody_def)
qed

text \<open>A client that announces five bytes of body and has not sent them yet.\<close>

definition waiting_client :: socket where
  "waiting_client = \<lparr>sk_rx = [wire_line GET ''/'' HTTP_1_0 @ wire_head [(''Content-Length'', ''5'')]],
     sk_tx = [], sk_snd = (\<lambda>_. 0), sk_nsnd = 0\<rparr>"

lemma waiting_client_waits:
  "getOneHttpRequest (mk_SocketInputStream (mk_SocketStreamBuffer raw waiting_client)) = None"
proof (rule getOneHttpRequest_waits
    [of _ GET "''/''" HTTP_1_0 "[(''Content-Length'', ''5'')]" "[]" "''5''" 5])
  show "is_clean (mk_SocketInputStream (mk_SocketStreamBuffer raw waiting_client))"
    "is_view (mk_SocketInputStream (mk_SocketStreamBuffer raw waiting_client))
      = flat_good (wire_line GET ''/'' HTTP_1_0 @ wire_head [(''Content-Length'', ''5'')] @ [])"
    by (simp_all add: waiting_client_def is_clean_def clean_def is_view_def unread_def
        mk_SocketInputStream_def mk_SocketStreamBuffer_def CRLF_def wire_line_def wire_head_def
        serialize_method_def serialize_version_def HttpRequestMethodString_def HttpVersionString_def)
qed (simp_all add: wire_uri_def wire_field_def isspace_def stoul_def Let_def isdigit_def
    digits_val_def digit_val_def)

theorem getOneHttpRequest_stuck_only_in_body_witness:
  "\<exists>s1 b1. parseLine (mk_SocketInputStream (mk_SocketStreamBuffer (\<lambda>_. CHR 0x00) waiting_client))
      mk_HttpRequestBuilder = (SERVER_OK, s1, b1)"
  using getOneHttpRequest_stuck_only_in_body [OF waiting_client_waits] by blast

section \<open>Every request makes progress\<close>

text \<open>
  A stream that fails is at its end: \<open>failbit\<close> alone would make the handler's loop spin. Parsing
  keeps this, never goes back, never clears the end-of-file bit, and reads nothing more once all
  input has been received.
\<close>

definition moves :: "SocketInputStream \<Rightarrow> SocketInputStream \<Rightarrow> bool" where
  "moves s t =
     (((is_fail s \<longrightarrow> is_eof s) \<longrightarrow>
        (is_fail t \<longrightarrow> is_eof t) \<and> (is_eof s \<longrightarrow> is_eof t)
        \<and> unread_len (is_buf t) \<le> unread_len (is_buf s))
      \<and> (received (is_buf s) \<longrightarrow> received (is_buf t)))"

lemma moves_refl [simp]: "moves s s"
  by (simp add: moves_def)

lemma moves_trans: "moves s t \<Longrightarrow> moves t u \<Longrightarrow> moves s u"
  by (auto simp: moves_def)

lemma extract_moves: "istream_extract s = (w, t) \<Longrightarrow> moves s t"
  using istream_extract_consumes [of s w t] istream_extract_received [of s w t]
  by (cases "is_good s") (auto simp: moves_def one_segment_def is_good_def istream_extract_def)

lemma get_moves: "istream_get s = (c, t) \<Longrightarrow> moves s t"
  using istream_get_consumes [of s c t] istream_get_received [of s c t]
  by (cases "is_good s") (auto simp: moves_def is_good_def istream_get_def)

lemma getline_moves: "istream_getline s d = (l, t) \<Longrightarrow> moves s t"
  using istream_getline_le [of s d l t] istream_getline_received [of s d l t]
  by (cases "is_good s") (auto simp: moves_def is_good_def istream_getline_def)

lemma readsome_moves: "istream_readsome s n = (xs, t) \<Longrightarrow> moves s t"
  using istream_readsome_flags [of s n xs t] istream_readsome_good(3,5) [of s n xs t]
  by (cases "is_good s") (auto simp: moves_def is_good_def received_def istream_readsome_def)

lemma skipTerminateCH_moves: "skipTerminateCH s = (e, t) \<Longrightarrow> moves s t"
  by (auto simp: skipTerminateCH_def split: prod.splits if_splits
      dest!: get_moves intro: moves_trans)

lemma extract_into_moves: "extract_into old s = (w, t) \<Longrightarrow> moves s t"
  by (auto simp: extract_into_def split: prod.splits dest: extract_moves)

lemma parseHead_moves: "parseHead s b = Inr (e, t, b') \<Longrightarrow> moves s t"
proof (induction s b rule: parseHead.induct)
  case (1 s b)
  obtain l s1 where g: "istream_getline s (CHR 0x0A) = (l, s1)" by fastforce
  note m = getline_moves [OF g]
  show ?case
  proof (cases "is_fail s1")
    case True
    with 1(2) g m show ?thesis by (simp add: parseHead.simps [of s b])
  next
    case False
    let ?p = "parse_header_line (case l of None \<Rightarrow> [] | Some x \<Rightarrow> x)"
    show ?thesis
    proof (cases "\<exists>k v. ?p = Inr (HeaderField k v)")
      case True
      then obtain k v where p: "?p = Inr (HeaderField k v)" by blast
      with 1(2) g False have "parseHead s1 (rb_setHeader k v b) = Inr (e, t, b')"
        by (simp add: parseHead.simps [of s b])
      from 1(1) [OF g [symmetric] False p refl False this] m show ?thesis by (rule moves_trans [rotated])
    next
      case no: False
      with 1(2) g False m show ?thesis
        by (auto simp: parseHead.simps [of s b] split: sum.splits header_item.splits)
    qed
  qed
qed

lemma parse_body_loop_moves:
  assumes "parse_body_loop rest body s = Some res"
  shows "moves s (snd (snd res))"
proof (rule parse_body_loop.raw_induct [where P = "\<lambda>rest body s res. moves s (snd (snd res))", OF _ assms])
  fix f rest body s res
  assume IH: "\<And>rest body s res. f rest body s = Some res \<Longrightarrow> moves s (snd (snd res))"
    and eq: "(if rest = 0 then Some (SERVER_OK, body, s)
      else (case istream_readsome s (if rest < RQ_BFSIZE then rest else RQ_BFSIZE) of
              (xs, s') \<Rightarrow>
                if is_fail s' then Some (PARSE_REQ_BODY_FAILED, body @ xs, s')
                else f (rest - length xs) (body @ xs) s')) = Some res"
  obtain xs t where r: "istream_readsome s (if rest < RQ_BFSIZE then rest else RQ_BFSIZE) = (xs, t)"
    by fastforce
  show "moves s (snd (snd res))"
  proof (cases "rest = 0 \<or> is_fail t")
    case True
    with eq r readsome_moves [OF r] show ?thesis by (auto split: if_splits)
  next
    case False
    with eq r have "f (rest - length xs) (body @ xs) t = Some res" by simp
    from moves_trans [OF readsome_moves [OF r] IH [OF this]] show ?thesis .
  qed
qed

lemma parseBody_moves: "parseBody s b = Some (Inr (e, t, b')) \<Longrightarrow> moves s t"
  by (auto simp: parseBody_def split: sum.splits if_splits option.splits dest: parse_body_loop_moves)

lemma parseLine_moves:
  assumes "parseLine s b = (e, t, b')" and "is_good s"
  shows "moves s t" and "\<not> is_eof t \<Longrightarrow> unread_len (is_buf t) < unread_len (is_buf s)"
proof -
  obtain w1 s1 where 1: "istream_extract s = (w1, s1)" by fastforce
  obtain m1 where x1: "extract_into [] s = (m1, s1)" using 1 by (simp add: extract_into_def)
  have "moves s1 t"
  proof (cases "is_fail s1")
    case True
    with assms(1) x1 show ?thesis by (simp add: parseLine_def)
  next
    case False
    obtain u s2 where x2: "extract_into [] s1 = (u, s2)" by fastforce
    obtain v s3 where x3: "extract_into [] s2 = (v, s3)" by fastforce
    obtain e4 s4 where x4: "skipTerminateCH s3 = (e4, s4)" by fastforce
    note m = extract_into_moves [OF x2] extract_into_moves [OF x3] skipTerminateCH_moves [OF x4]
    with False assms(1) x1 x2 x3 x4 show ?thesis
      by (auto simp: parseLine_def split: if_splits intro: moves_trans)
  qed
  with extract_moves [OF 1] show "moves s t" by (rule moves_trans)
  assume "\<not> is_eof t"
  with \<open>moves s1 t\<close> extract_moves [OF 1] assms(2) have "\<not> is_fail s1"
    "unread_len (is_buf t) \<le> unread_len (is_buf s1)" by (auto simp: moves_def is_good_def)
  with istream_extract_consumes(2) [OF 1] show "unread_len (is_buf t) < unread_len (is_buf s)" by simp
qed

lemma getOneHttpRequest_progress:
  assumes "getOneHttpRequest s = Some (Inr (r, e, t))" and "is_good s"
  shows "is_fail t \<longrightarrow> is_eof t" and "is_eof t \<or> unread_len (is_buf t) < unread_len (is_buf s)"
proof -
  obtain e1 s1 b1 where l: "parseLine s mk_HttpRequestBuilder = (e1, s1, b1)" by (metis prod_cases3)
  note p = parseLine_moves [OF l assms(2)]
  have "moves s1 t"
    using assms(1) l
    by (auto simp: getOneHttpRequest_def split: if_splits sum.splits option.splits prod.splits
        dest!: parseHead_moves parseBody_moves intro: moves_trans)
  with p assms(2) show "is_fail t \<longrightarrow> is_eof t"
    and "is_eof t \<or> unread_len (is_buf t) < unread_len (is_buf s)"
    by (auto simp: moves_def is_good_def)
qed

section \<open>Requests with a body, and requests as the server prints them\<close>

lemma parseLine_received:
  assumes "parseLine s b = (SERVER_OK, t, b')" and "is_good s" and "one_segment s"
  shows "received (is_buf t)"
proof -
  obtain w1 s1 where 1: "istream_extract s = (w1, s1)" by fastforce
  obtain m1 where x1: "extract_into [] s = (m1, s1)" using 1 by (simp add: extract_into_def)
  obtain u s2 where x2: "extract_into [] s1 = (u, s2)" by fastforce
  obtain v s3 where x3: "extract_into [] s2 = (v, s3)" by fastforce
  obtain e4 s4 where x4: "skipTerminateCH s3 = (e4, s4)" by fastforce
  note m = extract_into_moves [OF x2] extract_into_moves [OF x3] skipTerminateCH_moves [OF x4]
  from assms(1) x1 x2 x3 x4 have "t = s4" by (auto simp: parseLine_def split: if_splits)
  with m istream_extract_received [OF 1 assms(2,3)] show ?thesis by (simp add: moves_def)
qed

text \<open>
  (C13) A request whose body has arrived with it, in one segment that fits the buffer, is parsed
  completely: method, URI, version, fields and exactly the announced bytes of body, and what
  follows them is left for the next request.
\<close>

theorem getOneHttpRequest_with_body:
  assumes "is_clean s" and "one_segment s"
    and "is_view s = flat_good (wire_line m uri v @ wire_head hs @ body @ rest)"
    and "wire_uri uri" and "m \<noteq> UNKNOWN_REQUEST_METHOD" and "v \<noteq> UNKNOWN_HTTP_VERSION"
    and "list_all wire_field hs" and "distinct (map fst hs)"
    and "map_of hs ''Content-Length'' = Some len" and "stoul len = Inr (length body)"
  shows "\<exists>t. getOneHttpRequest s = Some (Inr
      (\<lparr>rq_method = m, rq_uri = uri, rq_version = v, rq_header = hs, rq_body = body\<rparr>, SERVER_OK, t))
    \<and> unread (is_buf t) = rest \<and> is_good t"
proof -
  let ?b1 = "rb_setHttpVersion v (rb_setURI uri (rb_setRequestMethod m mk_HttpRequestBuilder))"
  from parseLine_wire [OF assms(1,3,4,5,6), of mk_HttpRequestBuilder] obtain s1 where
    1: "parseLine s mk_HttpRequestBuilder = (SERVER_OK, s1, ?b1)" "is_clean s1"
      "is_view s1 = flat_good (wire_head hs @ body @ rest)" by auto
  let ?b2 = "foldl (\<lambda>b (k, v). rb_setHeader k v b) ?b1 hs"
  from parseHead_wire [OF 1(2,3) assms(7), of ?b1] obtain t where
    2: "parseHead s1 ?b1 = Inr (SERVER_OK, t, ?b2)" "is_view t = flat_good (body @ rest)" by auto
  have b2: "rb_obj ?b2 = \<lparr>rq_method = m, rq_uri = uri, rq_version = v, rq_header = hs, rq_body = []\<rparr>"
    using foldl_setHeader [of ?b1 hs] assms(8)
    by (simp add: rb_setHttpVersion_def rb_setURI_def rb_setRequestMethod_def setHttpVersion_def
        setURI_def setRequestMethod_def mk_HttpRequestBuilder_def mk_HttpRequest_def)
  have "is_good s" using assms(3) by (simp add: is_view_def is_good_def)
  from parseLine_received [OF 1(1) this assms(2)] parseHead_moves [OF 2(1)] have
    r: "received (is_buf t)" by (simp add: moves_def)
  have g: "is_good t" "get_area (is_buf t) = body @ rest"
    using 2(2) received_view [OF r] by (simp_all add: is_view_def is_good_def)
  from parse_body_loop_returns [OF g(1), of "length body" "[]"] g(2) obtain u where
    u: "parse_body_loop (length body) [] t = Some (SERVER_OK, body, u)" "is_good u"
      "unread (is_buf t) = body @ unread (is_buf u)" by auto
  have "unread (is_buf u) = rest" using u(3) 2(2) by (simp add: is_view_def)
  moreover have "requestBodyLength (rb_obj ?b2) = Inr (length body)"
    using assms(9,10) by (simp add: b2 requestBodyLength_def)
  ultimately show ?thesis
    using 1(1) 2(1) u(1,2) b2 g(1) 2(2)
    by (cases "body = []")
       (auto simp: getOneHttpRequest_def parseBody_def rb_setBody_def setBody_def is_view_def)
qed

theorem getOneHttpRequest_with_body_witness:
  "\<exists>t. getOneHttpRequest (mk_SocketInputStream (mk_SocketStreamBuffer (\<lambda>_. CHR 0x00)
       \<lparr>sk_rx = [wire_line POST ''/a'' HTTP_1_1 @ wire_head [(''Content-Length'', ''5'')] @ ''hello''],
        sk_tx = [], sk_snd = (\<lambda>_. 0), sk_nsnd = 0\<rparr>))
     = Some (Inr (\<lparr>rq_method = POST, rq_uri = ''/a'', rq_version = HTTP_1_1,
          rq_header = [(''Content-Length'', ''5'')], rq_body = ''hello''\<rparr>, SERVER_OK, t))"
proof -
  let ?s = "mk_SocketInputStream (mk_SocketStreamBuffer (\<lambda>_. CHR 0x00)
       \<lparr>sk_rx = [wire_line POST ''/a'' HTTP_1_1 @ wire_head [(''Content-Length'', ''5'')] @ ''hello''],
        sk_tx = [], sk_snd = (\<lambda>_. 0), sk_nsnd = 0\<rparr>)"
  have s: "is_clean ?s" "one_segment ?s" "is_view ?s = flat_good
      (wire_line POST ''/a'' HTTP_1_1 @ wire_head [(''Content-Length'', ''5'')] @ ''hello'' @ [])"
    by (simp_all add: is_clean_def clean_def is_view_def unread_def one_segment_def received_def
        mk_SocketInputStream_def mk_SocketStreamBuffer_def CRLF_def wire_line_def wire_head_def BFSIZE_def
        serialize_method_def serialize_version_def HttpRequestMethodString_def HttpVersionString_def)
  have n: "stoul ''5'' = Inr (length ''hello'')"
    by (simp add: stoul_def Let_def isspace_def isdigit_def digits_val_def digit_val_def)
  from getOneHttpRequest_with_body [OF s _ _ _ _ _ _ n] show ?thesis
    by (auto simp: wire_uri_def wire_field_def isspace_def)
qed

lemma parseLine_newline:
  assumes "is_clean s" and "wire_uri uri"
    and "is_view s = flat_good (serialize_method m @ '' '' @ uri @ '' '' @ serialize_version v @ CHR 0x0A # rest)"
  shows "\<exists>t b'. parseLine s b = (PARSE_TERMINATE_CH_FAILED, t, b') \<and> is_view t = flat_good rest"
proof -
  let ?r2 = "serialize_version v @ CHR 0x0A # rest"
  from extract_into_next [of s "[]" "serialize_method m" "CHR '' ''" "uri @ '' '' @ ?r2" "[]"] assms(1,3)
  obtain s1 where 1: "extract_into [] s = (serialize_method m, s1)" "is_clean s1"
      "is_view s1 = flat_good (CHR '' '' # uri @ '' '' @ ?r2)"
    by (auto simp: serialize_no_space isspace_code_points)
  from extract_into_next [of s1 "'' ''" uri "CHR '' ''" ?r2 "[]"] 1(2,3) assms(2)
  obtain s2 where 2: "extract_into [] s1 = (uri, s2)" "is_clean s2"
      "is_view s2 = flat_good (CHR '' '' # ?r2)"
    by (auto simp: wire_uri_def list_all_iff isspace_code_points)
  from extract_into_next [of s2 "'' ''" "serialize_version v" "CHR 0x0A" rest "[]"] 2(2,3)
  obtain s3 where 3: "extract_into [] s2 = (serialize_version v, s3)" "is_clean s3"
      "is_view s3 = flat_good (CHR 0x0A # rest)"
    by (auto simp: serialize_no_space isspace_code_points)
  from sis.get_char [OF 3(2,3)] obtain t where
    "istream_get s3 = (to_int_type (CHR 0x0A), t)" "is_view t = flat_good rest" by auto
  then have "skipTerminateCH s3 = (PARSE_TERMINATE_CH_FAILED, t)"
    by (simp add: skipTerminateCH_def to_int_type_def)
  with 1 2 3 \<open>is_view t = flat_good rest\<close> show ?thesis by (simp add: parseLine_def view_not_fail)
qed

text \<open>
  The analyser refuses what \<open>HttpRequest::serialize\<close> prints: lines end in a bare newline
  there, so reading a printed request back stops behind its first line with
  \<open>PARSE_TERMINATE_CH_FAILED\<close>, whatever the request.
\<close>

theorem serialize_not_parsed:
  assumes "is_clean s" and "wire_uri (rq_uri r)" and "is_view s = flat_good (serialize_request ord r)"
  shows "\<exists>r' t. getOneHttpRequest s = Some (Inr (r', PARSE_TERMINATE_CH_FAILED, t))
    \<and> rq_header r' = []"
proof -
  from parseLine_newline [OF assms(1,2), of "rq_method r" "rq_version r" _ mk_HttpRequestBuilder] assms(3)
  obtain t b' where p: "parseLine s mk_HttpRequestBuilder = (PARSE_TERMINATE_CH_FAILED, t, b')"
    by (auto simp: serialize_request_def)
  then have "rq_header (rb_obj b') = []"
    by (auto simp: parseLine_def rb_setHttpVersion_def rb_setURI_def rb_setRequestMethod_def setHttpVersion_def
        setURI_def setRequestMethod_def mk_HttpRequestBuilder_def mk_HttpRequest_def split: prod.splits if_splits)
  with p show ?thesis by (auto simp: getOneHttpRequest_def)
qed

theorem serialize_not_parsed_witness:
  "\<exists>r' t. getOneHttpRequest (mk_SocketInputStream (mk_SocketStreamBuffer (\<lambda>_. CHR 0x00)
       \<lparr>sk_rx = [''GET /a HTTP/1.1'' @ [CHR 0x0A, CHR 0x0A]], sk_tx = [], sk_snd = (\<lambda>_. 0), sk_nsnd = 0\<rparr>))
     = Some (Inr (r', PARSE_TERMINATE_CH_FAILED, t))"
proof -
  let ?s = "mk_SocketInputStream (mk_SocketStreamBuffer (\<lambda>_. CHR 0x00)
       \<lparr>sk_rx = [''GET /a HTTP/1.1'' @ [CHR 0x0A, CHR 0x0A]], sk_tx = [], sk_snd = (\<lambda>_. 0), sk_nsnd = 0\<rparr>)"
  let ?r = "\<lparr>rq_method = GET, rq_uri = ''/a'', rq_version = HTTP_1_1, rq_header = [], rq_body = []\<rparr>"
  have "is_clean ?s" "wire_uri (rq_uri ?r)" "is_view ?s = flat_good (serialize_request id ?r)"
    by (simp_all add: is_clean_def clean_def is_view_def unread_def serialize_request_def wire_uri_def isspace_def
        mk_SocketInputStream_def mk_SocketStreamBuffer_def
        serialize_method_def serialize_version_def HttpRequestMethodString_def HttpVersionString_def)
  from serialize_not_parsed [OF this] show ?thesis by blast
qed

end
