(* ===== verification/Body_Stream.thy ===== *)
theory Body_Stream
  imports Prelude
begin

text \<open>
  The seekable input streams a response body is read from: a \<open>std::istringstream\<close> or a
  \<open>std::ifstream\<close> opened in binary mode, with the operations the sources call on them
  (\<open>seekg\<close>, \<open>tellg\<close>, \<open>readsome\<close>), and the contract their readers rely on.
\<close>

section \<open>The streams\<close>

text \<open>
  \<open>rd_avail p\<close> is what the stream buffer reports as available at position \<open>p\<close>
  (\<open>in_avail\<close>): all that is left for a string stream, the rest of the current block for a
  file stream. The sources open a body stream fresh and only seek inside it, so the end-of-file
  bit is never set and \<open>rd_fail\<close> is the only state bit.
\<close>

record body_stream =
  rd_data :: string
  rd_avail :: "nat \<Rightarrow> nat"
  rd_pos :: nat
  rd_fail :: bool

definition istringstream :: "string \<Rightarrow> body_stream" where
  "istringstream xs = \<lparr>rd_data = xs, rd_avail = (\<lambda>p. length xs - p), rd_pos = 0, rd_fail = False\<rparr>"

definition ifstream :: "(nat \<Rightarrow> nat) \<Rightarrow> string \<Rightarrow> body_stream" where
  "ifstream avail xs = \<lparr>rd_data = xs, rd_avail = avail, rd_pos = 0, rd_fail = False\<rparr>"

definition seekg_end :: "body_stream \<Rightarrow> body_stream" where
  "seekg_end r = (if rd_fail r then r else r\<lparr>rd_pos := length (rd_data r)\<rparr>)"

definition seekg_beg :: "body_stream \<Rightarrow> body_stream" where
  "seekg_beg r = (if rd_fail r then r else r\<lparr>rd_pos := 0\<rparr>)"

definition tellg :: "body_stream \<Rightarrow> int" where
  "tellg r = (if rd_fail r then - 1 else int (rd_pos r))"

definition rd_readsome :: "body_stream \<Rightarrow> nat \<Rightarrow> string \<times> body_stream" where
  "rd_readsome r n =
     (if rd_fail r then ([], r)
      else let k = min n (min (rd_avail r (rd_pos r)) (length (rd_data r) - rd_pos r))
           in (take k (drop (rd_pos r) (rd_data r)), r\<lparr>rd_pos := rd_pos r + k\<rparr>))"

section \<open>The contract of a byte source\<close>

text \<open>
  What the copying loops rely on: while the source is sound, a read returns a prefix of what is
  left, never more than asked for, and at least one byte when something is left.
\<close>

locale byte_source =
  fixes rest :: "'r \<Rightarrow> string"
    and readsome :: "'r \<Rightarrow> nat \<Rightarrow> string \<times> 'r"
    and sound :: "'r \<Rightarrow> bool"
  assumes read_split: "sound r \<Longrightarrow> readsome r n = (xs, r') \<Longrightarrow> rest r = xs @ rest r'"
    and read_sound: "sound r \<Longrightarrow> readsome r n = (xs, r') \<Longrightarrow> sound r'"
    and read_bound: "sound r \<Longrightarrow> readsome r n = (xs, r') \<Longrightarrow> length xs \<le> n"
    and read_progress:
      "sound r \<Longrightarrow> readsome r n = (xs, r') \<Longrightarrow> 0 < n \<Longrightarrow> rest r \<noteq> [] \<Longrightarrow> xs \<noteq> []"
begin

text \<open>
  One turn of a copying loop that still has \<open>m\<close> bytes to fetch and asks for \<open>k\<close> of them.
\<close>

lemma read_turn:
  assumes "sound r" and "0 < k" and "k \<le> m" and "m \<le> length (rest r)"
  obtains xs r' where "readsome r k = (xs, r')" and "sound r'" and "rest r = xs @ rest r'"
    and "length xs \<le> k" and "m - length xs < m" and "m - length xs \<le> length (rest r')"
    and "take m (rest r) = xs @ take (m - length xs) (rest r')"
proof -
  obtain xs r' where x: "readsome r k = (xs, r')" by fastforce
  from assms have "rest r \<noteq> []" by auto
  with x assms have 1: "sound r'" "rest r = xs @ rest r'" "length xs \<le> k" "xs \<noteq> []"
    by (auto dest: read_split read_sound read_bound read_progress)
  from 1(4) assms(2,3) have "m - length xs < m" by (simp add: diff_less)
  moreover from 1 assms have "m - length xs \<le> length (rest r')"
    "take m (rest r) = xs @ take (m - length xs) (rest r')" by auto
  ultimately show thesis using that [OF x] 1 by blast
qed

end

definition rd_rest :: "body_stream \<Rightarrow> string" where
  "rd_rest r = drop (rd_pos r) (rd_data r)"

definition rd_sound :: "body_stream \<Rightarrow> bool" where
  "rd_sound r = (\<not> rd_fail r \<and> (\<forall>p < length (rd_data r). 0 < rd_avail r p))"

lemma rd_readsome_split:
  "rd_sound r \<Longrightarrow> rd_readsome r n = (xs, r') \<Longrightarrow> rd_rest r = xs @ rd_rest r'"
  by (auto simp: rd_readsome_def rd_sound_def rd_rest_def Let_def add.commute [of "rd_pos r"]
      simp flip: drop_drop)

lemma rd_readsome_sound: "rd_sound r \<Longrightarrow> rd_readsome r n = (xs, r') \<Longrightarrow> rd_sound r'"
  by (auto simp: rd_readsome_def rd_sound_def Let_def)

lemma rd_readsome_progress:
  assumes "rd_sound r" and "rd_readsome r n = (xs, r')" and "0 < n" and "rd_rest r \<noteq> []"
  shows "xs \<noteq> []"
proof -
  from assms(1,4) have "0 < rd_avail r (rd_pos r)" by (simp add: rd_sound_def rd_rest_def)
  with assms(3,4) have "0 < min n (min (rd_avail r (rd_pos r)) (length (rd_data r) - rd_pos r))"
    (is "0 < ?k") by (simp add: rd_rest_def)
  moreover from assms(1,2) have "xs = take ?k (rd_rest r)"
    by (auto simp: rd_readsome_def rd_rest_def rd_sound_def Let_def)
  ultimately show ?thesis using assms(4) by (metis take_eq_Nil less_not_refl)
qed

interpretation rd: byte_source rd_rest rd_readsome rd_sound
  by unfold_locales
     (auto intro: rd_readsome_split rd_readsome_sound dest: rd_readsome_progress
       simp: rd_readsome_def Let_def split: if_splits)

lemma rd_sound_istringstream [simp]: "rd_sound (istringstream xs)"
  by (simp add: rd_sound_def istringstream_def)

lemma rd_data_simps [simp]:
  "rd_data (istringstream xs) = xs" "rd_data (ifstream av xs) = xs"
  "rd_data (seekg_end r) = rd_data r" "rd_data (seekg_beg r) = rd_data r"
  by (simp_all add: istringstream_def ifstream_def seekg_end_def seekg_beg_def)

lemma rd_sound_seek [simp]:
  "rd_sound (seekg_end r) = rd_sound r" "rd_sound (seekg_beg r) = rd_sound r"
  by (simp_all add: seekg_end_def seekg_beg_def rd_sound_def)

lemma tellg_seekg_end: "rd_sound r \<Longrightarrow> tellg (seekg_end r) = int (length (rd_data r))"
  by (simp add: tellg_def seekg_end_def rd_sound_def)

lemma rd_rest_seekg_beg: "rd_sound r \<Longrightarrow> rd_rest (seekg_beg r) = rd_data r"
  by (simp add: rd_rest_def seekg_beg_def rd_sound_def)

lemma rd_rest_fresh [simp]: "rd_rest (istringstream xs) = xs" "rd_rest (ifstream av xs) = xs"
  by (simp_all add: rd_rest_def istringstream_def ifstream_def)

lemma rd_data_readsome: "rd_readsome r n = (xs, r') \<Longrightarrow> rd_data r' = rd_data r"
  by (auto simp: rd_readsome_def Let_def split: if_splits)

lemma rd_fail_sound [simp]: "rd_sound r \<Longrightarrow> \<not> rd_fail r"
  by (simp add: rd_sound_def)

end
