(* ===== verification/Http_Router.thy ===== *)
theory Http_Router
  imports Error_Codes Http_Config Body_Stream
begin

text \<open>
  \<open>HttpUtils/Resource.hpp\<close>, \<open>Resource.cc\<close>, \<open>Router.hpp\<close> and \<open>Router.cc\<close>: the
  resources a URI or a status code can stand for, and the router that maps them.
\<close>

section \<open>Resources\<close>

datatype ResourceType = STATIC | CGI | INVALID

text \<open>
  A \<open>GeneralResource\<close> carries only its type, a \<open>ValidResource\<close> (static or CGI) also its
  path and URI.
\<close>

datatype resource =
    InvalidResource
  | StaticResource string string
  | CGIResource string string

fun getType :: "resource \<Rightarrow> ResourceType" where
  "getType InvalidResource = INVALID"
| "getType (StaticResource p u) = STATIC"
| "getType (CGIResource p u) = CGI"

fun getPath :: "resource \<Rightarrow> string" where
  "getPath InvalidResource = []"
| "getPath (StaticResource p u) = p"
| "getPath (CGIResource p u) = p"

fun getURI :: "resource \<Rightarrow> string" where
  "getURI InvalidResource = []"
| "getURI (StaticResource p u) = u"
| "getURI (CGIResource p u) = u"

section \<open>The interface and its implementation\<close>

text \<open>
  \<open>IRouter\<close> as its callers see it: the three virtual functions of a router object. The lookups
  lock the router and change nothing, so they are functions of the router's state.
\<close>

record IRouter =
  ir_uri :: "string \<Rightarrow> resource"
  ir_code :: "statecode_t \<Rightarrow> resource"
  ir_errpg :: "statecode_t \<Rightarrow> body_stream"

record Router =
  mappingFilePath :: string
  uriMapper :: "(string \<times> resource) list"
  errMapper :: "(statecode_t \<times> resource) list"

definition doLoad :: "string \<Rightarrow> Router \<Rightarrow> server_err_t \<times> Router" where
  "doLoad path rt =
     (SERVER_OK,
      rt\<lparr>uriMapper := AList.update ''/'' (StaticResource ''./StaticFiles/index.html'' ''/'')
           (AList.update ''/hello'' (StaticResource ''./hello.html'' ''/hello'') (uriMapper rt)),
         errMapper := AList.update 500 (StaticResource ''./StaticFiles/500.html'' ''/500'')
           (AList.update 404 (StaticResource ''./StaticFiles/404.html'' ''/404'') (errMapper rt))\<rparr>)"

definition DEFAULT_MAPPING_PATH :: string where
  "DEFAULT_MAPPING_PATH = ''web.xml''"

definition mk_Router :: Router where
  "mk_Router = snd (doLoad DEFAULT_MAPPING_PATH
     \<lparr>mappingFilePath = [], uriMapper = [], errMapper = []\<rparr>)"

definition loadFrom :: "string \<Rightarrow> Router \<Rightarrow> server_err_t \<times> Router" where
  "loadFrom path rt =
     (case doLoad path rt of
        (e, rt1) \<Rightarrow> if e = SERVER_OK then (e, rt1\<lparr>mappingFilePath := path\<rparr>) else (e, rt1))"

definition router_at_code :: "Router \<Rightarrow> statecode_t \<Rightarrow> resource" where
  "router_at_code rt code =
     (case map_of (errMapper rt) code of Some r \<Rightarrow> r | None \<Rightarrow> InvalidResource)"

definition router_at_uri :: "Router \<Rightarrow> string \<Rightarrow> resource" where
  "router_at_uri rt uri =
     (case map_of (uriMapper rt) uri of Some r \<Rightarrow> r | None \<Rightarrow> InvalidResource)"

definition getDefaultErrorPage :: "statecode_t \<Rightarrow> body_stream" where
  "getDefaultErrorPage code =
     (let codeInfo = to_string (unat code) @ '' '' @ st_detail (mk_HttpResponseStatus code)
      in istringstream (''<html><head><title>'' @ codeInfo @ ''</title></head><body><h1>''
           @ codeInfo @ ''</h1></body></html>''))"

definition as_IRouter :: "Router \<Rightarrow> IRouter" where
  "as_IRouter rt = \<lparr>ir_uri = router_at_uri rt, ir_code = router_at_code rt,
     ir_errpg = getDefaultErrorPage\<rparr>"

section \<open>What every router promises\<close>

text \<open>
  The contract the responder relies on: a URI is either unknown or maps to a static resource,
  a status code likewise, and every default error page can be read. (A CGI resource would reach
  code marked as not complete in the sources.)
\<close>

definition not_CGI :: "resource \<Rightarrow> bool" where
  "not_CGI r = (getType r \<noteq> CGI)"

locale static_router =
  fixes rt :: IRouter
  assumes uri_not_CGI: "not_CGI (ir_uri rt uri)"
    and code_not_CGI: "not_CGI (ir_code rt code)"
    and errpg_sound: "rd_sound (ir_errpg rt code)"
begin

lemma uri_cases:
  obtains "ir_uri rt uri = InvalidResource"
  | p u where "ir_uri rt uri = StaticResource p u"
  using uri_not_CGI [of uri] by (cases "ir_uri rt uri") (auto simp: not_CGI_def)

lemma code_cases:
  obtains "ir_code rt code = InvalidResource"
  | p u where "ir_code rt code = StaticResource p u"
  using code_not_CGI [of code] by (cases "ir_code rt code") (auto simp: not_CGI_def)

end

text \<open>Invariant of the router: both tables hold static resources only.\<close>

definition router_wf :: "Router \<Rightarrow> bool" where
  "router_wf rt =
     (list_all (\<lambda>(k, r). getType r = STATIC) (uriMapper rt)
      \<and> list_all (\<lambda>(k, r). getType r = STATIC) (errMapper rt))"

lemma list_all_update:
  "list_all (\<lambda>(k, r). P r) xs \<Longrightarrow> P r \<Longrightarrow> list_all (\<lambda>(k, r). P r) (AList.update k r xs)"
  by (induction xs) auto

lemma doLoad_wf: "router_wf rt \<Longrightarrow> router_wf (snd (doLoad path rt))"
  by (simp add: router_wf_def doLoad_def list_all_update)

lemma loadFrom_wf: "router_wf rt \<Longrightarrow> router_wf (snd (loadFrom path rt))"
  using doLoad_wf [of rt path] by (auto simp: loadFrom_def router_wf_def split: prod.split)

lemma mk_Router_wf: "router_wf mk_Router"
  unfolding mk_Router_def by (rule doLoad_wf) (simp add: router_wf_def)

lemma lookup_static:
  "list_all (\<lambda>(k, r). getType r = STATIC) xs \<Longrightarrow> map_of xs k = Some r \<Longrightarrow> getType r = STATIC"
  by (induction xs) (auto split: if_splits)

lemma static_router_Router:
  assumes "router_wf rt"
  shows "static_router (as_IRouter rt)"
proof
  show "not_CGI (ir_uri (as_IRouter rt) uri)" for uri
    using assms lookup_static [of "uriMapper rt" uri]
    by (auto simp: as_IRouter_def not_CGI_def router_wf_def router_at_uri_def split: option.split)
  show "not_CGI (ir_code (as_IRouter rt) code)" for code
    using assms lookup_static [of "errMapper rt" code]
    by (auto simp: as_IRouter_def not_CGI_def router_wf_def router_at_code_def split: option.split)
  show "rd_sound (ir_errpg (as_IRouter rt) code)" for code
    by (simp add: as_IRouter_def getDefaultErrorPage_def Let_def)
qed

interpretation mr: static_router "as_IRouter mk_Router"
  by (rule static_router_Router [OF mk_Router_wf])

section \<open>Loading the mapping\<close>

lemma uri_after_load:
  "router_at_uri (snd (loadFrom path rt)) uri =
     (if uri = ''/'' then StaticResource ''./StaticFiles/index.html'' ''/''
      else if uri = ''/hello'' then StaticResource ''./hello.html'' ''/hello''
      else router_at_uri rt uri)"
  by (simp add: router_at_uri_def loadFrom_def doLoad_def update_conv')

lemma code_after_load:
  "router_at_code (snd (loadFrom path rt)) code =
     (if code = 500 then StaticResource ''./StaticFiles/500.html'' ''/500''
      else if code = 404 then StaticResource ''./StaticFiles/404.html'' ''/404''
      else router_at_code rt code)"
  by (simp add: router_at_code_def loadFrom_def doLoad_def update_conv')

lemma router_at_uri_mk:
  "router_at_uri mk_Router uri =
     (if uri = ''/'' then StaticResource ''./StaticFiles/index.html'' ''/''
      else if uri = ''/hello'' then StaticResource ''./hello.html'' ''/hello''
      else InvalidResource)"
  by (simp add: router_at_uri_def mk_Router_def doLoad_def update_conv')

lemma router_at_code_mk:
  "router_at_code mk_Router code =
     (if code = 500 then StaticResource ''./StaticFiles/500.html'' ''/500''
      else if code = 404 then StaticResource ''./StaticFiles/404.html'' ''/404''
      else InvalidResource)"
  by (simp add: router_at_code_def mk_Router_def doLoad_def update_conv')

text \<open>
  Loading is idempotent for every client of the router: reloading, from any path, any
  number of times, leaves both tables as the constructor made them, whatever path is given.
\<close>

theorem reload_same_routes:
  "router_at_uri (foldl (\<lambda>rt p. snd (loadFrom p rt)) mk_Router paths) = router_at_uri mk_Router
   \<and> router_at_code (foldl (\<lambda>rt p. snd (loadFrom p rt)) mk_Router paths) = router_at_code mk_Router
   \<and> router_wf (foldl (\<lambda>rt p. snd (loadFrom p rt)) mk_Router paths)"
proof (induction paths rule: rev_induct)
  case Nil
  show ?case by (simp add: mk_Router_wf)
next
  case (snoc p ps)
  then show ?case
    by (auto simp: fun_eq_iff uri_after_load code_after_load router_at_uri_mk router_at_code_mk
        intro: loadFrom_wf)
qed

end
