(* ===== verification/Resource_Accessor.thy ===== *)
theory Resource_Accessor
  imports Http_Router
begin

text \<open>
  \<open>HttpUtils/ResourceAccessor.hpp\<close>, \<open>ResourceAccessor.cc\<close> and the interface of
  \<open>Cache/Cache.hpp\<close>: reading a static resource from the file system, directly or through a
  cache, and the contracts of the two interfaces (\<open>ICache\<close>, \<open>IResourceAccessor\<close>).
\<close>

section \<open>The file system and the cache interface\<close>

text \<open>
  The file system as the process sees it while a request is served: for a path that can be
  opened, the bytes of the file and how many of them the file buffer reports at each position.
\<close>

type_synonym file_system = "string \<Rightarrow> (string \<times> (nat \<Rightarrow> nat)) option"

text \<open>
  \<open>ICache<std::string, std::string>\<close>: the virtual functions of a cache with state \<open>'c\<close>.
  \<open>get\<close> receives and returns the string it may overwrite.
\<close>

record 'c ICache =
  ic_get :: "'c \<Rightarrow> string \<Rightarrow> string \<Rightarrow> bool \<times> string \<times> 'c"
  ic_put :: "'c \<Rightarrow> string \<Rightarrow> string \<Rightarrow> bool \<times> 'c"
  ic_validKey :: "string \<Rightarrow> bool"
  ic_validVal :: "string \<Rightarrow> bool"

section \<open>FileAccessor\<close>

definition file_access :: "file_system \<Rightarrow> resource \<Rightarrow> body_stream option \<times> server_err_t" where
  "file_access fs sr =
     (case fs (getPath sr) of
        Some (bytes, avail) \<Rightarrow> (Some (ifstream avail bytes), SERVER_OK)
      | None \<Rightarrow> (None, INVALID_FILE_PATH))"

section \<open>CachedResourceAccessor\<close>

definition string_resize :: "string \<Rightarrow> nat \<Rightarrow> string" where
  "string_resize s n = take n s @ replicate (n - length s) (CHR 0x00)"

text \<open>
  The loop that fills \<open>resource\<close> from the file. The first component tells whether the loop ran
  to its end; it is \<open>False\<close> when the stream failed.
\<close>

partial_function (option) fill_loop ::
  "nat \<Rightarrow> nat \<Rightarrow> body_stream \<Rightarrow> string \<Rightarrow> (bool \<times> string) option" where
  "fill_loop filesize rest inp res =
     (if rest = 0 then Some (True, res)
      else (case rd_readsome inp rest of
              (xs, inp1) \<Rightarrow>
                (let off = filesize - rest;
                     res1 = take off res @ xs @ drop (off + length xs) res
                 in if rd_fail inp1 then Some (False, res1)
                    else fill_loop filesize (rest - length xs) inp1 res1)))"

text \<open>
  A cache miss: open the file and, when there is a cache and the entry is small enough for it,
  read it whole and put it there. A size of \<open>-1\<close> (a stream that cannot be positioned) would be
  converted to the largest \<open>unsigned long\<close>, which \<open>resize\<close> refuses.
\<close>

definition access_miss ::
  "'c ICache \<Rightarrow> file_system \<Rightarrow> 'c option \<Rightarrow> resource \<Rightarrow> string
    \<Rightarrow> (body_stream option \<times> server_err_t \<times> 'c option) run" where
  "access_miss ops fs cache sr res =
     (case (file_access fs sr, cache) of
        ((Some inp, e), Some c) \<Rightarrow>
          if e \<noteq> SERVER_OK then Some (Inr (Some inp, e, cache))
          else (let inp1 = seekg_end inp; filesize = tellg inp1; inp2 = seekg_beg inp1
                in if filesize = -1 then Some (Inl length_error)
                   else (let res1 = string_resize res (nat filesize)
                         in if ic_validKey ops (getPath sr) \<and> ic_validVal ops res1
                            then (case fill_loop (nat filesize) (nat filesize) inp2 res1 of
                                    None \<Rightarrow> None
                                  | Some (False, res2) \<Rightarrow> Some (Inr (None, FILE_READ_ABORT, cache))
                                  | Some (True, res2) \<Rightarrow>
                                      (case ic_put ops c (getPath sr) res2 of
                                         (ok, c1) \<Rightarrow>
                                           Some (Inr (Some (istringstream res2), e, Some c1))))
                            else Some (Inr (Some inp2, e, cache))))
      | ((inp, e), cache) \<Rightarrow> Some (Inr (inp, e, cache)))"

definition cached_access ::
  "'c ICache \<Rightarrow> file_system \<Rightarrow> 'c option \<Rightarrow> resource
    \<Rightarrow> (body_stream option \<times> server_err_t \<times> 'c option) run" where
  "cached_access ops fs cache sr =
     (case cache of
        None \<Rightarrow> access_miss ops fs None sr []
      | Some c \<Rightarrow>
          (case ic_get ops c (getPath sr) [] of
             (ok, res, c1) \<Rightarrow>
               if ok then Some (Inr (Some (istringstream res), SERVER_OK, Some c1))
               else access_miss ops fs (Some c1) sr res))"

section \<open>The loop reads the whole file\<close>

lemma fill_loop_reads_all:
  assumes "rd_sound inp" and "rest \<le> length (rd_rest inp)" and "length res = filesize"
    and "rest \<le> filesize"
  shows "fill_loop filesize rest inp res =
    Some (True, take (filesize - rest) res @ take rest (rd_rest inp))"
  using assms
proof (induction rest arbitrary: inp res rule: less_induct)
  case (less rest)
  show ?case
  proof (cases "rest = 0")
    case True
    with less.prems show ?thesis by (simp add: fill_loop.simps)
  next
    case False
    then have "0 < rest" by simp
    from rd.read_turn [OF less.prems(1) this order_refl less.prems(2)] obtain xs inp1 where
      r: "rd_readsome inp rest = (xs, inp1)" "rd_sound inp1" "length xs \<le> rest"
        "rest - length xs < rest" "rest - length xs \<le> length (rd_rest inp1)"
        "take rest (rd_rest inp) = xs @ take (rest - length xs) (rd_rest inp1)"
      by blast
    let ?off = "filesize - rest"
    let ?res1 = "take ?off res @ xs @ drop (?off + length xs) res"
    have len: "length ?res1 = filesize" using less.prems(3,4) r(3) by simp
    have "fill_loop filesize (rest - length xs) inp1 ?res1 =
      Some (True, take (filesize - (rest - length xs)) ?res1 @ take (rest - length xs) (rd_rest inp1))"
      using less.IH [OF r(4,2,5) len] less.prems(4) by simp
    moreover have "take (filesize - (rest - length xs)) ?res1 = take ?off res @ xs"
      using less.prems(3,4) r(3) by simp
    ultimately show ?thesis
      using False r by (simp add: fill_loop.simps [of filesize rest] Let_def)
  qed
qed

lemma length_string_resize [simp]: "length (string_resize s n) = n"
  by (simp add: string_resize_def)

section \<open>The contract of a resource accessor\<close>

text \<open>
  \<open>files\<close> is what the accessor serves: the bytes behind each path. While the accessor's
  invariant holds, an existing file is returned whole and readable, a missing one gives a null
  reader and an error code, and \<open>access\<close> always returns.
\<close>

locale resource_accessor =
  fixes access :: "'a \<Rightarrow> resource \<Rightarrow> (body_stream option \<times> server_err_t \<times> 'a) run"
    and files :: "string \<Rightarrow> string option"
    and good_path :: "string \<Rightarrow> bool"
    and ok :: "'a \<Rightarrow> bool"
  assumes access_found:
      "ok a \<Longrightarrow> good_path (getPath sr) \<Longrightarrow> files (getPath sr) = Some bytes \<Longrightarrow>
        \<exists>r a'. access a sr = Some (Inr (Some r, SERVER_OK, a')) \<and> ok a'
          \<and> rd_sound r \<and> rd_data r = bytes"
    and access_missing:
      "ok a \<Longrightarrow> good_path (getPath sr) \<Longrightarrow> files (getPath sr) = None \<Longrightarrow>
        \<exists>e a'. access a sr = Some (Inr (None, e, a')) \<and> ok a' \<and> e \<noteq> SERVER_OK"
begin

lemma access_returns:
  assumes "ok a" and "good_path (getPath sr)"
  obtains r e a' where "access a sr = Some (Inr (r, e, a'))" and "ok a'"
    and "r = None \<longleftrightarrow> files (getPath sr) = None" and "e = SERVER_OK \<longleftrightarrow> r \<noteq> None"
proof (cases "files (getPath sr)")
  case None
  with access_missing [OF assms] that show thesis by (metis option.distinct(1))
next
  case (Some bytes)
  with access_found [OF assms] that show thesis by (metis option.distinct(1))
qed

end

definition fs_sound :: "file_system \<Rightarrow> bool" where
  "fs_sound fs = (\<forall>p bytes avail. fs p = Some (bytes, avail) \<longrightarrow> (\<forall>i < length bytes. 0 < avail i))"

definition fs_files :: "file_system \<Rightarrow> string \<Rightarrow> string option" where
  "fs_files fs p = map_option fst (fs p)"

lemma file_access_found:
  assumes "fs_sound fs" and "fs_files fs (getPath sr) = Some bytes"
  obtains r where "file_access fs sr = (Some r, SERVER_OK)" and "rd_sound r" and "rd_data r = bytes"
    and "rd_rest r = bytes"
proof -
  from assms(2) obtain av where f: "fs (getPath sr) = Some (bytes, av)"
    by (auto simp: fs_files_def)
  with assms(1) have "rd_sound (ifstream av bytes)"
    by (auto simp: rd_sound_def ifstream_def fs_sound_def)
  with f that show thesis by (auto simp: file_access_def)
qed

lemma file_access_missing:
  "fs_files fs (getPath sr) = None \<Longrightarrow> file_access fs sr = (None, INVALID_FILE_PATH)"
  by (simp add: fs_files_def file_access_def)

text \<open>The file accessor keeps no state; as an accessor its state is \<open>unit\<close>.\<close>

definition FileAccessor_access ::
  "file_system \<Rightarrow> unit \<Rightarrow> resource \<Rightarrow> (body_stream option \<times> server_err_t \<times> unit) run" where
  "FileAccessor_access fs a sr = (case file_access fs sr of (r, e) \<Rightarrow> Some (Inr (r, e, ())))"

lemma resource_accessor_FileAccessor:
  assumes "fs_sound fs"
  shows "resource_accessor (FileAccessor_access fs) (fs_files fs) (\<lambda>p. True) (\<lambda>a. True)"
proof
  fix a sr bytes
  assume "fs_files fs (getPath sr) = Some bytes"
  from file_access_found [OF assms this] obtain r where
    "file_access fs sr = (Some r, SERVER_OK)" "rd_sound r" "rd_data r = bytes" by blast
  then show "\<exists>r a'. FileAccessor_access fs a sr = Some (Inr (Some r, SERVER_OK, a')) \<and> True
      \<and> rd_sound r \<and> rd_data r = bytes"
    by (auto simp: FileAccessor_access_def)
next
  fix a sr
  assume "fs_files fs (getPath sr) = None"
  then show "\<exists>e a'. FileAccessor_access fs a sr = Some (Inr (None, e, a')) \<and> True \<and> e \<noteq> SERVER_OK"
    by (simp add: FileAccessor_access_def file_access_missing)
qed

text \<open>
  A file system whose file buffers have the size of libstdc++ (\<open>BUFSIZ - 1\<close> bytes): at each
  position the rest of the current block is available. It is sound for every content, which
  gives the file accessor's contract without a hypothesis.
\<close>

definition block_fs :: "(string \<Rightarrow> string option) \<Rightarrow> file_system" where
  "block_fs files p = map_option (\<lambda>bytes. (bytes, \<lambda>i. 8191 - i mod 8191)) (files p)"

lemma fs_sound_block_fs: "fs_sound (block_fs files)"
  by (auto simp: fs_sound_def block_fs_def)

lemma fs_files_block_fs [simp]: "fs_files (block_fs files) = files"
  by (rule ext) (simp add: fs_files_def block_fs_def option.map_comp comp_def option.map_ident)

interpretation fa: resource_accessor "FileAccessor_access (block_fs files)" files "\<lambda>p. True" "\<lambda>a. True"
  for files
  using resource_accessor_FileAccessor [OF fs_sound_block_fs, of files] by simp

section \<open>The contract of a cache\<close>

text \<open>The cache agrees with the files when every entry is the file of that name.\<close>

definition cache_coherent ::
  "('c \<Rightarrow> string \<rightharpoonup> string) \<Rightarrow> (string \<Rightarrow> bool) \<Rightarrow> ('c \<Rightarrow> bool) \<Rightarrow> (string \<Rightarrow> string option)
    \<Rightarrow> 'c option \<Rightarrow> bool" where
  "cache_coherent stored good_key ok files cache =
     (case cache of None \<Rightarrow> True
      | Some c \<Rightarrow> ok c \<and> (\<forall>k v. good_key k \<longrightarrow> stored c k = Some v \<longrightarrow> files k = Some v))"

text \<open>
  A cache may forget an entry at any time, but a hit returns what was put last under that key,
  and nothing it was not given appears. \<open>stored\<close> is the content, \<open>good_key\<close> the keys the
  contract speaks about.
\<close>

locale cache_spec =
  fixes ops :: "'c ICache"
    and stored :: "'c \<Rightarrow> string \<rightharpoonup> string"
    and good_key :: "string \<Rightarrow> bool"
    and inv :: "'c \<Rightarrow> bool"
  assumes get_hit:
      "inv c \<Longrightarrow> good_key k \<Longrightarrow> ic_get ops c k v0 = (True, v, c') \<Longrightarrow> stored c k = Some v"
    and get_keeps:
      "inv c \<Longrightarrow> good_key k \<Longrightarrow> ic_get ops c k v0 = (ok, v, c') \<Longrightarrow>
        inv c' \<and> stored c' \<subseteq>\<^sub>m stored c"
    and put_keeps:
      "inv c \<Longrightarrow> good_key k \<Longrightarrow> ic_put ops c k v = (ok, c') \<Longrightarrow>
        inv c' \<and> (\<forall>k' v'. stored c' k' = Some v' \<longrightarrow> stored c k' = Some v' \<or> (k' = k \<and> v' = v))"
begin

abbreviation coherent :: "(string \<Rightarrow> string option) \<Rightarrow> 'c option \<Rightarrow> bool" where
  "coherent \<equiv> cache_coherent stored good_key inv"

lemma coherent_mono:
  "coherent files (Some c) \<Longrightarrow> inv c' \<Longrightarrow> stored c' \<subseteq>\<^sub>m stored c \<Longrightarrow> coherent files (Some c')"
  by (auto simp: cache_coherent_def map_le_def dom_def)

lemma coherent_put:
  assumes "coherent files (Some c)" and "files k = Some v"
    and "inv c' \<and> (\<forall>k' v'. stored c' k' = Some v' \<longrightarrow> stored c k' = Some v' \<or> (k' = k \<and> v' = v))"
  shows "coherent files (Some c')"
  using assms unfolding cache_coherent_def by fastforce

lemma miss_found:
  assumes "fs_sound fs" and "coherent (fs_files fs) cache" and "good_key (getPath sr)"
    and "fs_files fs (getPath sr) = Some bytes"
  shows "\<exists>r cache'. access_miss ops fs cache sr res = Some (Inr (Some r, SERVER_OK, cache'))
    \<and> coherent (fs_files fs) cache' \<and> rd_sound r \<and> rd_data r = bytes"
proof -
  from file_access_found [OF assms(1,4)] obtain inp where
    f: "file_access fs sr = (Some inp, SERVER_OK)" "rd_sound inp" "rd_data inp = bytes" by blast
  show ?thesis
  proof (cases cache)
    case None
    with f show ?thesis by (simp add: access_miss_def cache_coherent_def)
  next
    case (Some c)
    let ?n = "length bytes" and ?inp = "seekg_beg (seekg_end inp)"
    have n: "tellg (seekg_end inp) = int ?n" using f by (simp add: tellg_seekg_end)
    show ?thesis
    proof (cases "ic_validKey ops (getPath sr) \<and> ic_validVal ops (string_resize res ?n)")
      case False
      with f n Some assms(2) show ?thesis by (auto simp: access_miss_def Let_def)
    next
      case True
      obtain ok c1 where p: "ic_put ops c (getPath sr) bytes = (ok, c1)" by fastforce
      have "fill_loop ?n ?n ?inp (string_resize res ?n) = Some (True, bytes)"
        using fill_loop_reads_all [of ?inp ?n "string_resize res ?n" ?n] f
        by (simp add: rd_rest_seekg_beg)
      with True f n Some p have
        "access_miss ops fs cache sr res = Some (Inr (Some (istringstream bytes), SERVER_OK, Some c1))"
        by (simp add: access_miss_def Let_def)
      moreover have "coherent (fs_files fs) (Some c1)"
      proof -
        from assms(2) Some have "coherent (fs_files fs) (Some c)" and "inv c"
          by (simp_all add: cache_coherent_def)
        from coherent_put [OF this(1) assms(4) put_keeps [OF this(2) assms(3) p]] show ?thesis .
      qed
      ultimately show ?thesis by simp
    qed
  qed
qed

lemma miss_missing:
  "fs_files fs (getPath sr) = None \<Longrightarrow>
   access_miss ops fs cache sr res = Some (Inr (None, INVALID_FILE_PATH, cache))"
  by (cases cache) (simp_all add: access_miss_def file_access_missing)

lemma hit_is_file:
  assumes "coherent files (Some c)" and "good_key k" and "ic_get ops c k v0 = (True, v, c')"
  shows "files k = Some v"
  using assms get_hit [of c k v0 v c'] by (auto simp: cache_coherent_def)

lemma get_coherent:
  assumes "coherent files (Some c)" and "good_key k" and "ic_get ops c k v0 = (ok, v, c')"
  shows "coherent files (Some c')"
proof -
  from assms(1) have "inv c" by (simp add: cache_coherent_def)
  from get_keeps [OF this assms(2,3)] assms(1) show ?thesis by (blast intro: coherent_mono)
qed

text \<open>A cache in front of the file system is invisible: it serves exactly the files.\<close>

lemma cached_accessor:
  assumes "fs_sound fs"
  shows "resource_accessor (cached_access ops fs) (fs_files fs) good_key (coherent (fs_files fs))"
proof
  fix cache sr bytes
  assume a: "coherent (fs_files fs) cache" "good_key (getPath sr)"
    "fs_files fs (getPath sr) = Some bytes"
  show "\<exists>r cache'. cached_access ops fs cache sr = Some (Inr (Some r, SERVER_OK, cache'))
      \<and> coherent (fs_files fs) cache' \<and> rd_sound r \<and> rd_data r = bytes"
  proof (cases cache)
    case None
    with miss_found [OF assms a, of "[]"] show ?thesis by (simp add: cached_access_def)
  next
    case (Some c)
    obtain ok v c1 where g: "ic_get ops c (getPath sr) [] = (ok, v, c1)" using prod_cases3 by blast
    from a Some g have c1: "coherent (fs_files fs) (Some c1)" by (auto intro: get_coherent)
    show ?thesis
    proof (cases ok)
      case True
      with a Some g c1 hit_is_file [of "fs_files fs" c "getPath sr" "[]" v c1] show ?thesis
        by (auto simp: cached_access_def)
    next
      case False
      with miss_found [OF assms c1 a(2,3), of v] Some g show ?thesis by (simp add: cached_access_def)
    qed
  qed
next
  fix cache sr
  assume a: "coherent (fs_files fs) cache" "good_key (getPath sr)" "fs_files fs (getPath sr) = None"
  show "\<exists>e cache'. cached_access ops fs cache sr = Some (Inr (None, e, cache'))
      \<and> coherent (fs_files fs) cache' \<and> e \<noteq> SERVER_OK"
  proof (cases cache)
    case None
    with miss_missing [OF a(3)] a(1) show ?thesis by (simp add: cached_access_def)
  next
    case (Some c)
    obtain ok v c1 where g: "ic_get ops c (getPath sr) [] = (ok, v, c1)" using prod_cases3 by blast
    from a Some g have c1: "coherent (fs_files fs) (Some c1)" by (auto intro: get_coherent)
    from a Some g have "\<not> ok" by (auto dest: hit_is_file)
    with miss_missing [OF a(3), of "Some c1" v] Some g c1 show ?thesis
      by (simp add: cached_access_def)
  qed
qed

end

sublocale cache_spec \<subseteq> ca: resource_accessor "cached_access ops (block_fs files)" files good_key
    "coherent files" for files
  using cached_accessor [OF fs_sound_block_fs, of files] by simp

end
