(* ===== verification/Http_Response.thy ===== *)
theory Http_Response
  imports Http_Request Resource_Accessor
begin

text \<open>
  \<open>HttpUtils/HttpResponse.hpp\<close> and \<open>HttpResponse.cc\<close>: the response object, its builder, the
  choice of status and body for a request, and the serialisation to a socket stream.
\<close>

section \<open>HttpResponse and its builder\<close>

record HttpResponse =
  rp_version :: HttpVersion
  rp_status :: HttpResponseStatus
  rp_header :: header_t
  rp_body :: "body_stream option"

text \<open>
  The defaulted constructor leaves \<open>__version\<close> without a value, and two locals of
  \<open>getResponseFromRequest\<close> are declared without an initialiser. Their first values are arguments
  of the model.
\<close>

record indeterminate =
  un_version :: HttpVersion
  un_err :: server_err_t
  un_code :: statecode_t

definition mk_HttpResponse :: "HttpVersion \<Rightarrow> HttpResponse" where
  "mk_HttpResponse v0 = \<lparr>rp_version = v0, rp_status = default_HttpResponseStatus,
     rp_header = [], rp_body = None\<rparr>"

definition resp_setHttpVersion :: "HttpVersion \<Rightarrow> HttpResponse \<Rightarrow> HttpResponse" where
  "resp_setHttpVersion v r = r\<lparr>rp_version := v\<rparr>"

definition setResponseStatus :: "statecode_t \<Rightarrow> HttpResponse \<Rightarrow> HttpResponse" where
  "setResponseStatus code r =
     (if code \<noteq> st_code (rp_status r) then r\<lparr>rp_status := mk_HttpResponseStatus code\<rparr> else r)"

definition resp_setHeader :: "string \<Rightarrow> string \<Rightarrow> HttpResponse \<Rightarrow> HttpResponse" where
  "resp_setHeader k v r = r\<lparr>rp_header := AList.update k v (rp_header r)\<rparr>"

definition resp_delHeader :: "string \<Rightarrow> HttpResponse \<Rightarrow> HttpResponse" where
  "resp_delHeader k r =
     (if map_of (rp_header r) k \<noteq> None then r\<lparr>rp_header := AList.delete k (rp_header r)\<rparr> else r)"

definition resp_setBody :: "body_stream option \<Rightarrow> HttpResponse \<Rightarrow> HttpResponse" where
  "resp_setBody b r = r\<lparr>rp_body := b\<rparr>"

record HttpResponseBuilder =
  pb_obj :: HttpResponse

definition mk_HttpResponseBuilder :: "HttpVersion \<Rightarrow> HttpResponseBuilder" where
  "mk_HttpResponseBuilder v0 = \<lparr>pb_obj = mk_HttpResponse v0\<rparr>"

definition pb_build :: "HttpResponseBuilder \<Rightarrow> HttpResponse" where
  "pb_build b = pb_obj b"

definition pb_setHttpVersion :: "HttpVersion \<Rightarrow> HttpResponseBuilder \<Rightarrow> HttpResponseBuilder" where
  "pb_setHttpVersion v b = b\<lparr>pb_obj := resp_setHttpVersion v (pb_obj b)\<rparr>"

definition pb_setResponseStatus :: "statecode_t \<Rightarrow> HttpResponseBuilder \<Rightarrow> HttpResponseBuilder" where
  "pb_setResponseStatus code b = b\<lparr>pb_obj := setResponseStatus code (pb_obj b)\<rparr>"

definition pb_setHeader :: "string \<Rightarrow> string \<Rightarrow> HttpResponseBuilder \<Rightarrow> HttpResponseBuilder" where
  "pb_setHeader k v b = b\<lparr>pb_obj := resp_setHeader k v (pb_obj b)\<rparr>"

definition pb_delHeader :: "string \<Rightarrow> HttpResponseBuilder \<Rightarrow> HttpResponseBuilder" where
  "pb_delHeader k b = b\<lparr>pb_obj := resp_delHeader k (pb_obj b)\<rparr>"

definition pb_setBody :: "body_stream option \<Rightarrow> HttpResponseBuilder \<Rightarrow> HttpResponseBuilder" where
  "pb_setBody x b = b\<lparr>pb_obj := resp_setBody x (pb_obj b)\<rparr>"

section \<open>Choosing the response\<close>

text \<open>\<open>IResourceAccessor::access\<close> on an accessor with state \<open>'a\<close>.\<close>

type_synonym 'a accessor = "'a \<Rightarrow> resource \<Rightarrow> (body_stream option \<times> server_err_t \<times> 'a) run"

definition build_obj :: "indeterminate \<Rightarrow> HttpVersion \<Rightarrow> statecode_t \<Rightarrow> body_stream option \<Rightarrow> HttpResponse" where
  "build_obj un version code staticBody =
     pb_build (pb_setBody staticBody (pb_setResponseStatus code (pb_setHttpVersion version
       (mk_HttpResponseBuilder (un_version un)))))"

text \<open>The lines after the decision: the error page of the router, or the default page.\<close>

definition error_page ::
  "indeterminate \<Rightarrow> IRouter \<Rightarrow> 'a accessor \<Rightarrow> 'a \<Rightarrow> HttpVersion \<Rightarrow> statecode_t
    \<Rightarrow> body_stream option \<Rightarrow> server_err_t \<Rightarrow> (HttpResponse \<times> 'a) run" where
  "error_page un rt access a version code staticBody err =
     (let resource = ir_code rt code
      in case (if getType resource \<noteq> INVALID then access a resource
               else Some (Inr (staticBody, err, a))) of
           None \<Rightarrow> None
         | Some (Inl x) \<Rightarrow> Some (Inl x)
         | Some (Inr (body1, err1, a1)) \<Rightarrow>
             Some (Inr (build_obj un version code
               (if body1 = None \<or> err1 \<noteq> SERVER_OK then Some (ir_errpg rt code) else body1), a1)))"

definition getResponseFromRequest ::
  "indeterminate \<Rightarrow> IRouter \<Rightarrow> 'a accessor \<Rightarrow> 'a \<Rightarrow> HttpRequest \<Rightarrow> (HttpResponse \<times> 'a) run" where
  "getResponseFromRequest un rt access a req =
     (let version = rq_version req;
          resource = ir_uri rt (rq_uri req)
      in if version = UNKNOWN_HTTP_VERSION
         then error_page un rt access a HTTP_1_0 505 None (un_err un)
         else if rq_method req = UNKNOWN_REQUEST_METHOD
         then error_page un rt access a version 501 None (un_err un)
         else (case getType resource of
                 STATIC \<Rightarrow>
                   (case access a resource of
                      None \<Rightarrow> None
                    | Some (Inl x) \<Rightarrow> Some (Inl x)
                    | Some (Inr (staticBody, err, a1)) \<Rightarrow>
                        if err = SERVER_OK \<and> staticBody \<noteq> None
                        then Some (Inr (build_obj un version 200 staticBody, a1))
                        else error_page un rt access a1 version 500 staticBody err)
               | CGI \<Rightarrow> Some (Inr (build_obj un version (un_code un) None, a))
               | INVALID \<Rightarrow> error_page un rt access a version 404 None (un_err un)))"

section \<open>Serialising the response\<close>

definition genResponseLine ::
  "SocketOutputStream \<Rightarrow> HttpResponse \<Rightarrow> server_err_t \<times> SocketOutputStream" where
  "genResponseLine out r =
     (let out1 = foldl ostream_write out
            [serialize_version (rp_version r), '' '', to_string (unat (st_code (rp_status r))), '' '',
             st_detail (rp_status r), RESPONSE_ENDLINE]
      in (if os_bad out1 then GEN_RESPONSE_LINE_FAILED else SERVER_OK, out1))"

fun genResponseHead ::
  "SocketOutputStream \<Rightarrow> header_t \<Rightarrow> server_err_t \<times> SocketOutputStream" where
  "genResponseHead out [] = (SERVER_OK, out)"
| "genResponseHead out ((key, v) # hs) =
     (let out1 = foldl ostream_write out [key, '': '', v, RESPONSE_ENDLINE]
      in if os_bad out1 then (GEN_RESPONSE_HEAD_FAILED, out1) else genResponseHead out1 hs)"

definition RP_BFSIZE :: nat where
  "RP_BFSIZE = 4096"

text \<open>
  The copying loop. Its state is the static buffer \<open>_local_static_buff\<close>, the body stream and the
  output. A body that failed is replaced by the buffer as it is, which is zeroed after the failure.
\<close>

partial_function (option) gen_body_loop ::
  "int \<Rightarrow> server_err_t \<Rightarrow> body_stream \<Rightarrow> carray \<Rightarrow> SocketOutputStream
    \<Rightarrow> (server_err_t \<times> body_stream \<times> carray \<times> SocketOutputStream) option" where
  "gen_body_loop rest error body buf out =
     (if rest \<le> 0 then Some (error, body, buf, out)
      else (let want = (if rest < int RP_BFSIZE then nat rest else RP_BFSIZE)
            in case (if \<not> rd_fail body
                     then (case rd_readsome body want of
                             (xs, body1) \<Rightarrow> (length xs, body1, blit 0 xs buf))
                     else (want, body, buf)) of
                 (cur, body1, buf1) \<Rightarrow>
                   (let out1 = ostream_write out (subarr buf1 0 cur);
                        rest1 = rest - int cur;
                        short = (0 < rest1 \<and> rd_fail body1);
                        buf2 = (if short then blit 0 (replicate 4096 (CHR 0x00)) buf1 else buf1);
                        error1 = (if short then GEN_RESPONSE_BODY_FAILED else error)
                    in if os_bad out1 then Some (GEN_RESPONSE_BODY_FAILED, body1, buf2, out1)
                       else gen_body_loop rest1 error1 body1 buf2 out1)))"

definition genResponseBody ::
  "carray \<Rightarrow> SocketOutputStream \<Rightarrow> HttpResponse \<Rightarrow> int
    \<Rightarrow> (server_err_t \<times> HttpResponse \<times> carray \<times> SocketOutputStream) run" where
  "genResponseBody buf out r len =
     (case rp_body r of
        None \<Rightarrow> Some (Inl null_pointer)
      | Some body \<Rightarrow>
          (case gen_body_loop len SERVER_OK (seekg_beg body) buf out of
             None \<Rightarrow> None
           | Some (e, body1, buf1, out1) \<Rightarrow> Some (Inr (e, r\<lparr>rp_body := Some body1\<rparr>, buf1, out1))))"

text \<open>
  \<open>response\<close>: every way out passes the label \<open>out\<close>, which flushes. The headers are written in the
  iteration order of an \<open>unordered_map\<close>, given by \<open>ord\<close>.
\<close>

definition response ::
  "(header_t \<Rightarrow> header_t) \<Rightarrow> carray \<Rightarrow> SocketOutputStream \<Rightarrow> HttpResponse
    \<Rightarrow> (server_err_t \<times> HttpResponse \<times> carray \<times> SocketOutputStream) run" where
  "response ord buf out r =
     (case genResponseLine out r of
        (e1, out1) \<Rightarrow>
          if e1 \<noteq> SERVER_OK \<or> os_bad out1 then Some (Inr (e1, r, buf, ostream_flush out1))
          else (case rp_body r of
             None \<Rightarrow> Some (Inl null_pointer)
           | Some body \<Rightarrow>
               (let body1 = seekg_end body; bodyLen = tellg body1;
                    r1 = r\<lparr>rp_body := Some (seekg_beg body1)\<rparr>
                in if bodyLen = -1
                   then Some (Inr (INVALID_CONTENT_LENGTH, r1, buf, ostream_flush out1))
                   else (let r2 = resp_setHeader ''Content-Length'' (to_string (nat bodyLen)) r1
                         in case genResponseHead out1 (ord (rp_header r2)) of
                              (e2, out2) \<Rightarrow>
                                if e2 \<noteq> SERVER_OK \<or> os_bad out2
                                then Some (Inr (e2, r2, buf, ostream_flush out2))
                                else (let out3 = ostream_write out2 RESPONSE_ENDLINE
                                      in if os_bad out3
                                         then Some (Inr (GEN_RESPONSE_BODY_FAILED, r2, buf,
                                                ostream_flush out3))
                                         else (case genResponseBody buf out3 r2 bodyLen of
                                                 None \<Rightarrow> None
                                               | Some (Inl x) \<Rightarrow> Some (Inl x)
                                               | Some (Inr (e3, r3, buf3, out4)) \<Rightarrow>
                                                   Some (Inr (e3, r3, buf3, ostream_flush out4))))))))"

section \<open>What is sent\<close>

definition field_text :: "string \<times> string \<Rightarrow> string" where
  "field_text f = fst f @ '': '' @ snd f @ RESPONSE_ENDLINE"

definition status_text :: "HttpResponse \<Rightarrow> string" where
  "status_text r = serialize_version (rp_version r) @ '' ''
     @ to_string (unat (st_code (rp_status r))) @ '' '' @ st_detail (rp_status r) @ RESPONSE_ENDLINE"

text \<open>The bytes of a response with body \<open>bytes\<close>, as a function of the response alone.\<close>

definition response_text :: "(header_t \<Rightarrow> header_t) \<Rightarrow> HttpResponse \<Rightarrow> string \<Rightarrow> string" where
  "response_text ord r bytes = status_text r
     @ concat (map field_text (ord (AList.update ''Content-Length'' (to_string (length bytes)) (rp_header r))))
     @ RESPONSE_ENDLINE @ bytes"

lemma genResponseLine_ready:
  assumes "out_ready out"
  obtains out1 where "genResponseLine out r = (SERVER_OK, out1)" and "out_ready out1"
    and "written out1 = written out @ status_text r"
proof -
  let ?ts = "[serialize_version (rp_version r), '' '', to_string (unat (st_code (rp_status r))), '' '',
      st_detail (rp_status r), RESPONSE_ENDLINE]"
  note p = sos.puts_ready [OF assms, of ?ts] sos.puts_content [OF assms, of ?ts]
  have "written (foldl ostream_write out ?ts) = written out @ status_text r"
    by (simp add: p(2) status_text_def del: foldl_Cons)
  with p(1) that show thesis
    by (simp add: genResponseLine_def sos.ready_not_failed Let_def del: foldl_Cons)
qed

lemma genResponseHead_ready:
  "out_ready out \<Longrightarrow> \<exists>out1. genResponseHead out hs = (SERVER_OK, out1) \<and> out_ready out1
     \<and> written out1 = written out @ concat (map field_text hs)"
proof (induction out hs rule: genResponseHead.induct)
  case (1 out)
  then show ?case by simp
next
  case (2 out key v hs)
  let ?ts = "[key, '': '', v, RESPONSE_ENDLINE]" and ?out = "foldl ostream_write out [key, '': '', v, RESPONSE_ENDLINE]"
  note p = sos.puts_ready [OF 2(2), of ?ts] sos.puts_content [OF 2(2), of ?ts]
  have "\<not> os_bad ?out" using p(1) by (rule sos.ready_not_failed)
  with 2(1) [OF refl this p(1)] show ?case
    by (simp add: p(2) field_text_def Let_def del: foldl_Cons)
qed

lemma gen_body_loop_ready:
  assumes "out_ready out" and "rd_sound body" and "rest \<le> length (rd_rest body)"
  shows "\<exists>body1 buf1 out1. gen_body_loop (int rest) error body buf out = Some (error, body1, buf1, out1)
    \<and> out_ready out1 \<and> written out1 = written out @ take rest (rd_rest body)
    \<and> rd_sound body1 \<and> rd_data body1 = rd_data body"
  using assms
proof (induction rest arbitrary: out body buf rule: less_induct)
  case (less rest)
  show ?case
  proof (cases "rest = 0")
    case True
    with less.prems show ?thesis by (simp add: gen_body_loop.simps)
  next
    case False
    define want where "want = (if rest < RP_BFSIZE then rest else RP_BFSIZE)"
    have "0 < want" "want \<le> rest" using False by (auto simp: want_def RP_BFSIZE_def)
    from rd.read_turn [OF less.prems(2) this less.prems(3)] obtain xs body1 where
      r: "rd_readsome body want = (xs, body1)" "rd_sound body1" "rest - length xs < rest"
        "rest - length xs \<le> length (rd_rest body1)" "length xs \<le> want"
        "take rest (rd_rest body) = xs @ take (rest - length xs) (rd_rest body1)" by blast
    let ?out = "ostream_write out xs"
    have o: "out_ready ?out" "written ?out = written out @ xs"
      using less.prems(1) by (auto intro: sos.put_ready sos.put_content)
    from less.IH [OF r(3) o(1) r(2,4), of "blit 0 xs buf"] obtain body2 buf2 out2 where
      ih: "gen_body_loop (int (rest - length xs)) error body1 (blit 0 xs buf) ?out
          = Some (error, body2, buf2, out2)" "out_ready out2"
        "written out2 = written ?out @ take (rest - length xs) (rd_rest body1)"
        "rd_sound body2" "rd_data body2 = rd_data body1" by blast
    have "int (rest - length xs) = int rest - int (length xs)"
      using r(5) \<open>want \<le> rest\<close> by simp
    note ih1 = ih(1) [unfolded this]
    have "gen_body_loop (int rest) error body buf out = Some (error, body2, buf2, out2)"
      using False ih1 less.prems(2) r(1,2) sos.ready_not_failed [OF o(1)]
      by (cases "rest < RP_BFSIZE") (subst gen_body_loop.simps, simp add: want_def Let_def)+
    with ih o(2) r(6) rd_data_readsome [OF r(1)] show ?thesis by simp
  qed
qed

lemma response_reaches:
  assumes "out_ready out" and "rp_body r = Some body" and "rd_sound body"
  shows "\<exists>r' buf' out'. response ord buf out r = Some (Inr (SERVER_OK, r', buf', out'))
    \<and> sk_tx (ss_socket (os_buf out')) = written out @ response_text ord r (rd_data body)
    \<and> written out' = sk_tx (ss_socket (os_buf out')) \<and> out_ready out'"
proof -
  let ?n = "length (rd_data body)"
  let ?r2 = "resp_setHeader ''Content-Length'' (to_string ?n)
      (r\<lparr>rp_body := Some (seekg_beg (seekg_end body))\<rparr>)"
  from genResponseLine_ready [OF assms(1), of r] obtain out1 where
    1: "genResponseLine out r = (SERVER_OK, out1)" "out_ready out1"
      "written out1 = written out @ status_text r" by blast
  from genResponseHead_ready [OF 1(2), of "ord (rp_header ?r2)"] obtain out2 where
    2: "genResponseHead out1 (ord (rp_header ?r2)) = (SERVER_OK, out2)" "out_ready out2"
      "written out2 = written out1 @ concat (map field_text (ord (rp_header ?r2)))" by blast
  let ?out3 = "ostream_write out2 RESPONSE_ENDLINE"
  have 3: "out_ready ?out3" "written ?out3 = written out2 @ RESPONSE_ENDLINE"
    using 2(2) by (auto intro: sos.put_ready sos.put_content)
  have "rd_rest (seekg_beg (seekg_beg (seekg_end body))) = rd_data body"
    using assms(3) by (simp add: rd_rest_seekg_beg)
  with gen_body_loop_ready [OF 3(1), of "seekg_beg (seekg_beg (seekg_end body))" ?n SERVER_OK buf]
    assms(3) obtain body4 buf4 out4 where
    4: "gen_body_loop (int ?n) SERVER_OK (seekg_beg (seekg_beg (seekg_end body))) buf ?out3
        = Some (SERVER_OK, body4, buf4, out4)" "out_ready out4"
      "written out4 = written ?out3 @ rd_data body" by auto
  have "response ord buf out r
      = Some (Inr (SERVER_OK, ?r2\<lparr>rp_body := Some body4\<rparr>, buf4, ostream_flush out4))"
    using 1 2 3(1) 4 assms(2,3)
    by (simp add: response_def genResponseBody_def resp_setHeader_def Let_def tellg_seekg_end
        sos.ready_not_failed)
  moreover have "sk_tx (ss_socket (os_buf (ostream_flush out4))) = written (ostream_flush out4)"
    using ostream_flush_ready(3) [OF 4(2)] by (simp add: written_def)
  moreover have "written (ostream_flush out4) = written out @ response_text ord r (rd_data body)"
    using sos.flush_content [OF 4(2)] 1 2 3 4 by (simp add: response_text_def resp_setHeader_def)
  moreover have "out_ready (ostream_flush out4)" using 4(2) by (rule sos.flush_ready)
  ultimately show ?thesis by auto
qed

text \<open>
  (C14) \<open>response\<close> sends exactly the status line, the header fields with a \<open>Content-Length\<close>
  equal to the length of the body, an empty line and the body: on a socket that accepts what it
  is given, it returns with success, these bytes have reached the socket, and nothing is left
  in the buffer.
\<close>

theorem response_sends:
  assumes "out_ready out" and "rp_body r = Some body" and "rd_sound body"
  shows "\<exists>r' buf' out'. response ord buf out r = Some (Inr (SERVER_OK, r', buf', out'))
    \<and> sk_tx (ss_socket (os_buf out')) = written out @ response_text ord r (rd_data body)
    \<and> out_ready out'"
  using response_reaches [OF assms, of ord buf] by blast

theorem response_sends_witness:
  "let out = mk_SocketOutputStream (mk_SocketStreamBuffer (\<lambda>_. CHR 0x00)
      \<lparr>sk_rx = [], sk_tx = [], sk_snd = (\<lambda>_. 4096), sk_nsnd = 0\<rparr>);
     r = build_obj \<lparr>un_version = HTTP_1_1, un_err = SERVER_OK, un_code = 0\<rparr> HTTP_1_0 404
      (Some (istringstream ''gone''))
   in \<exists>r' buf' out'. response id (\<lambda>_. CHR 0x00) out r = Some (Inr (SERVER_OK, r', buf', out'))
     \<and> sk_tx (ss_socket (os_buf out')) =
         ''HTTP/1.0 404 Not Found'' @ [CHR 0x0A] @ ''Content-Length: 4'' @ [CHR 0x0A, CHR 0x0A] @ ''gone''"
proof -
  let ?out = "mk_SocketOutputStream (mk_SocketStreamBuffer (\<lambda>_. CHR 0x00)
      \<lparr>sk_rx = [], sk_tx = [], sk_snd = (\<lambda>_. 4096), sk_nsnd = 0\<rparr>)"
  let ?r = "build_obj \<lparr>un_version = HTTP_1_1, un_err = SERVER_OK, un_code = 0\<rparr> HTTP_1_0 404
      (Some (istringstream ''gone''))"
  have r: "?r = \<lparr>rp_version = HTTP_1_0, rp_status = \<lparr>st_code = 404, st_detail = ''Not Found''\<rparr>,
      rp_header = [], rp_body = Some (istringstream ''gone'')\<rparr>"
    by (simp add: build_obj_def pb_build_def pb_setBody_def pb_setResponseStatus_def
        pb_setHttpVersion_def mk_HttpResponseBuilder_def mk_HttpResponse_def resp_setBody_def
        setResponseStatus_def resp_setHttpVersion_def default_HttpResponseStatus_def
        mk_HttpResponseStatus_def StatusCodeDetail_def)
  have o: "out_ready ?out" "written ?out = []"
    by (simp_all add: out_ready_def mk_SocketOutputStream_def mk_SocketStreamBuffer_def takes_all_def
        BFSIZE_def written_def)
  have d: "digit_char 4 = CHR ''4''" "digit_char 0 = CHR ''0''"
    "digit_char (Suc (Suc (Suc (Suc 0)))) = CHR ''4''" by code_simp+
  have t: "response_text id ?r ''gone'' =
      ''HTTP/1.0 404 Not Found'' @ [CHR 0x0A] @ ''Content-Length: 4'' @ [CHR 0x0A, CHR 0x0A] @ ''gone''"
    by (simp add: r response_text_def status_text_def field_text_def RESPONSE_ENDLINE_def
        serialize_version_def HttpVersionString_def to_string.simps d)
  from response_sends [OF o(1), of ?r "istringstream ''gone''" id "\<lambda>_. CHR 0x00"] r o(2) t
  show ?thesis by auto
qed

text \<open>
  A response whose body cannot be positioned is answered by its status line alone: the
  error is \<open>INVALID_CONTENT_LENGTH\<close>, no header and no body are sent.
\<close>

theorem response_unseekable:
  assumes "out_ready out" and "rp_body r = Some body" and "rd_fail body"
  shows "\<exists>r' out'. response ord buf out r = Some (Inr (INVALID_CONTENT_LENGTH, r', buf, out'))
    \<and> sk_tx (ss_socket (os_buf out')) = written out @ status_text r"
proof -
  from genResponseLine_ready [OF assms(1), of r] obtain out1 where
    1: "genResponseLine out r = (SERVER_OK, out1)" "out_ready out1"
      "written out1 = written out @ status_text r" by blast
  have "tellg (seekg_end body) = -1" using assms(3) by (simp add: tellg_def seekg_end_def)
  with 1 assms(2) have "response ord buf out r = Some (Inr (INVALID_CONTENT_LENGTH,
      r\<lparr>rp_body := Some (seekg_beg (seekg_end body))\<rparr>, buf, ostream_flush out1))"
    by (simp add: response_def Let_def sos.ready_not_failed)
  moreover have "sk_tx (ss_socket (os_buf (ostream_flush out1))) = written out @ status_text r"
    using ostream_flush_ready [OF 1(2)] 1(3) by (simp add: written_def)
  ultimately show ?thesis by blast
qed

theorem response_unseekable_witness:
  "\<exists>r' out'. response id (\<lambda>_. CHR 0x00)
      (mk_SocketOutputStream (mk_SocketStreamBuffer (\<lambda>_. CHR 0x00)
         \<lparr>sk_rx = [], sk_tx = [], sk_snd = (\<lambda>_. 4096), sk_nsnd = 0\<rparr>))
      ((mk_HttpResponse HTTP_1_1)\<lparr>rp_body := Some ((istringstream ''x'')\<lparr>rd_fail := True\<rparr>)\<rparr>)
    = Some (Inr (INVALID_CONTENT_LENGTH, r', (\<lambda>_. CHR 0x00), out'))"
  using response_unseekable [of "mk_SocketOutputStream (mk_SocketStreamBuffer (\<lambda>_. CHR 0x00)
         \<lparr>sk_rx = [], sk_tx = [], sk_snd = (\<lambda>_. 4096), sk_nsnd = 0\<rparr>)"
      "(mk_HttpResponse HTTP_1_1)\<lparr>rp_body := Some ((istringstream ''x'')\<lparr>rd_fail := True\<rparr>)\<rparr>"
      "(istringstream ''x'')\<lparr>rd_fail := True\<rparr>" id "\<lambda>_. CHR 0x00"]
  by (fastforce simp: out_ready_def mk_SocketOutputStream_def mk_SocketStreamBuffer_def takes_all_def
      BFSIZE_def)

section \<open>What is answered\<close>

text \<open>
  The specification of the choice: status code, version and body as functions of the request,
  the routes and the files alone.
\<close>

definition expected_code :: "IRouter \<Rightarrow> (string \<Rightarrow> string option) \<Rightarrow> HttpRequest \<Rightarrow> statecode_t" where
  "expected_code rt files req =
     (if rq_version req = UNKNOWN_HTTP_VERSION then 505
      else if rq_method req = UNKNOWN_REQUEST_METHOD then 501
      else if getType (ir_uri rt (rq_uri req)) = INVALID then 404
      else if files (getPath (ir_uri rt (rq_uri req))) = None then 500
      else 200)"

definition expected_version :: "HttpRequest \<Rightarrow> HttpVersion" where
  "expected_version req =
     (if rq_version req = UNKNOWN_HTTP_VERSION then HTTP_1_0 else rq_version req)"

definition expected_page :: "IRouter \<Rightarrow> (string \<Rightarrow> string option) \<Rightarrow> statecode_t \<Rightarrow> string" where
  "expected_page rt files code =
     (if getType (ir_code rt code) = INVALID then rd_data (ir_errpg rt code)
      else (case files (getPath (ir_code rt code)) of
              Some bytes \<Rightarrow> bytes | None \<Rightarrow> rd_data (ir_errpg rt code)))"

definition expected_body :: "IRouter \<Rightarrow> (string \<Rightarrow> string option) \<Rightarrow> HttpRequest \<Rightarrow> string" where
  "expected_body rt files req =
     (if expected_code rt files req = 200
      then the (files (getPath (ir_uri rt (rq_uri req))))
      else expected_page rt files (expected_code rt files req))"

text \<open>A response with the given contents whose body can be read.\<close>

definition answers :: "HttpResponse \<Rightarrow> HttpVersion \<Rightarrow> statecode_t \<Rightarrow> string \<Rightarrow> bool" where
  "answers r version code bytes =
     (rp_version r = version \<and> rp_status r = mk_HttpResponseStatus code \<and> rp_header r = []
      \<and> (case rp_body r of Some b \<Rightarrow> rd_sound b \<and> rd_data b = bytes | None \<Rightarrow> False))"

lemma build_obj_eq:
  "build_obj un v code b = \<lparr>rp_version = v, rp_status = mk_HttpResponseStatus code, rp_header = [],
     rp_body = b\<rparr>"
  by (simp add: build_obj_def pb_build_def pb_setBody_def pb_setResponseStatus_def
      pb_setHttpVersion_def mk_HttpResponseBuilder_def mk_HttpResponse_def resp_setBody_def
      setResponseStatus_def resp_setHttpVersion_def default_HttpResponseStatus_def
      mk_HttpResponseStatus_def Let_def split: option.splits)

lemma answers_build_obj:
  "rd_sound b \<Longrightarrow> rd_data b = bytes \<Longrightarrow> answers (build_obj un v code (Some b)) v code bytes"
  by (simp add: answers_def build_obj_eq)

text \<open>The client of the two contracts: a router with static resources and an accessor for their paths.\<close>

locale responder = static_router rt + resource_accessor access files good_path ok
  for rt :: IRouter
    and access :: "'a accessor" and files :: "string \<Rightarrow> string option"
    and good_path :: "string \<Rightarrow> bool" and ok :: "'a \<Rightarrow> bool" +
  assumes uri_good: "good_path (getPath (ir_uri rt uri))"
    and code_good: "good_path (getPath (ir_code rt code))"
begin

lemma error_page_answers:
  assumes "ok a" and "body = None \<or> err \<noteq> SERVER_OK"
  shows "\<exists>r a'. error_page un rt access a v code body err = Some (Inr (r, a')) \<and> ok a'
    \<and> answers r v code (expected_page rt files code)"
proof (cases "getType (ir_code rt code) = INVALID")
  case True
  with assms errpg_sound [of code] show ?thesis
    by (auto simp: error_page_def expected_page_def Let_def intro: answers_build_obj)
next
  case False
  show ?thesis
  proof (cases "files (getPath (ir_code rt code))")
    case None
    from access_missing [OF assms(1) code_good None] False None errpg_sound [of code] show ?thesis
      by (auto simp: error_page_def expected_page_def Let_def intro: answers_build_obj)
  next
    case (Some bytes)
    from access_found [OF assms(1) code_good Some] False Some show ?thesis
      by (auto simp: error_page_def expected_page_def Let_def intro: answers_build_obj)
  qed
qed

lemma getResponse_answers:
  assumes "ok a"
  shows "\<exists>r a'. getResponseFromRequest un rt access a req = Some (Inr (r, a')) \<and> ok a'
    \<and> answers r (expected_version req) (expected_code rt files req) (expected_body rt files req)"
proof (cases "rq_version req = UNKNOWN_HTTP_VERSION \<or> rq_method req = UNKNOWN_REQUEST_METHOD")
  case True
  with error_page_answers [OF assms, of None] show ?thesis
    by (auto simp: getResponseFromRequest_def expected_version_def expected_code_def
        expected_body_def Let_def)
next
  case False
  show ?thesis
  proof (cases rule: uri_cases [of "rq_uri req"])
    case 1
    with False error_page_answers [OF assms, of None] show ?thesis
      by (auto simp: getResponseFromRequest_def expected_version_def expected_code_def
          expected_body_def Let_def)
  next
    case (2 p u)
    show ?thesis
    proof (cases "files (getPath (ir_uri rt (rq_uri req)))")
      case None
      from access_missing [OF assms uri_good None] obtain e a1 where
        a: "access a (ir_uri rt (rq_uri req)) = Some (Inr (None, e, a1))" "ok a1" by blast
      from error_page_answers [OF a(2), of None e un "rq_version req" 500] a False 2 None show ?thesis
        by (auto simp: getResponseFromRequest_def expected_version_def expected_code_def
            expected_body_def Let_def)
    next
      case (Some bytes)
      from access_found [OF assms uri_good Some] False 2 Some show ?thesis
        by (auto simp: getResponseFromRequest_def expected_version_def expected_code_def
            expected_body_def Let_def intro: answers_build_obj)
    qed
  qed
qed

end

interpretation fr: responder "as_IRouter mk_Router" "FileAccessor_access (block_fs files)" files
    "\<lambda>p. True" "\<lambda>a. True" for files
  by unfold_locales simp_all

text \<open>
  A CGI resource, which the router interface allows, is answered with an indeterminate
  status, and sending that response dereferences a null body.
\<close>

theorem cgi_response_undefined:
  assumes "ir_uri rt (rq_uri req) = CGIResource p u"
    and "rq_version req \<noteq> UNKNOWN_HTTP_VERSION" and "rq_method req \<noteq> UNKNOWN_REQUEST_METHOD"
    and "out_ready out"
  shows "\<exists>r. getResponseFromRequest un rt access a req = Some (Inr (r, a))
    \<and> st_code (rp_status r) = un_code un \<and> response ord buf out r = Some (Inl null_pointer)"
proof -
  let ?r = "build_obj un (rq_version req) (un_code un) None"
  from assms(1-3) have "getResponseFromRequest un rt access a req = Some (Inr (?r, a))"
    by (simp add: getResponseFromRequest_def)
  moreover have "st_code (rp_status ?r) = un_code un"
    by (simp add: build_obj_eq mk_HttpResponseStatus_def Let_def split: option.split)
  moreover from genResponseLine_ready [OF assms(4), of ?r] obtain out1 where
    "genResponseLine out ?r = (SERVER_OK, out1)" and "out_ready out1" by blast
  then have "response ord buf out ?r = Some (Inl null_pointer)"
    by (simp add: response_def sos.ready_not_failed build_obj_eq)
  ultimately show ?thesis by blast
qed

theorem cgi_response_undefined_witness:
  "\<exists>r. getResponseFromRequest \<lparr>un_version = HTTP_1_0, un_err = SERVER_OK, un_code = 77\<rparr>
      \<lparr>ir_uri = (\<lambda>u. CGIResource ''./run'' u), ir_code = (\<lambda>c. InvalidResource),
       ir_errpg = getDefaultErrorPage\<rparr>
      (FileAccessor_access (\<lambda>p. None)) () (mk_HttpRequest\<lparr>rq_method := GET, rq_version := HTTP_1_1\<rparr>)
    = Some (Inr (r, ())) \<and> st_code (rp_status r) = 77
    \<and> response id (\<lambda>_. CHR 0x00) (mk_SocketOutputStream (mk_SocketStreamBuffer (\<lambda>_. CHR 0x00)
       \<lparr>sk_rx = [], sk_tx = [], sk_snd = (\<lambda>_. 4096), sk_nsnd = 0\<rparr>)) r = Some (Inl null_pointer)"
  using cgi_response_undefined [of "\<lparr>ir_uri = (\<lambda>u. CGIResource ''./run'' u),
       ir_code = (\<lambda>c. InvalidResource), ir_errpg = getDefaultErrorPage\<rparr>"
      "mk_HttpRequest\<lparr>rq_method := GET, rq_version := HTTP_1_1\<rparr>" "''./run''" "[]"
      "mk_SocketOutputStream (mk_SocketStreamBuffer (\<lambda>_. CHR 0x00)
       \<lparr>sk_rx = [], sk_tx = [], sk_snd = (\<lambda>_. 4096), sk_nsnd = 0\<rparr>)"
      "\<lparr>un_version = HTTP_1_0, un_err = SERVER_OK, un_code = 77\<rparr>"
      "FileAccessor_access (\<lambda>p. None)" "()" id "\<lambda>_. CHR 0x00"]
  by (simp add: mk_HttpRequest_def out_ready_def mk_SocketOutputStream_def mk_SocketStreamBuffer_def
      takes_all_def BFSIZE_def)

end
