(* ===== verification/Event_Poll.thy ===== *)
theory Event_Poll
  imports Prelude Error_Codes
begin

text \<open>
  \<open>Event.hpp\<close>, \<open>Event.cc\<close>, \<open>Epoll.hpp\<close> and \<open>Epoll.cc\<close>: events on file descriptors and the
  poller that keeps a table of them beside the kernel's interest list. The system calls are
  parameters (record \<open>syscalls\<close>); what the poller relies on of them is the locale
  \<open>epoll_kernel\<close>.
\<close>

section \<open>Events\<close>

text \<open>\<open>std::shared_ptr<Event>\<close> is the address of an event in a heap of event objects.\<close>

type_synonym event_sptr = nat
type_synonym worker_ptr = nat

record Event =
  ev_fd :: int
  ev_ev :: "32 word"
  ev_rev :: "32 word"
  ev_lastev :: "32 word"
  ev_worker :: "worker_ptr option"

type_synonym event_heap = "event_sptr \<Rightarrow> Event"

definition mk_Event :: "int \<Rightarrow> 32 word \<Rightarrow> Event" where
  "mk_Event fd ev = \<lparr>ev_fd = fd, ev_ev = ev, ev_rev = 0, ev_lastev = 0, ev_worker = None\<rparr>"

definition setEvent :: "32 word \<Rightarrow> Event \<Rightarrow> Event" where
  "setEvent x e = e\<lparr>ev_ev := x\<rparr>"

definition setResponseEvent :: "32 word \<Rightarrow> Event \<Rightarrow> Event" where
  "setResponseEvent x e = e\<lparr>ev_rev := x\<rparr>"

definition setLastEvent :: "32 word \<Rightarrow> Event \<Rightarrow> Event" where
  "setLastEvent x e = e\<lparr>ev_lastev := x\<rparr>"

definition setWorker :: "worker_ptr option \<Rightarrow> Event \<Rightarrow> Event" where
  "setWorker w e = e\<lparr>ev_worker := w\<rparr>"

section \<open>System calls\<close>

datatype ctl_op = EPOLL_CTL_ADD | EPOLL_CTL_DEL | EPOLL_CTL_MOD

text \<open>The system calls of the event layer over a kernel state \<open>'k\<close>; a result of \<open>-1\<close> is an error.\<close>

record 'k syscalls =
  epoll_create1 :: "'k \<Rightarrow> int \<times> 'k"
  epoll_ctl :: "'k \<Rightarrow> int \<Rightarrow> ctl_op \<Rightarrow> int \<Rightarrow> 32 word \<Rightarrow> int \<times> 'k"
  epoll_wait :: "'k \<Rightarrow> int \<Rightarrow> int \<Rightarrow> int \<Rightarrow> (int \<times> (int \<times> 32 word) list) \<times> 'k"
  sys_accept :: "'k \<Rightarrow> int \<Rightarrow> int \<times> 'k"
  sys_getfl :: "'k \<Rightarrow> int \<Rightarrow> int \<times> 'k"
  sys_setfl :: "'k \<Rightarrow> int \<Rightarrow> int \<Rightarrow> 'k"
  sys_close :: "'k \<Rightarrow> int \<Rightarrow> 'k"
  sys_socket :: "'k \<Rightarrow> int \<times> 'k"
  sys_bind :: "'k \<Rightarrow> int \<Rightarrow> 32 word \<Rightarrow> 16 word \<Rightarrow> int \<times> 'k"
  sys_listen :: "'k \<Rightarrow> int \<Rightarrow> 16 word \<Rightarrow> int \<times> 'k"

text \<open>The destructor of an event closes its descriptor.\<close>

definition destroy_Event :: "'k syscalls \<Rightarrow> 'k \<Rightarrow> Event \<Rightarrow> 'k" where
  "destroy_Event sys k e = sys_close sys k (ev_fd e)"

section \<open>Epoll\<close>

record Epoll =
  ep_epfd :: int
  ep_maxFDS :: int
  ep_events :: "(int \<times> event_sptr) list"

definition validEpollFD :: "Epoll \<Rightarrow> bool" where
  "validEpollFD ep = (3 \<le> ep_epfd ep)"

definition mk_Epoll :: "'k syscalls \<Rightarrow> 'k \<Rightarrow> int \<Rightarrow> server_err_t \<times> Epoll \<times> 'k" where
  "mk_Epoll sys k n =
     (case epoll_create1 sys k of
        (fd, k1) \<Rightarrow> (if fd = -1 then INVALID_EPOLL_FD else SERVER_OK,
                    \<lparr>ep_epfd = fd, ep_maxFDS = n, ep_events = []\<rparr>, k1))"

definition maxFDS :: "Epoll \<Rightarrow> int" where
  "maxFDS ep = ep_maxFDS ep"

definition activeFDS :: "Epoll \<Rightarrow> int" where
  "activeFDS ep = int (length (ep_events ep))"

definition epollAddEvent ::
  "'k syscalls \<Rightarrow> 'k \<Rightarrow> event_heap \<Rightarrow> event_sptr \<Rightarrow> Epoll \<Rightarrow> server_err_t \<times> Epoll \<times> 'k" where
  "epollAddEvent sys k heap e ep =
     (let fd = ev_fd (heap e)
      in if maxFDS ep \<le> activeFDS ep then (MAX_EVENT_NUM, ep, k)
         else if \<not> validEpollFD ep then (INVALID_EPOLL_FD, ep, k)
         else (case epoll_ctl sys k (ep_epfd ep) EPOLL_CTL_ADD fd (ev_ev (heap e)) of
                 (r, k1) \<Rightarrow>
                   if r = -1 then (EPOLL_EVENT_ADD_FAILED, ep, k1)
                   else (SERVER_OK, ep\<lparr>ep_events := AList.update fd e (ep_events ep)\<rparr>, k1)))"

definition epollDelEvent ::
  "'k syscalls \<Rightarrow> 'k \<Rightarrow> event_heap \<Rightarrow> event_sptr \<Rightarrow> Epoll \<Rightarrow> server_err_t \<times> Epoll \<times> 'k" where
  "epollDelEvent sys k heap e ep =
     (let fd = ev_fd (heap e)
      in if \<not> validEpollFD ep then (INVALID_EPOLL_FD, ep, k)
         else (case epoll_ctl sys k (ep_epfd ep) EPOLL_CTL_DEL fd (ev_ev (heap e)) of
                 (r, k1) \<Rightarrow>
                   if r = -1 then (EPOLL_EVENT_DEL_FAILED, ep, k1)
                   else (SERVER_OK, ep\<lparr>ep_events := AList.delete fd (ep_events ep)\<rparr>, k1)))"

definition epollModEvent ::
  "'k syscalls \<Rightarrow> 'k \<Rightarrow> event_heap \<Rightarrow> event_sptr \<Rightarrow> Epoll \<Rightarrow> server_err_t \<times> Epoll \<times> 'k" where
  "epollModEvent sys k heap e ep =
     (if \<not> validEpollFD ep then (INVALID_EPOLL_FD, ep, k)
      else (case epoll_ctl sys k (ep_epfd ep) EPOLL_CTL_MOD (ev_fd (heap e)) (ev_ev (heap e)) of
              (r, k1) \<Rightarrow> if r = -1 then (EPOLL_EVENT_MOD_FAILED, ep, k1) else (SERVER_OK, ep, k1)))"

text \<open>The loop of \<open>epollWait\<close> over the accepted events, with the table of the poller.\<close>

fun wait_loop ::
  "(int \<times> event_sptr) list \<Rightarrow> (int \<times> 32 word) list \<Rightarrow> event_heap \<Rightarrow> event_sptr list \<times> event_heap" where
  "wait_loop table [] heap = ([], heap)"
| "wait_loop table ((fd, evs) # xs) heap =
     (case map_of table fd of
        None \<Rightarrow> wait_loop table xs heap
      | Some cur \<Rightarrow>
          (case wait_loop table xs (heap(cur := setResponseEvent evs (heap cur))) of
             (ret, heap1) \<Rightarrow> (cur # ret, heap1)))"

definition epollWait ::
  "'k syscalls \<Rightarrow> 'k \<Rightarrow> event_heap \<Rightarrow> int \<Rightarrow> Epoll
    \<Rightarrow> server_err_t \<times> event_sptr list \<times> event_heap \<times> 'k" where
  "epollWait sys k heap timeout ep =
     (if \<not> validEpollFD ep then (INVALID_EPOLL_FD, [], heap, k)
      else (case epoll_wait sys k (ep_epfd ep) (maxFDS ep) timeout of
              ((num, accepted), k1) \<Rightarrow>
                if num = -1 then (EPOLL_WAIT_FAILED, [], heap, k1)
                else (case wait_loop (ep_events ep) (take (nat num) accepted) heap of
                        (ret, heap1) \<Rightarrow> (SERVER_OK, ret, heap1, k1))))"

definition destroy_Epoll :: "'k syscalls \<Rightarrow> 'k \<Rightarrow> Epoll \<Rightarrow> Epoll \<times> 'k" where
  "destroy_Epoll sys k ep =
     (ep\<lparr>ep_maxFDS := 0, ep_events := []\<rparr>, sys_close sys k (ep_epfd ep))"

section \<open>The contract of the kernel\<close>

text \<open>
  \<open>interest k epfd\<close> is the interest list of an epoll instance, empty when it is created. Adding fails for a descriptor that
  is already there, deleting for one that is not; an error changes nothing; waiting reports at
  most the number of events asked for, each on a descriptor of the interest list.
\<close>

locale epoll_kernel =
  fixes sys :: "'k syscalls"
    and interest :: "'k \<Rightarrow> int \<Rightarrow> int set"
  assumes create_fresh: "epoll_create1 sys k = (fd, k') \<Longrightarrow> fd \<noteq> -1 \<Longrightarrow> interest k' fd = {}"
    and ctl_error: "epoll_ctl sys k epfd op fd ev = (-1, k') \<Longrightarrow> interest k' = interest k"
    and ctl_add: "epoll_ctl sys k epfd EPOLL_CTL_ADD fd ev = (r, k') \<Longrightarrow> r \<noteq> -1 \<Longrightarrow>
        fd \<notin> interest k epfd \<and> interest k' = (interest k)(epfd := insert fd (interest k epfd))"
    and ctl_del: "epoll_ctl sys k epfd EPOLL_CTL_DEL fd ev = (r, k') \<Longrightarrow> r \<noteq> -1 \<Longrightarrow>
        fd \<in> interest k epfd \<and> interest k' = (interest k)(epfd := interest k epfd - {fd})"
    and ctl_mod: "epoll_ctl sys k epfd EPOLL_CTL_MOD fd ev = (r, k') \<Longrightarrow> interest k' = interest k"
    and wait_interest: "epoll_wait sys k epfd n timeout = ((num, xs), k') \<Longrightarrow> interest k' = interest k"
    and wait_reports: "epoll_wait sys k epfd n timeout = ((num, xs), k') \<Longrightarrow> num \<noteq> -1 \<Longrightarrow>
        0 \<le> num \<and> num \<le> n \<and> length xs = nat num \<and> fst ` set xs \<subseteq> interest k epfd"

text \<open>The table of the poller mirrors the interest list and stays within its limit.\<close>

definition epoll_inv :: "('k \<Rightarrow> int \<Rightarrow> int set) \<Rightarrow> event_heap \<Rightarrow> 'k \<times> Epoll \<Rightarrow> bool" where
  "epoll_inv interest heap s =
     (case s of (k, ep) \<Rightarrow>
        distinct (map fst (ep_events ep))
        \<and> fst ` set (ep_events ep) = interest k (ep_epfd ep)
        \<and> (\<forall>(fd, e) \<in> set (ep_events ep). ev_fd (heap e) = fd)
        \<and> activeFDS ep \<le> maxFDS ep)"

text \<open>The calls the threads make on one poller, in any order.\<close>

inductive epoll_step :: "'k syscalls \<Rightarrow> event_heap \<Rightarrow> 'k \<times> Epoll \<Rightarrow> 'k \<times> Epoll \<Rightarrow> bool"
  for sys heap where
  ep_add: "epollAddEvent sys k heap e ep = (err, ep', k') \<Longrightarrow> epoll_step sys heap (k, ep) (k', ep')"
| ep_del: "epollDelEvent sys k heap e ep = (err, ep', k') \<Longrightarrow> epoll_step sys heap (k, ep) (k', ep')"
| ep_mod: "epollModEvent sys k heap e ep = (err, ep', k') \<Longrightarrow> epoll_step sys heap (k, ep) (k', ep')"
| ep_wait: "epollWait sys k heap timeout ep = (err, ret, heap', k') \<Longrightarrow>
    epoll_step sys heap (k, ep) (k', ep)"

context epoll_kernel
begin

lemma add_inv:
  assumes "epoll_inv interest heap (k, ep)" and "epollAddEvent sys k heap e ep = (err, ep', k')"
  shows "epoll_inv interest heap (k', ep')"
proof (cases "err = SERVER_OK")
  case True
  with assms(2) obtain r where
    c: "epoll_ctl sys k (ep_epfd ep) EPOLL_CTL_ADD (ev_fd (heap e)) (ev_ev (heap e)) = (r, k')" "r \<noteq> -1"
      "ep' = ep\<lparr>ep_events := AList.update (ev_fd (heap e)) e (ep_events ep)\<rparr>" "activeFDS ep < maxFDS ep"
    by (auto simp: epollAddEvent_def Let_def split: if_splits prod.splits)
  note a = ctl_add [OF c(1,2)]
  with assms(1) have f: "ev_fd (heap e) \<notin> fst ` set (ep_events ep)" by (auto simp: epoll_inv_def)
  with c(3) have "ep' = ep\<lparr>ep_events := ep_events ep @ [(ev_fd (heap e), e)]\<rparr>"
    by (simp add: update_fresh)
  with assms(1) a f c(4) show ?thesis
    by (auto simp: epoll_inv_def activeFDS_def maxFDS_def)
next
  case False
  with assms show ?thesis
    by (auto simp: epollAddEvent_def epoll_inv_def Let_def dest: ctl_error split: if_splits prod.splits)
qed

lemma del_inv:
  assumes "epoll_inv interest heap (k, ep)" and "epollDelEvent sys k heap e ep = (err, ep', k')"
  shows "epoll_inv interest heap (k', ep')"
proof (cases "err = SERVER_OK")
  case True
  with assms(2) obtain r where
    c: "epoll_ctl sys k (ep_epfd ep) EPOLL_CTL_DEL (ev_fd (heap e)) (ev_ev (heap e)) = (r, k')" "r \<noteq> -1"
      "ep' = ep\<lparr>ep_events := AList.delete (ev_fd (heap e)) (ep_events ep)\<rparr>"
    by (auto simp: epollDelEvent_def Let_def split: if_splits prod.splits)
  have "set (AList.delete (ev_fd (heap e)) (ep_events ep)) \<subseteq> set (ep_events ep)"
    by (auto simp: AList.delete_eq)
  with assms(1) ctl_del [OF c(1,2)] c(3) show ?thesis
    using length_delete_le [of "ev_fd (heap e)" "ep_events ep"]
    by (auto simp: epoll_inv_def activeFDS_def maxFDS_def keys_delete distinct_delete)
next
  case False
  with assms show ?thesis
    by (auto simp: epollDelEvent_def epoll_inv_def Let_def dest: ctl_error split: if_splits prod.splits)
qed

lemma mod_inv:
  assumes "epoll_inv interest heap (k, ep)" and "epollModEvent sys k heap e ep = (err, ep', k')"
  shows "epoll_inv interest heap (k', ep')"
  using assms by (auto simp: epollModEvent_def epoll_inv_def dest: ctl_mod split: if_splits prod.splits)

lemma wait_inv:
  assumes "epoll_inv interest heap (k, ep)" and "epollWait sys k heap t ep = (err, ret, heap', k')"
  shows "epoll_inv interest heap (k', ep)"
  using assms
  by (auto simp: epollWait_def epoll_inv_def dest: wait_interest split: if_splits prod.splits)

end

sublocale epoll_kernel \<subseteq> poller: invariant_system "epoll_step sys heap" "epoll_inv interest heap"
  for heap
proof
  fix s t
  assume "epoll_inv interest heap s" and "epoll_step sys heap s t"
  from this(2,1) show "epoll_inv interest heap t"
    by (induction rule: epoll_step.induct) (blast intro: add_inv del_inv mod_inv wait_inv)+
qed

context epoll_kernel
begin

lemma run_inv:
  "(epoll_step sys heap)\<^sup>*\<^sup>* s t \<Longrightarrow> epoll_inv interest heap s \<Longrightarrow> epoll_inv interest heap t"
  by (rule poller.steps_inv)

end

section \<open>A reference kernel\<close>

text \<open>
  The laws are satisfiable: a kernel whose state is the association of epoll instances with their
  interest lists, where every instance is always ready on all its descriptors.
\<close>

definition ref_ctl ::
  "(int \<Rightarrow> int list) \<Rightarrow> int \<Rightarrow> ctl_op \<Rightarrow> int \<Rightarrow> int \<times> (int \<Rightarrow> int list)" where
  "ref_ctl k epfd op fd =
     (case op of
        EPOLL_CTL_ADD \<Rightarrow> if fd \<in> set (k epfd) then (-1, k) else (0, k(epfd := k epfd @ [fd]))
      | EPOLL_CTL_DEL \<Rightarrow> if fd \<in> set (k epfd) then (0, k(epfd := removeAll fd (k epfd))) else (-1, k)
      | EPOLL_CTL_MOD \<Rightarrow> if fd \<in> set (k epfd) then (0, k) else (-1, k))"

definition ref_syscalls :: "(int \<Rightarrow> int list) syscalls" where
  "ref_syscalls = \<lparr>
     epoll_create1 = (\<lambda>k. (3, k(3 := []))),
     epoll_ctl = (\<lambda>k epfd op fd ev. ref_ctl k epfd op fd),
     epoll_wait = (\<lambda>k epfd n t. if n \<le> 0 then ((-1, []), k)
        else (let xs = take (nat n) (k epfd) in ((int (length xs), map (\<lambda>fd. (fd, 1)) xs), k))),
     sys_accept = (\<lambda>k fd. (-1, k)),
     sys_getfl = (\<lambda>k fd. (0, k)),
     sys_setfl = (\<lambda>k fd fl. k),
     sys_close = (\<lambda>k fd. (\<lambda>epfd. removeAll fd (k epfd))),
     sys_socket = (\<lambda>k. (4, k)),
     sys_bind = (\<lambda>k fd a p. (0, k)),
     sys_listen = (\<lambda>k fd n. (0, k))\<rparr>"

interpretation refk: epoll_kernel ref_syscalls "\<lambda>k epfd. set (k epfd)"
proof unfold_locales
  fix k epfd n t num xs k'
  assume "epoll_wait ref_syscalls k epfd n t = ((num, xs), k')" and "num \<noteq> -1"
  then show "0 \<le> num \<and> num \<le> n \<and> length xs = nat num \<and> fst ` set xs \<subseteq> set (k epfd)"
    by (auto simp: ref_syscalls_def Let_def dest: in_set_takeD split: if_splits)
qed (auto simp: ref_syscalls_def ref_ctl_def Let_def intro!: ext split: ctl_op.splits if_splits)

section \<open>Properties\<close>

lemma mk_Epoll_inv:
  assumes "epoll_kernel sys interest" and "mk_Epoll sys k n = (SERVER_OK, ep, k')" and "0 \<le> n"
  shows "epoll_inv interest heap (k', ep)"
proof -
  from assms(2) have "epoll_create1 sys k = (ep_epfd ep, k')" "ep_epfd ep \<noteq> -1"
    "ep_events ep = []" "ep_maxFDS ep = n"
    by (auto simp: mk_Epoll_def split: prod.splits if_splits)
  with epoll_kernel.create_fresh [OF assms(1)] assms(3) show ?thesis
    by (simp add: epoll_inv_def activeFDS_def maxFDS_def)
qed

text \<open>
  (C19) The poller's table is the kernel's interest list: after any sequence of additions,
  removals, modifications and waits on a new poller, whether they succeed or fail, exactly the
  registered descriptors are in the table, each with the event of that descriptor, and there are
  never more than the limit.
\<close>

theorem epoll_mirrors_kernel:
  assumes "epoll_kernel sys interest" and "mk_Epoll sys k0 n = (SERVER_OK, ep0, k1)" and "0 \<le> n"
    and "(epoll_step sys heap)\<^sup>*\<^sup>* (k1, ep0) (k, ep)"
  shows "fst ` set (ep_events ep) = interest k (ep_epfd ep)
    \<and> distinct (map fst (ep_events ep))
    \<and> (\<forall>fd e. map_of (ep_events ep) fd = Some e \<longrightarrow> ev_fd (heap e) = fd)
    \<and> activeFDS ep \<le> maxFDS ep"
proof -
  have "epoll_inv interest heap (k, ep)"
    using epoll_kernel.run_inv [OF assms(1,4) mk_Epoll_inv [OF assms(1-3)]] .
  then show ?thesis by (auto simp: epoll_inv_def dest: map_of_SomeD)
qed

theorem epoll_mirrors_kernel_witness:
  "let heap = (\<lambda>e. mk_Event (int e) 1);
       (err, ep, k) = epollAddEvent ref_syscalls (\<lambda>_. []) heap 7
          \<lparr>ep_epfd = 3, ep_maxFDS = 2, ep_events = []\<rparr>
   in fst ` set (ep_events ep) = set (k 3) \<and> err = SERVER_OK"
proof -
  let ?heap = "\<lambda>e. mk_Event (int e) 1"
  let ?ep = "\<lparr>ep_epfd = 3, ep_maxFDS = 2, ep_events = [(7, 7)]\<rparr>"
  have m: "mk_Epoll ref_syscalls (\<lambda>_. []) 2
      = (SERVER_OK, \<lparr>ep_epfd = 3, ep_maxFDS = 2, ep_events = []\<rparr>, \<lambda>_. [])"
    by (simp add: mk_Epoll_def ref_syscalls_def fun_eq_iff)
  have a: "epollAddEvent ref_syscalls (\<lambda>_. []) ?heap 7 \<lparr>ep_epfd = 3, ep_maxFDS = 2, ep_events = []\<rparr>
      = (SERVER_OK, ?ep, (\<lambda>_. [])(3 := [7]))"
    by (simp add: epollAddEvent_def maxFDS_def activeFDS_def validEpollFD_def mk_Event_def
        ref_syscalls_def ref_ctl_def)
  have "(epoll_step ref_syscalls ?heap)\<^sup>*\<^sup>* (\<lambda>_. [], \<lparr>ep_epfd = 3, ep_maxFDS = 2, ep_events = []\<rparr>)
      ((\<lambda>_. [])(3 := [7]), ?ep)"
    by (rule r_into_rtranclp) (rule ep_add [OF a])
  from epoll_mirrors_kernel [OF refk.epoll_kernel_axioms m _ this] a show ?thesis by simp
qed

lemma wait_loop_spec:
  "wait_loop table xs heap = (ret, heap') \<Longrightarrow> fst ` set xs \<subseteq> fst ` set table \<Longrightarrow>
   ret = map (\<lambda>(fd, evs). the (map_of table fd)) xs
   \<and> (\<forall>e. heap' e = setResponseEvent (ev_rev (heap' e)) (heap e))"
proof (induction table xs heap arbitrary: ret heap' rule: wait_loop.induct)
  case (1 table heap)
  then show ?case by (simp add: setResponseEvent_def)
next
  case (2 table fd evs xs heap)
  from 2(4) obtain cur where c: "map_of table fd = Some cur"
    by (cases "map_of table fd") (auto simp: map_of_eq_None_iff)
  let ?heap = "heap(cur := setResponseEvent evs (heap cur))"
  obtain ret1 heap1 where w: "wait_loop table xs ?heap = (ret1, heap1)" by fastforce
  with 2(3) c have r: "ret = cur # ret1" "heap' = heap1" by simp_all
  from 2(2) [OF c w] 2(4) have ih: "ret1 = map (\<lambda>(fd, evs). the (map_of table fd)) xs"
    "\<And>e. heap1 e = setResponseEvent (ev_rev (heap1 e)) (?heap e)" by auto
  have "heap1 e = setResponseEvent (ev_rev (heap1 e)) (heap e)" for e
    using ih(2) [of e] by (simp add: setResponseEvent_def split: if_splits)
  with r ih(1) c show ?case by simp
qed

text \<open>
  \<open>epollWait\<close> delivers exactly what the kernel reports: with the table in step with the
  interest list, one registered event per report, in the order of the reports, at most the
  limit, and only the response mask of an event is changed.
\<close>

theorem epollWait_delivers:
  assumes "epoll_kernel sys interest" and "epoll_inv interest heap (k, ep)"
    and "epoll_wait sys k (ep_epfd ep) (maxFDS ep) t = ((num, xs), k')" and "num \<noteq> -1"
    and "validEpollFD ep"
  shows "\<exists>heap'. epollWait sys k heap t ep =
      (SERVER_OK, map (\<lambda>(fd, evs). the (map_of (ep_events ep) fd)) xs, heap', k')
    \<and> int (length xs) \<le> maxFDS ep
    \<and> (\<forall>e. heap' e = setResponseEvent (ev_rev (heap' e)) (heap e))"
proof -
  from epoll_kernel.wait_reports [OF assms(1,3,4)] have
    n: "num \<le> maxFDS ep" "0 \<le> num" "length xs = nat num" "fst ` set xs \<subseteq> interest k (ep_epfd ep)"
    by auto
  with assms(2) have "fst ` set xs \<subseteq> fst ` set (ep_events ep)" by (auto simp: epoll_inv_def)
  moreover obtain ret heap' where w: "wait_loop (ep_events ep) xs heap = (ret, heap')" by fastforce
  moreover from w assms(3-5) n(3) have "epollWait sys k heap t ep = (SERVER_OK, ret, heap', k')"
    by (simp add: epollWait_def)
  ultimately show ?thesis using wait_loop_spec [OF w] n by auto
qed

theorem epollWait_delivers_witness:
  "\<exists>heap'. epollWait ref_syscalls ((\<lambda>_. [])(3 := [7, 9])) (\<lambda>e. mk_Event (int e) 1) (-1)
      \<lparr>ep_epfd = 3, ep_maxFDS = 2, ep_events = [(9, 9), (7, 7)]\<rparr>
    = (SERVER_OK, [7, 9], heap', (\<lambda>_. [])(3 := [7, 9]))"
proof -
  let ?k = "(\<lambda>_. [])(3 := [7, 9])" and ?heap = "\<lambda>e. mk_Event (int e) 1"
  let ?ep = "\<lparr>ep_epfd = 3, ep_maxFDS = 2, ep_events = [(9, 9), (7, 7)]\<rparr>"
  have "epoll_inv (\<lambda>k epfd. set (k epfd)) ?heap (?k, ?ep)"
    by (auto simp: epoll_inv_def mk_Event_def activeFDS_def maxFDS_def)
  moreover have "epoll_wait ref_syscalls ?k (ep_epfd ?ep) (maxFDS ?ep) (-1) = ((2, [(7, 1), (9, 1)]), ?k)"
    by (simp add: ref_syscalls_def maxFDS_def)
  ultimately show ?thesis
    using epollWait_delivers [OF refk.epoll_kernel_axioms, of ?heap ?k ?ep "-1" 2 "[(7, 1), (9, 1)]" ?k]
    by (auto simp: validEpollFD_def)
qed

end
