(* ===== verification/Event_Worker.thy ===== *)
theory Event_Worker
  imports Event_Poll "HOL-Library.Multiset"
begin

text \<open>
  \<open>Worker.hpp\<close>, \<open>Worker.cc\<close>, \<open>EventHandler.hpp\<close>, \<open>ListenEventHandler.hpp\<close> and
  \<open>ListenEventHandler.cc\<close>: a worker thread around a poller and a handler, and the handler that
  accepts clients and distributes them over the IO workers.
\<close>

section \<open>Worker\<close>

record Worker =
  wk_running :: bool
  wk_poller :: Epoll

definition mk_Worker :: "Epoll \<Rightarrow> Worker" where
  "mk_Worker ep = \<lparr>wk_running = False, wk_poller = ep\<rparr>"

definition worker_addEvent ::
  "'k syscalls \<Rightarrow> 'k \<Rightarrow> event_heap \<Rightarrow> worker_ptr \<Rightarrow> event_sptr \<Rightarrow> Worker
    \<Rightarrow> server_err_t \<times> Worker \<times> event_heap \<times> 'k" where
  "worker_addEvent sys k heap this e w =
     (let heap1 = heap(e := setWorker (Some this) (heap e))
      in case epollAddEvent sys k heap1 e (wk_poller w) of
           (err, ep, k1) \<Rightarrow>
             (err, w\<lparr>wk_poller := ep\<rparr>,
              if err \<noteq> SERVER_OK then heap1(e := setWorker None (heap1 e)) else heap1, k1))"

definition worker_delEvent ::
  "'k syscalls \<Rightarrow> 'k \<Rightarrow> event_heap \<Rightarrow> event_sptr \<Rightarrow> Worker \<Rightarrow> server_err_t \<times> Worker \<times> 'k" where
  "worker_delEvent sys k heap e w =
     (case epollDelEvent sys k heap e (wk_poller w) of
        (err, ep, k1) \<Rightarrow> (err, w\<lparr>wk_poller := ep\<rparr>, k1))"

definition worker_modEvent ::
  "'k syscalls \<Rightarrow> 'k \<Rightarrow> event_heap \<Rightarrow> event_sptr \<Rightarrow> Worker \<Rightarrow> server_err_t \<times> Worker \<times> 'k" where
  "worker_modEvent sys k heap e w =
     (case epollModEvent sys k heap e (wk_poller w) of
        (err, ep, k1) \<Rightarrow> (err, w\<lparr>wk_poller := ep\<rparr>, k1))"

definition worker_maxFDS :: "Worker \<Rightarrow> int" where
  "worker_maxFDS w = maxFDS (wk_poller w)"

definition worker_activeFDS :: "Worker \<Rightarrow> int" where
  "worker_activeFDS w = activeFDS (wk_poller w)"

definition worker_stop :: "Worker \<Rightarrow> Worker" where
  "worker_stop w = w\<lparr>wk_running := False\<rparr>"

definition worker_isRunning :: "Worker \<Rightarrow> bool" where
  "worker_isRunning w = wk_running w"

text \<open>
  \<open>run\<close> starts the thread; \<open>alive\<close> tells whether the thread is still in its loop when the flag is
  read back.
\<close>

definition worker_run :: "bool \<Rightarrow> Worker \<Rightarrow> server_err_t \<times> Worker" where
  "worker_run alive w =
     (if wk_running w then (WORKER_ALREADY_RUNNING, w)
      else (if alive then SERVER_OK else WORKER_START_FAILED, w\<lparr>wk_running := alive\<rparr>))"

section \<open>The loop of the worker thread\<close>

text \<open>
  A handler (\<open>IEventHandler::handle\<close>) works on the kernel, the event objects, its worker and
  whatever else it reaches (\<open>'x\<close>).
\<close>

type_synonym ('k, 'x) wstate = "'k \<times> event_heap \<times> Worker \<times> 'x"
type_synonym ('k, 'x) handler = "event_sptr \<Rightarrow> ('k, 'x) wstate \<Rightarrow> ('k, 'x) wstate run"

fun handle_events :: "('k, 'x) handler \<Rightarrow> event_sptr list \<Rightarrow> ('k, 'x) wstate \<Rightarrow> ('k, 'x) wstate run" where
  "handle_events hnd [] s = Some (Inr s)"
| "handle_events hnd (e # es) s =
     (case hnd e s of
        None \<Rightarrow> None
      | Some (Inl x) \<Rightarrow> Some (Inl x)
      | Some (Inr s1) \<Rightarrow> handle_events hnd es s1)"

text \<open>
  \<open>events.clear()\<close> drops the references of the batch: an event that is no longer in the table of
  the poller has lost its last owner and is destroyed.
\<close>

definition clear_events ::
  "'k syscalls \<Rightarrow> event_heap \<Rightarrow> Worker \<Rightarrow> event_sptr list \<Rightarrow> 'k \<Rightarrow> 'k" where
  "clear_events sys heap w es k =
     foldl (\<lambda>k e. if e \<in> snd ` set (ep_events (wk_poller w)) then k else destroy_Event sys k (heap e))
       k (remdups es)"

definition worker_eventPoll ::
  "'k syscalls \<Rightarrow> 'k \<Rightarrow> event_heap \<Rightarrow> int \<Rightarrow> Worker
    \<Rightarrow> server_err_t \<times> event_sptr list \<times> event_heap \<times> 'k" where
  "worker_eventPoll sys k heap timeout w = epollWait sys k heap timeout (wk_poller w)"

text \<open>The loop ends when the worker is stopped or polling fails; it leaves the flag cleared.\<close>

partial_function (option) worker_loop ::
  "'k syscalls \<Rightarrow> ('k, 'x) handler \<Rightarrow> ('k, 'x) wstate \<Rightarrow> ('k, 'x) wstate run" where
  "worker_loop sys hnd s =
     (case s of (k, heap, w, x) \<Rightarrow>
        if \<not> worker_isRunning w then Some (Inr (k, heap, worker_stop w, x))
        else (case worker_eventPoll sys k heap (- 1) w of
                (err, es, heap1, k1) \<Rightarrow>
                  if err \<noteq> SERVER_OK then Some (Inr (k1, heap1, worker_stop w, x))
                  else (case handle_events hnd es (k1, heap1, w, x) of
                          None \<Rightarrow> None
                        | Some (Inl z) \<Rightarrow> Some (Inl z)
                        | Some (Inr (k2, heap2, w2, x2)) \<Rightarrow>
                            worker_loop sys hnd (clear_events sys heap2 w2 es k2, heap2, w2, x2))))"

text \<open>
  The destructor stops the thread's loop and destroys the poller, which closes the epoll
  descriptor and then drops its events; an event nobody else holds closes its own.
\<close>

definition destroy_Worker :: "'k syscalls \<Rightarrow> event_heap \<Rightarrow> Worker \<Rightarrow> 'k \<Rightarrow> 'k" where
  "destroy_Worker sys heap w k =
     foldl (\<lambda>k (fd, e). destroy_Event sys k (heap e)) (snd (destroy_Epoll sys k (wk_poller w)))
       (ep_events (wk_poller w))"

section \<open>ListenEventHandler\<close>

text \<open>
  The handler keeps weak pointers to the IO workers in an order of its own. The state of the
  listening thread: the kernel, the events and the next free event address, the workers behind
  the pointers (\<open>None\<close> when a weak pointer has expired) and the order.
\<close>

record 'k listen_state =
  li_kernel :: 'k
  li_heap :: event_heap
  li_next :: event_sptr
  li_workers :: "worker_ptr \<Rightarrow> Worker option"
  li_ioWorkers :: "worker_ptr list"

text \<open>The constructor copies the pointers of the server in their order.\<close>

definition mk_ListenEventHandler :: "worker_ptr list \<Rightarrow> worker_ptr list" where
  "mk_ListenEventHandler workers = foldl (\<lambda>ps p. ps @ [p]) [] workers"

definition EPOLLIN_EPOLLET :: "32 word" where
  "EPOLLIN_EPOLLET = or 0x80000000 1"

definition O_NONBLOCK :: int where
  "O_NONBLOCK = 2048"

text \<open>The search for a worker; dereferencing an expired pointer is the outcome \<open>null_pointer\<close>.\<close>

fun find_worker :: "(worker_ptr \<Rightarrow> Worker option) \<Rightarrow> worker_ptr list \<Rightarrow> cpp_exception + nat" where
  "find_worker workers [] = Inr 0"
| "find_worker workers (p # ps) =
     (case workers p of
        None \<Rightarrow> Inl null_pointer
      | Some w \<Rightarrow>
          if worker_isRunning w \<and> worker_activeFDS w < worker_maxFDS w then Inr 0
          else (case find_worker workers ps of Inl x \<Rightarrow> Inl x | Inr i \<Rightarrow> Inr (Suc i)))"

text \<open>
  The body of the accept loop for one client. When \<open>addEvent\<close> fails, the temporary
  \<open>shared_ptr\<close> is the only owner of the new event: the event is destroyed, which closes the
  descriptor, before the body closes it.
\<close>

definition accept_client :: "'k syscalls \<Rightarrow> int \<Rightarrow> 'k listen_state \<Rightarrow> cpp_exception + 'k listen_state" where
  "accept_client sys clientFD s =
     (case sys_getfl sys (li_kernel s) clientFD of
        (flags, k1) \<Rightarrow>
          if flags = -1 then Inr (s\<lparr>li_kernel := sys_close sys k1 clientFD\<rparr>)
          else
            (let k2 = sys_setfl sys k1 clientFD (or flags O_NONBLOCK)
             in case find_worker (li_workers s) (li_ioWorkers s) of
                  Inl x \<Rightarrow> Inl x
                | Inr i \<Rightarrow>
                    if i = length (li_ioWorkers s)
                    then Inr (s\<lparr>li_kernel := sys_close sys k2 clientFD\<rparr>)
                    else
                      (let p = li_ioWorkers s ! i;
                           e = li_next s;
                           heap = (li_heap s)(e := mk_Event clientFD EPOLLIN_EPOLLET)
                       in case worker_addEvent sys k2 heap p e (the (li_workers s p)) of
                            (err, w, heap1, k3) \<Rightarrow>
                              if err \<noteq> SERVER_OK
                              then Inr (s\<lparr>li_kernel :=
                                     sys_close sys (destroy_Event sys k3 (heap1 e)) clientFD,
                                     li_heap := heap1, li_workers := (li_workers s)(p \<mapsto> w)\<rparr>)
                              else Inr (s\<lparr>li_kernel := k3, li_heap := heap1, li_next := Suc e,
                                     li_workers := (li_workers s)(p \<mapsto> w),
                                     li_ioWorkers := take i (li_ioWorkers s)
                                       @ drop (Suc i) (li_ioWorkers s) @ [p]\<rparr>))))"

partial_function (option) listen_loop ::
  "'k syscalls \<Rightarrow> int \<Rightarrow> 'k listen_state \<Rightarrow> 'k listen_state run" where
  "listen_loop sys listenedFD s =
     (case sys_accept sys (li_kernel s) listenedFD of
        (clientFD, k1) \<Rightarrow>
          if clientFD = -1 then Some (Inr (s\<lparr>li_kernel := k1\<rparr>))
          else (case accept_client sys clientFD (s\<lparr>li_kernel := k1\<rparr>) of
                  Inl x \<Rightarrow> Some (Inl x)
                | Inr s1 \<Rightarrow> listen_loop sys listenedFD s1))"

definition listen_handle :: "'k syscalls \<Rightarrow> event_sptr \<Rightarrow> 'k listen_state \<Rightarrow> 'k listen_state run" where
  "listen_handle sys e s = listen_loop sys (ev_fd (li_heap s e)) s"

section \<open>Distribution of clients\<close>

definition free_worker :: "'k listen_state \<Rightarrow> worker_ptr \<Rightarrow> bool" where
  "free_worker s p =
     (case li_workers s p of
        None \<Rightarrow> False
      | Some w \<Rightarrow> worker_isRunning w \<and> worker_activeFDS w < worker_maxFDS w)"

lemma find_worker_spec:
  "find_worker workers ps = Inr i \<Longrightarrow>
     i \<le> length ps
     \<and> (\<forall>j < i. \<exists>w. workers (ps ! j) = Some w
           \<and> \<not> (worker_isRunning w \<and> worker_activeFDS w < worker_maxFDS w))
     \<and> (i < length ps \<longrightarrow> (\<exists>w. workers (ps ! i) = Some w
           \<and> worker_isRunning w \<and> worker_activeFDS w < worker_maxFDS w))"
proof (induction ps arbitrary: i)
  case Nil
  then show ?case by simp
next
  case (Cons p ps)
  then show ?case
    by (cases i) (auto simp: less_Suc_eq_0_disj split: option.splits if_splits sum.splits)
qed

text \<open>The client with descriptor \<open>fd\<close> is registered with worker \<open>p\<close>, by an event that knows both.\<close>

definition served :: "'k listen_state \<Rightarrow> worker_ptr \<Rightarrow> int \<Rightarrow> bool" where
  "served s p fd =
     (\<exists>w e. li_workers s p = Some w \<and> map_of (ep_events (wk_poller w)) fd = Some e
        \<and> e < li_next s \<and> ev_fd (li_heap s e) = fd \<and> ev_worker (li_heap s e) = Some p)"

lemma worker_addEvent_OK:
  assumes "worker_addEvent sys k heap p e w = (SERVER_OK, w', heap', k')"
  shows "heap' = heap(e := setWorker (Some p) (heap e))" and "wk_running w' = wk_running w"
    and "map_of (ep_events (wk_poller w')) (ev_fd (heap e)) = Some e"
    and "ep_epfd (wk_poller w') = ep_epfd (wk_poller w)"
  using assms
  by (auto simp: worker_addEvent_def epollAddEvent_def Let_def setWorker_def update_conv'
      split: prod.splits if_splits)

text \<open>
  (C30) An accepted client goes to the first worker in the handler's order that runs and has
  room, which then moves to the tail: when the registration succeeds the client is served by
  that worker, every earlier worker was busy, and the order stays a permutation of the workers.
\<close>

theorem accept_client_assigns:
  assumes "accept_client sys fd s = Inr s'" and "li_next s < li_next s'"
  shows "\<exists>i < length (li_ioWorkers s). served s' (li_ioWorkers s ! i) fd
    \<and> free_worker s (li_ioWorkers s ! i) \<and> (\<forall>j < i. \<not> free_worker s (li_ioWorkers s ! j))
    \<and> li_ioWorkers s' = take i (li_ioWorkers s) @ drop (Suc i) (li_ioWorkers s) @ [li_ioWorkers s ! i]
    \<and> mset (li_ioWorkers s') = mset (li_ioWorkers s)"
proof -
  let ?ps = "li_ioWorkers s"
  obtain flags k1 where g: "sys_getfl sys (li_kernel s) fd = (flags, k1)" by fastforce
  with assms have fl: "flags \<noteq> -1" by (auto simp: accept_client_def)
  with assms g obtain i where f: "find_worker (li_workers s) ?ps = Inr i"
    by (auto simp: accept_client_def Let_def split: sum.splits)
  with assms g fl have "i \<noteq> length ?ps" by (auto simp: accept_client_def Let_def)
  with find_worker_spec [OF f] have i: "i < length ?ps" by simp
  with find_worker_spec [OF f] have fr: "free_worker s (?ps ! i)" "\<forall>j < i. \<not> free_worker s (?ps ! j)"
    by (auto simp: free_worker_def split: option.splits)
  let ?p = "?ps ! i" and ?k = "sys_setfl sys k1 fd (or flags O_NONBLOCK)"
  let ?heap = "(li_heap s)(li_next s := mk_Event fd EPOLLIN_EPOLLET)"
  obtain err w heap1 k3 where
    a: "worker_addEvent sys ?k ?heap ?p (li_next s) (the (li_workers s ?p)) = (err, w, heap1, k3)"
    using prod_cases4 by blast
  with assms g fl f i have ok: "err = SERVER_OK" by (auto simp: accept_client_def Let_def split: if_splits)
  with assms(1) g fl f i a have s': "s' = s\<lparr>li_kernel := k3, li_heap := heap1, li_next := Suc (li_next s),
      li_workers := (li_workers s)(?p \<mapsto> w), li_ioWorkers := take i ?ps @ drop (Suc i) ?ps @ [?p]\<rparr>"
    by (simp add: accept_client_def Let_def)
  have "served s' ?p fd"
    using worker_addEvent_OK [OF a [unfolded ok]]
    by (auto simp: served_def s' mk_Event_def setWorker_def)
  moreover have "mset (take i ?ps @ drop (Suc i) ?ps @ [?p]) = mset ?ps"
  proof -
    have "mset (take i ?ps @ drop (Suc i) ?ps @ [?p]) = mset (take i ?ps @ ?p # drop (Suc i) ?ps)"
      by simp
    also have "\<dots> = mset ?ps" using id_take_nth_drop [OF i] by (rule arg_cong [OF sym])
    finally show ?thesis .
  qed
  ultimately show ?thesis using i fr s' by auto
qed

theorem accept_client_assigns_witness:
  "\<exists>s'. accept_client ref_syscalls 9
      \<lparr>li_kernel = (\<lambda>_. []) :: int \<Rightarrow> int list, li_heap = (\<lambda>_. mk_Event 0 0), li_next = 0,
       li_workers = [1 \<mapsto> \<lparr>wk_running = False, wk_poller = \<lparr>ep_epfd = 3, ep_maxFDS = 2, ep_events = []\<rparr>\<rparr>,
                     2 \<mapsto> \<lparr>wk_running = True, wk_poller = \<lparr>ep_epfd = 5, ep_maxFDS = 2, ep_events = []\<rparr>\<rparr>],
       li_ioWorkers = [1, 2]\<rparr> = Inr s' \<and> mset (li_ioWorkers s') = {#1, 2#}"
proof -
  let ?s = "\<lparr>li_kernel = (\<lambda>_. []) :: int \<Rightarrow> int list, li_heap = (\<lambda>_. mk_Event 0 0), li_next = 0,
       li_workers = [1 \<mapsto> \<lparr>wk_running = False, wk_poller = \<lparr>ep_epfd = 3, ep_maxFDS = 2, ep_events = []\<rparr>\<rparr>,
                     2 \<mapsto> \<lparr>wk_running = True, wk_poller = \<lparr>ep_epfd = 5, ep_maxFDS = 2, ep_events = []\<rparr>\<rparr>],
       li_ioWorkers = [1, 2]\<rparr>"
  have "\<exists>s'. accept_client ref_syscalls 9 ?s = Inr s' \<and> li_next ?s < li_next s'"
    by (simp add: accept_client_def ref_syscalls_def ref_ctl_def worker_isRunning_def
        worker_activeFDS_def worker_maxFDS_def activeFDS_def maxFDS_def worker_addEvent_def
        epollAddEvent_def validEpollFD_def mk_Event_def setWorker_def Let_def)
  then obtain s' where s': "accept_client ref_syscalls 9 ?s = Inr s'" "li_next ?s < li_next s'" by blast
  from accept_client_assigns [OF s'] s'(1) show ?thesis by auto
qed

text \<open>
  A client whose registration fails is closed twice: destroying the event closes its
  descriptor, then the handler closes the same number again, which by then may belong to another
  thread.
\<close>

theorem accept_failure_closes_twice:
  assumes "sys_getfl sys (li_kernel s) fd = (flags, k1)" and "flags \<noteq> -1"
    and "find_worker (li_workers s) (li_ioWorkers s) = Inr i" and "i < length (li_ioWorkers s)"
    and "worker_addEvent sys (sys_setfl sys k1 fd (or flags O_NONBLOCK))
        ((li_heap s)(li_next s := mk_Event fd EPOLLIN_EPOLLET)) (li_ioWorkers s ! i) (li_next s)
        (the (li_workers s (li_ioWorkers s ! i))) = (err, w, heap1, k3)" and "err \<noteq> SERVER_OK"
  shows "\<exists>s'. accept_client sys fd s = Inr s' \<and> li_ioWorkers s' = li_ioWorkers s
    \<and> li_kernel s' = sys_close sys (sys_close sys k3 fd) fd"
proof -
  have "ev_fd (heap1 (li_next s)) = fd"
    using assms(5,6) by (auto simp: worker_addEvent_def Let_def mk_Event_def setWorker_def
        split: prod.splits)
  with assms show ?thesis by (auto simp: accept_client_def Let_def destroy_Event_def)
qed

theorem accept_failure_closes_twice_witness:
  "\<exists>s'. accept_client (ref_syscalls\<lparr>epoll_ctl := (\<lambda>k epfd op fd ev. (-1, k)),
                                   sys_close := (\<lambda>k fd. k(0 := k 0 @ [fd]))\<rparr>) 9
      \<lparr>li_kernel = (\<lambda>_. []) :: int \<Rightarrow> int list, li_heap = (\<lambda>_. mk_Event 0 0), li_next = 0,
       li_workers = [2 \<mapsto> \<lparr>wk_running = True, wk_poller = \<lparr>ep_epfd = 5, ep_maxFDS = 2, ep_events = []\<rparr>\<rparr>],
       li_ioWorkers = [2]\<rparr> = Inr s' \<and> li_kernel s' 0 = [9, 9]"
proof -
  let ?sys = "ref_syscalls\<lparr>epoll_ctl := (\<lambda>k epfd op fd ev. (-1, k)),
                                   sys_close := (\<lambda>k fd. k(0 := k 0 @ [fd]))\<rparr>"
  let ?w = "\<lparr>wk_running = True, wk_poller = \<lparr>ep_epfd = 5, ep_maxFDS = 2, ep_events = []\<rparr>\<rparr>"
  let ?s = "\<lparr>li_kernel = (\<lambda>_. []) :: int \<Rightarrow> int list, li_heap = (\<lambda>_. mk_Event 0 0), li_next = 0,
       li_workers = [2 \<mapsto> ?w], li_ioWorkers = [2]\<rparr>"
  have 1: "sys_getfl ?sys (li_kernel ?s) 9 = (0, \<lambda>_. [])"
    "find_worker (li_workers ?s) (li_ioWorkers ?s) = Inr 0"
    by (simp_all add: ref_syscalls_def worker_isRunning_def worker_activeFDS_def worker_maxFDS_def
        activeFDS_def maxFDS_def)
  obtain heap1 where "worker_addEvent ?sys (sys_setfl ?sys (\<lambda>_. []) 9 (or 0 O_NONBLOCK))
        ((li_heap ?s)(li_next ?s := mk_Event 9 EPOLLIN_EPOLLET)) (li_ioWorkers ?s ! 0) (li_next ?s)
        (the (li_workers ?s (li_ioWorkers ?s ! 0))) = (EPOLL_EVENT_ADD_FAILED, ?w, heap1, \<lambda>_. [])"
    by (simp add: worker_addEvent_def epollAddEvent_def validEpollFD_def activeFDS_def maxFDS_def
        ref_syscalls_def Let_def)
  from accept_failure_closes_twice [OF 1(1) _ 1(2) _ this] show ?thesis by (auto simp: ref_syscalls_def)
qed

section \<open>The accept loop ends\<close>

text \<open>
  What the listening handler relies on of the kernel: the backlog of the listening socket, the
  clients that wait there. A successful \<open>accept\<close> takes the first of them; the other calls of the
  handler leave the backlog alone.
\<close>

locale accept_kernel =
  fixes sys :: "'k syscalls"
    and backlog :: "'k \<Rightarrow> int list"
  assumes accept_takes: "sys_accept sys k fd = (c, k') \<Longrightarrow> c \<noteq> -1 \<Longrightarrow> backlog k = c # backlog k'"
    and getfl_backlog: "backlog (snd (sys_getfl sys k fd)) = backlog k"
    and setfl_backlog: "backlog (sys_setfl sys k fd fl) = backlog k"
    and close_backlog: "backlog (sys_close sys k fd) = backlog k"
    and ctl_backlog: "backlog (snd (epoll_ctl sys k epfd op fd ev)) = backlog k"
begin

lemma addEvent_backlog:
  assumes "worker_addEvent sys k heap p e w = (err, w', heap', k')"
  shows "backlog k' = backlog k"
  using assms ctl_backlog [of k "ep_epfd (wk_poller w)" EPOLL_CTL_ADD]
  by (auto simp: worker_addEvent_def epollAddEvent_def Let_def split: prod.splits if_splits)
     (metis snd_conv)+

lemma accept_client_backlog:
  assumes "accept_client sys fd s = Inr s'"
  shows "backlog (li_kernel s') = backlog (li_kernel s)"
proof -
  obtain flags k1 where g: "sys_getfl sys (li_kernel s) fd = (flags, k1)" by fastforce
  let ?k2 = "sys_setfl sys k1 fd (or flags O_NONBLOCK)"
  have b: "backlog k1 = backlog (li_kernel s)" "backlog ?k2 = backlog (li_kernel s)"
    using getfl_backlog [of "li_kernel s" fd] setfl_backlog [of k1 fd "or flags O_NONBLOCK"] g
    by simp_all
  have c: "backlog (sys_close sys k x) = backlog (li_kernel s)" if "backlog k = backlog (li_kernel s)" for k x
    using close_backlog [of k x] that by simp
  show ?thesis
  proof (cases "flags = -1")
    case True
    with assms g b c show ?thesis by (auto simp: accept_client_def)
  next
    case False
    from assms g False obtain i where f: "find_worker (li_workers s) (li_ioWorkers s) = Inr i"
      by (auto simp: accept_client_def Let_def split: sum.splits)
    let ?heap = "(li_heap s)(li_next s := mk_Event fd EPOLLIN_EPOLLET)"
    obtain err w heap1 k3 where
      a: "worker_addEvent sys ?k2 ?heap (li_ioWorkers s ! i) (li_next s)
        (the (li_workers s (li_ioWorkers s ! i))) = (err, w, heap1, k3)"
      using prod_cases4 by blast
    from addEvent_backlog [OF a] b(2) have "backlog k3 = backlog (li_kernel s)" by simp
    with assms g False f a b c show ?thesis
      by (auto simp: accept_client_def Let_def destroy_Event_def split: if_splits)
  qed
qed

lemma listen_loop_returns: "listen_loop sys fd s \<noteq> None"
proof (induction "length (backlog (li_kernel s))" arbitrary: s rule: less_induct)
  case less
  obtain c k1 where a: "sys_accept sys (li_kernel s) fd = (c, k1)" by fastforce
  show ?case
  proof (cases "c = -1 \<or> isl (accept_client sys c (s\<lparr>li_kernel := k1\<rparr>))")
    case True
    with a show ?thesis
      by (subst listen_loop.simps) (auto simp: isl_def)
  next
    case False
    then obtain s1 where s1: "accept_client sys c (s\<lparr>li_kernel := k1\<rparr>) = Inr s1"
      by (cases "accept_client sys c (s\<lparr>li_kernel := k1\<rparr>)") auto
    from accept_takes [OF a] False accept_client_backlog [OF s1]
    have "length (backlog (li_kernel s1)) < length (backlog (li_kernel s))" by simp
    from less [OF this] a False s1 show ?thesis by (subst listen_loop.simps) simp
  qed
qed

end

section \<open>Round robin\<close>

text \<open>A kernel that grants every registration, and a worker that runs and has room.\<close>

definition granting :: "'k syscalls \<Rightarrow> bool" where
  "granting sys =
     ((\<forall>k fd. fst (sys_getfl sys k fd) \<noteq> -1)
      \<and> (\<forall>k epfd fd ev. fst (epoll_ctl sys k epfd EPOLL_CTL_ADD fd ev) \<noteq> -1))"

definition ready_worker :: "'k listen_state \<Rightarrow> worker_ptr \<Rightarrow> bool" where
  "ready_worker s p =
     (case li_workers s p of
        None \<Rightarrow> False
      | Some w \<Rightarrow> worker_isRunning w \<and> worker_activeFDS w < worker_maxFDS w
          \<and> validEpollFD (wk_poller w))"

lemma accept_client_head:
  assumes "granting sys" and "li_ioWorkers s = p # ps" and "ready_worker s p"
  obtains s' where "accept_client sys fd s = Inr s'" and "li_ioWorkers s' = ps @ [p]"
    and "li_next s' = Suc (li_next s)" and "served s' p fd"
    and "\<And>q. q \<noteq> p \<Longrightarrow> li_workers s' q = li_workers s q"
    and "\<And>e. e \<noteq> li_next s \<Longrightarrow> li_heap s' e = li_heap s e"
proof -
  from assms(3) obtain w where w: "li_workers s p = Some w" "worker_isRunning w"
    "worker_activeFDS w < worker_maxFDS w" "validEpollFD (wk_poller w)"
    by (auto simp: ready_worker_def split: option.splits)
  obtain flags k1 where g: "sys_getfl sys (li_kernel s) fd = (flags, k1)" by fastforce
  with assms(1) have fl: "flags \<noteq> -1" by (metis fst_conv granting_def)
  let ?k = "sys_setfl sys k1 fd (or flags O_NONBLOCK)"
  let ?heap = "(li_heap s)(li_next s := mk_Event fd EPOLLIN_EPOLLET)"
  obtain err w' heap1 k3 where
    a: "worker_addEvent sys ?k ?heap p (li_next s) w = (err, w', heap1, k3)"
    using prod_cases4 by blast
  have "fst (epoll_ctl sys ?k (ep_epfd (wk_poller w)) EPOLL_CTL_ADD fd EPOLLIN_EPOLLET) \<noteq> -1"
    using assms(1) by (simp add: granting_def)
  with a w have ok: "err = SERVER_OK"
    by (auto simp: worker_addEvent_def epollAddEvent_def Let_def worker_activeFDS_def
        worker_maxFDS_def mk_Event_def setWorker_def split: prod.splits if_splits)
  have f: "find_worker (li_workers s) (p # ps) = Inr 0" using w by simp
  note h = worker_addEvent_OK [OF a [unfolded ok]]
  let ?s = "s\<lparr>li_kernel := k3, li_heap := heap1, li_next := Suc (li_next s),
      li_workers := (li_workers s)(p \<mapsto> w'), li_ioWorkers := ps @ [p]\<rparr>"
  have "accept_client sys fd s = Inr ?s"
    using g fl f a ok w(1) assms(2) by (simp add: accept_client_def Let_def)
  moreover have "served ?s p fd" using h by (auto simp: served_def mk_Event_def setWorker_def)
  ultimately show thesis using that h(1) by auto
qed

lemma served_frame:
  assumes "served s q fd" and "li_next s \<le> li_next s'" and "li_workers s' q = li_workers s q"
    and "\<And>e. e < li_next s \<Longrightarrow> li_heap s' e = li_heap s e"
  shows "served s' q fd"
  using assms by (fastforce simp: served_def)

text \<open>A kernel in which \<open>accept\<close> fails only when no client waits.\<close>

locale accept_reliable = accept_kernel sys backlog
  for sys :: "'k syscalls" and backlog :: "'k \<Rightarrow> int list" +
  assumes accept_empty: "sys_accept sys k fd = (-1, k') \<Longrightarrow> backlog k = []"
begin

lemma accept_next:
  assumes "backlog k = c # cs" and "sys_accept sys k fd = (c', k')"
  shows "c' = c" and "c \<noteq> -1" and "backlog k' = cs"
  using accept_takes [OF assms(2)] accept_empty [of k fd k'] assms by auto

lemma listen_loop_rotate:
  assumes "granting sys" and "li_ioWorkers s = ps @ qs" and "distinct ps"
    and "\<forall>p \<in> set ps. ready_worker s p" and "backlog (li_kernel s) = fds" and "length fds = length ps"
  shows "\<exists>s'. listen_loop sys lfd s = Some (Inr s') \<and> li_ioWorkers s' = qs @ ps
    \<and> list_all2 (served s') ps fds \<and> li_next s \<le> li_next s'
    \<and> (\<forall>q. q \<notin> set ps \<longrightarrow> li_workers s' q = li_workers s q)
    \<and> (\<forall>e < li_next s. li_heap s' e = li_heap s e)"
  using assms
proof (induction ps arbitrary: s qs fds)
  case Nil
  obtain c k1 where a: "sys_accept sys (li_kernel s) lfd = (c, k1)" by fastforce
  with Nil accept_takes [OF a] have "c = -1" by fastforce
  with a Nil show ?case by (subst listen_loop.simps) simp
next
  case (Cons p ps)
  from Cons.prems(6) obtain fd fds' where fds: "fds = fd # fds'" "length fds' = length ps"
    by (cases fds) auto
  obtain c k1 where a: "sys_accept sys (li_kernel s) lfd = (c, k1)" by fastforce
  with accept_next [OF _ a] Cons.prems(5) fds(1) have c: "c = fd" "fd \<noteq> -1" "backlog k1 = fds'" by auto
  let ?s = "s\<lparr>li_kernel := k1\<rparr>"
  from Cons.prems(2,4) have "li_ioWorkers ?s = p # (ps @ qs)" "ready_worker ?s p"
    by (simp_all add: ready_worker_def)
  from accept_client_head [OF Cons.prems(1) this, of fd] obtain s1 where
    1: "accept_client sys fd ?s = Inr s1" "li_ioWorkers s1 = (ps @ qs) @ [p]"
      "li_next s1 = Suc (li_next s)" "served s1 p fd"
      "\<And>q. q \<noteq> p \<Longrightarrow> li_workers s1 q = li_workers s q"
      "\<And>e. e \<noteq> li_next s \<Longrightarrow> li_heap s1 e = li_heap s e" by auto
  have l: "listen_loop sys lfd s = listen_loop sys lfd s1"
    using a c 1(1) by (subst listen_loop.simps) simp
  have "\<forall>q \<in> set ps. ready_worker s1 q"
  proof
    fix q assume q: "q \<in> set ps"
    with Cons.prems(3) have "q \<noteq> p" by auto
    from 1(5) [OF this] Cons.prems(4) q show "ready_worker s1 q" by (simp add: ready_worker_def)
  qed
  with Cons.IH [OF Cons.prems(1), of s1 "qs @ [p]" fds'] Cons.prems(3) 1(2) fds(2)
    accept_client_backlog [OF 1(1)] c(3) obtain s2 where
    2: "listen_loop sys lfd s1 = Some (Inr s2)" "li_ioWorkers s2 = (qs @ [p]) @ ps"
      "list_all2 (served s2) ps fds'" "li_next s1 \<le> li_next s2"
      "\<forall>q. q \<notin> set ps \<longrightarrow> li_workers s2 q = li_workers s1 q"
      "\<forall>e < li_next s1. li_heap s2 e = li_heap s1 e" by auto
  have "served s2 p fd"
    using Cons.prems(3) 2 by (intro served_frame [OF 1(4)]) auto
  with 1 2 fds l show ?case by auto
qed

text \<open>
  Clients are spread evenly: when every IO worker runs and has room and the kernel grants the
  registrations, as many clients as there are workers are each registered with a different worker,
  in the order of the workers, and that order is back where it started.
\<close>

lemma listen_handle_round_robin:
  assumes "granting sys" and "distinct (li_ioWorkers s)"
    and "\<forall>p \<in> set (li_ioWorkers s). ready_worker s p"
    and "length (backlog (li_kernel s)) = length (li_ioWorkers s)"
  shows "\<exists>s'. listen_handle sys e s = Some (Inr s') \<and> li_ioWorkers s' = li_ioWorkers s
    \<and> list_all2 (served s') (li_ioWorkers s) (backlog (li_kernel s))"
  using listen_loop_rotate [OF assms(1), of s "li_ioWorkers s" "[]" _ "ev_fd (li_heap s e)"] assms(2-4)
  by (auto simp: listen_handle_def)

end

text \<open>A kernel with a queue of clients that grants everything.\<close>

definition queue_syscalls :: "nat list syscalls" where
  "queue_syscalls = \<lparr>
     epoll_create1 = (\<lambda>k. (3, k)),
     epoll_ctl = (\<lambda>k epfd op fd ev. (0, k)),
     epoll_wait = (\<lambda>k epfd n t. ((-1, []), k)),
     sys_accept = (\<lambda>k fd. case k of [] \<Rightarrow> (-1, []) | c # cs \<Rightarrow> (int c, cs)),
     sys_getfl = (\<lambda>k fd. (0, k)),
     sys_setfl = (\<lambda>k fd fl. k),
     sys_close = (\<lambda>k fd. k),
     sys_socket = (\<lambda>k. (4, k)),
     sys_bind = (\<lambda>k fd a p. (0, k)),
     sys_listen = (\<lambda>k fd n. (0, k))\<rparr>"

interpretation qk: accept_reliable queue_syscalls "map int"
  by unfold_locales (auto simp: queue_syscalls_def split: list.splits)

lemma granting_queue: "granting queue_syscalls"
  by (simp add: granting_def queue_syscalls_def)

lemma mk_ListenEventHandler_id [simp]: "mk_ListenEventHandler ps = ps"
proof -
  have "foldl (\<lambda>qs p. qs @ [p]) qs ps = qs @ ps" for qs by (induction ps arbitrary: qs) simp_all
  from this [of "[]"] show ?thesis by (simp add: mk_ListenEventHandler_def)
qed

text \<open>
  The accept loop of the listening handler ends: every turn takes a client out of the
  backlog, whatever then happens to that client, so \<open>handle\<close> returns (or dereferences an expired
  worker) once the backlog is empty.
\<close>

theorem listen_handle_returns:
  assumes "accept_kernel sys backlog"
  shows "\<exists>r. listen_handle sys e s = Some r"
  using accept_kernel.listen_loop_returns [OF assms, of "ev_fd (li_heap s e)" s]
  by (auto simp: listen_handle_def)

theorem listen_handle_returns_witness:
  "\<exists>r. listen_handle queue_syscalls 0
     \<lparr>li_kernel = [8, 9], li_heap = (\<lambda>_. mk_Event 4 1), li_next = 1, li_workers = (\<lambda>_. None),
      li_ioWorkers = []\<rparr> = Some r"
  by (rule listen_handle_returns [OF qk.accept_kernel_axioms])

end
