(* ===== verification/IO_Handler.thy ===== *)
theory IO_Handler
  imports Http_Response Event_Worker
begin

text \<open>
  \<open>IOEventHandler.hpp\<close> and \<open>IOEventHandler.cc\<close>: the handler of a readable client. It parses the
  requests that have arrived, answers each of them and gives the connection up.
\<close>

section \<open>The request loop\<close>

text \<open>
  What the loop works on: the two streams over the client's socket, the state of the accessor
  and the static buffer of the responder. The log statements do not influence it.
\<close>

type_synonym 'a io_state = "SocketInputStream \<times> SocketOutputStream \<times> 'a \<times> carray"

partial_function (option) io_loop ::
  "indeterminate \<Rightarrow> (header_t \<Rightarrow> header_t) \<Rightarrow> IRouter \<Rightarrow> 'a accessor \<Rightarrow> 'a io_state \<Rightarrow> 'a io_state run"
where
  "io_loop un ord rt access s =
     (case s of (inp, out, a, buf) \<Rightarrow>
        if is_eof inp then Some (Inr s)
        else (case getOneHttpRequest inp of
                None \<Rightarrow> None
              | Some (Inl x) \<Rightarrow> Some (Inl x)
              | Some (Inr (req, error, inp1)) \<Rightarrow>
                  if error = SERVER_OK
                  then (case getResponseFromRequest un rt access a req of
                          None \<Rightarrow> None
                        | Some (Inl x) \<Rightarrow> Some (Inl x)
                        | Some (Inr (res, a1)) \<Rightarrow>
                            (case response ord buf out res of
                               None \<Rightarrow> None
                             | Some (Inl x) \<Rightarrow> Some (Inl x)
                             | Some (Inr (error1, res1, buf1, out1)) \<Rightarrow>
                                 io_loop un ord rt access (inp1, out1, a1, buf1)))
                  else io_loop un ord rt access (inp1, out, a, buf)))"

section \<open>The handler\<close>

text \<open>
  The sockets of the process by descriptor, the shared accessor and the static buffer. The two
  directions of a socket are independent: reading changes \<open>sk_rx\<close>, writing the rest.
\<close>

record 'a io_env =
  io_sockets :: "int \<Rightarrow> socket"
  io_accessor :: 'a
  io_buf :: carray

text \<open>
  \<open>raw\<close> is the initial content of the two stream buffers, which the constructors leave alone. A
  null worker pointer fails the assertion, which ends the process.
\<close>

definition io_handle ::
  "'k syscalls \<Rightarrow> carray \<Rightarrow> indeterminate \<Rightarrow> (header_t \<Rightarrow> header_t) \<Rightarrow> IRouter \<Rightarrow> 'a accessor
    \<Rightarrow> ('k, 'a io_env) handler" where
  "io_handle sys raw un ord rt access e s =
     (case s of (k, heap, w, x) \<Rightarrow>
        (let fd = ev_fd (heap e);
             sk = io_sockets x fd;
             inp = mk_SocketInputStream (mk_SocketStreamBuffer raw sk);
             out = mk_SocketOutputStream (mk_SocketStreamBuffer raw sk)
         in case io_loop un ord rt access (inp, out, io_accessor x, io_buf x) of
              None \<Rightarrow> None
            | Some (Inl z) \<Rightarrow> Some (Inl z)
            | Some (Inr (inp1, out1, a1, buf1)) \<Rightarrow>
                if ev_worker (heap e) = None then Some (Inl null_pointer)
                else (case worker_delEvent sys k heap e w of
                        (err, w1, k1) \<Rightarrow>
                          (let sk1 = (ss_socket (destroy_SocketStreamBuffer (os_buf out1)))
                                 \<lparr>sk_rx := sk_rx (ss_socket (is_buf inp1))\<rparr>
                           in Some (Inr (k1, heap, w1,
                                x\<lparr>io_sockets := (io_sockets x)(fd := sk1), io_accessor := a1,
                                  io_buf := buf1\<rparr>))))))"

section \<open>Pipelined requests are answered in order\<close>

record wire_request =
  wq_method :: HttpRequestMethod
  wq_uri :: string
  wq_version :: HttpVersion
  wq_header :: header_t

text \<open>A request a client may send: known method and version, printable parts, no body.\<close>

definition wire_ok :: "wire_request \<Rightarrow> bool" where
  "wire_ok q = (wq_method q \<noteq> UNKNOWN_REQUEST_METHOD \<and> wq_version q \<noteq> UNKNOWN_HTTP_VERSION
     \<and> wire_uri (wq_uri q) \<and> list_all wire_field (wq_header q) \<and> distinct (map fst (wq_header q))
     \<and> ''Content-Length'' \<notin> set (map fst (wq_header q)))"

definition wire_bytes :: "wire_request \<Rightarrow> string" where
  "wire_bytes q = wire_line (wq_method q) (wq_uri q) (wq_version q) @ wire_head (wq_header q)"

definition as_request :: "wire_request \<Rightarrow> HttpRequest" where
  "as_request q = \<lparr>rq_method = wq_method q, rq_uri = wq_uri q, rq_version = wq_version q,
     rq_header = wq_header q, rq_body = []\<rparr>"

text \<open>The bytes of the answer, as a function of the request, the routes and the files.\<close>

definition answer_bytes ::
  "(header_t \<Rightarrow> header_t) \<Rightarrow> IRouter \<Rightarrow> (string \<Rightarrow> string option) \<Rightarrow> HttpRequest \<Rightarrow> string" where
  "answer_bytes ord rt files req =
     response_text ord
       \<lparr>rp_version = expected_version req, rp_status = mk_HttpResponseStatus (expected_code rt files req),
        rp_header = [], rp_body = None\<rparr>
       (expected_body rt files req)"

lemma response_text_answers:
  "answers r v code bytes \<Longrightarrow> response_text ord r bytes
     = response_text ord \<lparr>rp_version = v, rp_status = mk_HttpResponseStatus code, rp_header = [],
         rp_body = None\<rparr> bytes"
  by (simp add: answers_def response_text_def status_text_def)

lemma getOneHttpRequest_at_end:
  assumes "is_clean s" and "is_view s = flat_good []"
  shows "\<exists>r t. getOneHttpRequest s = Some (Inr (r, PARSE_REQ_METHOD_FAILED, t)) \<and> is_eof t"
proof -
  obtain w t where x: "istream_extract s = (w, t)" by fastforce
  from sis.extract_flat [OF assms(1) x] assms(2) have "w = None" "is_view t = \<lparr>fl_data = [], fl_eof = True, fl_fail = True\<rparr>"
    by (auto simp: flat_extract_def)
  then have "is_fail t" "is_eof t" by (simp_all add: is_view_def)
  with x \<open>w = None\<close> have "parseLine s mk_HttpRequestBuilder = (PARSE_REQ_METHOD_FAILED, t, mk_HttpRequestBuilder)"
    by (simp add: parseLine_def extract_into_def)
  with \<open>is_eof t\<close> show ?thesis by (auto simp: getOneHttpRequest_def)
qed

context responder
begin

text \<open>What the calls of one turn return for one request.\<close>

lemma io_turn_calls:
  assumes "is_clean inp" and "is_view inp = flat_good (wire_bytes q @ rest)" and "wire_ok q"
    and "out_ready out" and "ok a"
  obtains inp1 r a1 r' out1 buf1 where
    "getOneHttpRequest inp = Some (Inr (as_request q, SERVER_OK, inp1))"
    and "getResponseFromRequest un rt access a (as_request q) = Some (Inr (r, a1))"
    and "response ord buf out r = Some (Inr (SERVER_OK, r', buf1, out1))"
    and "is_clean inp1" and "is_view inp1 = flat_good rest" and "out_ready out1" and "ok a1"
    and "sk_tx (ss_socket (os_buf out1)) = written out @ answer_bytes ord rt files (as_request q)"
    and "written out1 = written out @ answer_bytes ord rt files (as_request q)"
proof -
  from getOneHttpRequest_reads [OF assms(1), of "wq_method q" "wq_uri q" "wq_version q" "wq_header q" rest]
    assms(2,3) obtain inp1 where
    g: "getOneHttpRequest inp = Some (Inr (as_request q, SERVER_OK, inp1))"
      "is_clean inp1" "is_view inp1 = flat_good rest"
    by (auto simp: wire_ok_def wire_bytes_def as_request_def)
  from getResponse_answers [OF assms(5), of un "as_request q"] obtain r a1 where
    r: "getResponseFromRequest un rt access a (as_request q) = Some (Inr (r, a1))" "ok a1"
      "answers r (expected_version (as_request q)) (expected_code rt files (as_request q))
        (expected_body rt files (as_request q))" by blast
  from r(3) obtain b where b: "rp_body r = Some b" "rd_sound b"
    "rd_data b = expected_body rt files (as_request q)"
    by (auto simp: answers_def split: option.splits)
  from response_reaches [OF assms(4) b(1,2), of ord buf] obtain r' buf1 out1 where
    p: "response ord buf out r = Some (Inr (SERVER_OK, r', buf1, out1))" "out_ready out1"
      "sk_tx (ss_socket (os_buf out1)) = written out @ response_text ord r (rd_data b)"
      "written out1 = written out @ response_text ord r (rd_data b)" by auto
  have "response_text ord r (rd_data b) = answer_bytes ord rt files (as_request q)"
    using response_text_answers [OF r(3)] b(3) by (simp add: answer_bytes_def)
  with that [OF g(1) r(1) p(1) g(2,3) p(2) r(2)] p(3,4) show thesis by simp
qed

text \<open>One turn of the loop on one request.\<close>

lemma io_turn:
  assumes "is_clean inp" and "is_view inp = flat_good (wire_bytes q @ rest)" and "wire_ok q"
    and "out_ready out" and "ok a"
  obtains inp1 out1 a1 buf1 where
    "io_loop un ord rt access (inp, out, a, buf) = io_loop un ord rt access (inp1, out1, a1, buf1)"
    and "is_clean inp1" and "is_view inp1 = flat_good rest" and "out_ready out1" and "ok a1"
    and "sk_tx (ss_socket (os_buf out1)) = written out @ answer_bytes ord rt files (as_request q)"
    and "written out1 = written out @ answer_bytes ord rt files (as_request q)"
proof -
  obtain inp1 r a1 r' out1 buf1 where
    c: "getOneHttpRequest inp = Some (Inr (as_request q, SERVER_OK, inp1))"
      "getResponseFromRequest un rt access a (as_request q) = Some (Inr (r, a1))"
      "response ord buf out r = Some (Inr (SERVER_OK, r', buf1, out1))"
      "is_clean inp1" "is_view inp1 = flat_good rest" "out_ready out1" "ok a1"
      "sk_tx (ss_socket (os_buf out1)) = written out @ answer_bytes ord rt files (as_request q)"
      "written out1 = written out @ answer_bytes ord rt files (as_request q)"
    by (rule io_turn_calls [OF assms, of un ord buf])
  have "\<not> is_eof inp" using assms(2) by (simp add: is_view_def)
  with c(1-3) have
    "io_loop un ord rt access (inp, out, a, buf) = io_loop un ord rt access (inp1, out1, a1, buf1)"
    by (simp add: io_loop.simps [of un ord rt access "(inp, out, a, buf)"])
  with that c(4-9) show thesis by blast
qed

lemma io_pipeline:
  assumes "is_clean inp" and "is_view inp = flat_good (concat (map wire_bytes qs))"
    and "list_all wire_ok qs" and "out_ready out" and "ok a"
    and "sk_tx (ss_socket (os_buf out)) = written out"
  shows "\<exists>inp' out' a' buf'. io_loop un ord rt access (inp, out, a, buf) = Some (Inr (inp', out', a', buf'))
    \<and> out_ready out' \<and> ok a'
    \<and> sk_tx (ss_socket (os_buf out')) = written out @ concat (map (answer_bytes ord rt files \<circ> as_request) qs)
    \<and> written out' = sk_tx (ss_socket (os_buf out'))"
  using assms
proof (induction qs arbitrary: inp out a buf)
  case Nil
  from getOneHttpRequest_at_end [OF Nil(1)] Nil(2) obtain r t where
    g: "getOneHttpRequest inp = Some (Inr (r, PARSE_REQ_METHOD_FAILED, t))" "is_eof t" by auto
  have "\<not> is_eof inp" using Nil(2) by (simp add: is_view_def)
  with g have "io_loop un ord rt access (inp, out, a, buf) = io_loop un ord rt access (t, out, a, buf)"
    by (simp add: io_loop.simps [of un ord rt access "(inp, out, a, buf)"])
  also have "\<dots> = Some (Inr (t, out, a, buf))" using g(2) by (simp add: io_loop.simps)
  finally show ?case using Nil by simp
next
  case (Cons q qs)
  have v: "is_view inp = flat_good (wire_bytes q @ concat (map wire_bytes qs))" and q: "wire_ok q"
    using Cons.prems(2,3) by simp_all
  from io_turn [OF Cons.prems(1) v q Cons.prems(4,5)] obtain inp1 out1 a1 buf1 where
    1: "io_loop un ord rt access (inp, out, a, buf) = io_loop un ord rt access (inp1, out1, a1, buf1)"
      "is_clean inp1" "is_view inp1 = flat_good (concat (map wire_bytes qs))" "out_ready out1" "ok a1"
      "sk_tx (ss_socket (os_buf out1)) = written out @ answer_bytes ord rt files (as_request q)"
      "written out1 = written out @ answer_bytes ord rt files (as_request q)" by blast
  have "list_all wire_ok qs" "sk_tx (ss_socket (os_buf out1)) = written out1"
    using Cons.prems(3) 1(6,7) by simp_all
  from Cons.IH [OF 1(2,3) this(1) 1(4,5) this(2), of buf1] 1 show ?case by auto
qed

end

section \<open>The handler cannot spin\<close>

text \<open>Copying a sound body ends, whatever happens to the output.\<close>

lemma gen_body_loop_returns:
  assumes "rd_sound body" and "rest \<le> length (rd_rest body)"
  shows "gen_body_loop (int rest) error body buf out \<noteq> None"
  using assms
proof (induction rest arbitrary: out body buf error rule: less_induct)
  case (less rest)
  show ?case
  proof (cases "rest = 0")
    case True
    then show ?thesis by (simp add: gen_body_loop.simps)
  next
    case False
    define want where "want = (if rest < RP_BFSIZE then rest else RP_BFSIZE)"
    have w: "0 < want" "want \<le> rest" using False by (auto simp: want_def RP_BFSIZE_def)
    from rd.read_turn [OF less.prems(1) w less.prems(2)] obtain xs body1 where
      r: "rd_readsome body want = (xs, body1)" "rd_sound body1" "rest - length xs < rest"
        "rest - length xs \<le> length (rd_rest body1)" "length xs \<le> want" by blast
    have "int (rest - length xs) = int rest - int (length xs)" using r(5) w(2) by simp
    from less.IH [OF r(3,2,4), of error "blit 0 xs buf" "ostream_write out xs", unfolded this]
    show ?thesis using False less.prems(1) r(1,2)
      by (cases "rest < RP_BFSIZE") (subst gen_body_loop.simps, simp add: want_def Let_def)+
  qed
qed

lemma response_returns:
  assumes "rp_body r = Some body" and "rd_sound body"
  obtains e r' buf' out' where "response ord buf out r = Some (Inr (e, r', buf', out'))"
proof -
  let ?b = "seekg_beg (seekg_beg (seekg_end body))"
  have b: "rd_sound ?b" "length (rd_data body) \<le> length (rd_rest ?b)"
    using assms(2) by (simp_all add: rd_rest_seekg_beg)
  have "\<exists>x. response ord buf out r = Some (Inr x)"
    using assms gen_body_loop_returns [OF b]
    by (auto simp: response_def genResponseBody_def tellg_seekg_end resp_setHeader_def Let_def
        simp del: not_None_eq split: prod.split option.split)
  with that show thesis by auto
qed

context responder
begin

text \<open>
  A handler that does not return is waiting for the body of some request: every other turn of the
  loop consumes input or ends it.
\<close>

lemma io_loop_hangs:
  assumes "io_loop un ord rt access (inp, out, a, buf) = None" and "is_good inp" and "ok a"
  shows "\<exists>inp'. getOneHttpRequest inp' = None \<and> unread_len (is_buf inp') \<le> unread_len (is_buf inp)"
  using assms
proof (induction "unread_len (is_buf inp)" arbitrary: inp out a buf rule: less_induct)
  case less
  note eq = io_loop.simps [of un ord rt access "(inp, out, a, buf)"]
  have good: "\<not> is_eof inp" using less.prems(2) by (simp add: is_good_def)
  show ?case
  proof (cases "getOneHttpRequest inp")
    case None
    then show ?thesis by blast
  next
    case (Some z)
    with less.prems(1) good eq obtain req e inp1 where
      z: "getOneHttpRequest inp = Some (Inr (req, e, inp1))"
      by (cases z) auto
    note p = getOneHttpRequest_progress [OF z less.prems(2)]
    have next_turn: "\<exists>out1 a1 buf1. ok a1 \<and> io_loop un ord rt access (inp1, out1, a1, buf1) = None"
    proof (cases "e = SERVER_OK")
      case False
      with less.prems(1,3) good eq z show ?thesis by auto
    next
      case True
      from getResponse_answers [OF less.prems(3), of un req] obtain r a1 where
        r: "getResponseFromRequest un rt access a req = Some (Inr (r, a1))" "ok a1"
          "answers r (expected_version req) (expected_code rt files req) (expected_body rt files req)"
        by blast
      from r(3) obtain b where b: "rp_body r = Some b" "rd_sound b"
        by (auto simp: answers_def split: option.splits)
      from response_returns [OF b] obtain e' r' buf' out' where
        "response ord buf out r = Some (Inr (e', r', buf', out'))" by blast
      with True less.prems(1) good eq z r(1,2) show ?thesis by auto
    qed
    then obtain out1 a1 buf1 where
      n: "ok a1" "io_loop un ord rt access (inp1, out1, a1, buf1) = None" by blast
    then have "\<not> is_eof inp1" by (auto simp: io_loop.simps [of un ord rt access "(inp1, out1, a1, buf1)"])
    with p have "is_good inp1" "unread_len (is_buf inp1) < unread_len (is_buf inp)"
      by (auto simp: is_good_def)
    from less.hyps [OF this(2) n(2) this(1) n(1)] this(2) show ?thesis by (meson less_imp_le le_trans)
  qed
qed

end

section \<open>One readable event\<close>

lemma destroy_flushed:
  "written out = sk_tx (ss_socket (os_buf out)) \<Longrightarrow>
   ss_socket (destroy_SocketStreamBuffer (os_buf out)) = ss_socket (os_buf out)"
  by (simp add: written_def subarr_eq_Nil_iff destroy_SocketStreamBuffer_def sync_def ss_flush_def
      flush_loop.simps Let_def)

text \<open>A socket on which requests have arrived, in any segments, and which takes what is sent.\<close>

definition arrived :: "socket \<Rightarrow> wire_request list \<Rightarrow> bool" where
  "arrived sk qs =
     (list_all (\<lambda>seg. seg \<noteq> [] \<and> CHR 0xFF \<notin> set seg) (sk_rx sk)
      \<and> concat (sk_rx sk) = concat (map wire_bytes qs) \<and> takes_all sk)"

lemma arrived_streams:
  assumes "arrived sk qs"
  shows "is_clean (mk_SocketInputStream (mk_SocketStreamBuffer raw sk))"
    and "is_view (mk_SocketInputStream (mk_SocketStreamBuffer raw sk))
      = flat_good (concat (map wire_bytes qs))"
    and "out_ready (mk_SocketOutputStream (mk_SocketStreamBuffer raw sk))"
    and "written (mk_SocketOutputStream (mk_SocketStreamBuffer raw sk)) = sk_tx sk"
  using assms
  by (simp_all add: arrived_def is_clean_def clean_def list_all_iff is_view_def unread_def out_ready_def
      written_def mk_SocketInputStream_def mk_SocketOutputStream_def mk_SocketStreamBuffer_def)

context responder
begin

lemma io_handle_serves:
  assumes "arrived (io_sockets x (ev_fd (heap e))) qs" and "list_all wire_ok qs"
    and "ok (io_accessor x)" and "ev_worker (heap e) = Some wp"
  shows "\<exists>x1. io_handle sys raw un ord rt access e (k, heap, w, x)
      = Some (Inr (snd (snd (worker_delEvent sys k heap e w)), heap,
          fst (snd (worker_delEvent sys k heap e w)), x1))
    \<and> ok (io_accessor x1)
    \<and> sk_tx (io_sockets x1 (ev_fd (heap e))) = sk_tx (io_sockets x (ev_fd (heap e)))
        @ concat (map (answer_bytes ord rt files \<circ> as_request) qs)
    \<and> (\<forall>fd. fd \<noteq> ev_fd (heap e) \<longrightarrow> io_sockets x1 fd = io_sockets x fd)"
proof -
  let ?sk = "io_sockets x (ev_fd (heap e))"
  let ?inp = "mk_SocketInputStream (mk_SocketStreamBuffer raw ?sk)"
  let ?out = "mk_SocketOutputStream (mk_SocketStreamBuffer raw ?sk)"
  note s = arrived_streams [OF assms(1), of raw]
  have tx: "sk_tx (ss_socket (os_buf ?out)) = written ?out"
    by (simp add: s(4)) (simp add: mk_SocketOutputStream_def mk_SocketStreamBuffer_def)
  from io_pipeline [OF s(1,2) assms(2) s(3) assms(3) tx, of un ord "io_buf x"] obtain inp1 out1 a1 buf1
    where l: "io_loop un ord rt access (?inp, ?out, io_accessor x, io_buf x)
        = Some (Inr (inp1, out1, a1, buf1))" "ok a1"
      "sk_tx (ss_socket (os_buf out1)) = written ?out
        @ concat (map (answer_bytes ord rt files \<circ> as_request) qs)"
      "written out1 = sk_tx (ss_socket (os_buf out1))" by blast
  obtain err w1 k1 where d: "worker_delEvent sys k heap e w = (err, w1, k1)" using prod_cases3 by blast
  from l d assms(4) show ?thesis
    by (simp add: io_handle_def Let_def destroy_flushed s(4))
qed

end

section \<open>A batch of events\<close>

text \<open>Giving up the clients of a batch, one after the other.\<close>

definition release_all :: "'k syscalls \<Rightarrow> event_heap \<Rightarrow> event_sptr list \<Rightarrow> 'k \<times> Worker \<Rightarrow> 'k \<times> Worker" where
  "release_all sys heap es kw =
     foldl (\<lambda>(k, w) e. case worker_delEvent sys k heap e w of (err, w1, k1) \<Rightarrow> (k1, w1)) kw es"

lemma release_all_simps [simp]:
  "release_all sys heap [] kw = kw"
  "release_all sys heap (e # es) (k, w)
    = release_all sys heap es (snd (snd (worker_delEvent sys k heap e w)), fst (snd (worker_delEvent sys k heap e w)))"
  by (simp_all add: release_all_def split: prod.split)

text \<open>The clients behind the events of a batch, each with the requests that have arrived.\<close>

definition clients_ready :: "event_heap \<Rightarrow> 'a io_env \<Rightarrow> (event_sptr \<Rightarrow> wire_request list) \<Rightarrow> event_sptr list \<Rightarrow> bool" where
  "clients_ready heap x qs es =
     (distinct (map (ev_fd \<circ> heap) es)
      \<and> (\<forall>e \<in> set es. arrived (io_sockets x (ev_fd (heap e))) (qs e) \<and> list_all wire_ok (qs e)
           \<and> ev_worker (heap e) \<noteq> None))"

context responder
begin

lemma handle_events_serves:
  assumes "clients_ready heap x qs es" and "ok (io_accessor x)"
  shows "\<exists>k' w' x'. release_all sys heap es (k, w) = (k', w')
    \<and> handle_events (io_handle sys raw un ord rt access) es (k, heap, w, x) = Some (Inr (k', heap, w', x'))
    \<and> ok (io_accessor x')
    \<and> (\<forall>e \<in> set es. sk_tx (io_sockets x' (ev_fd (heap e))) = sk_tx (io_sockets x (ev_fd (heap e)))
          @ concat (map (answer_bytes ord rt files \<circ> as_request) (qs e)))
    \<and> (\<forall>fd. fd \<notin> ev_fd ` heap ` set es \<longrightarrow> io_sockets x' fd = io_sockets x fd)"
  using assms
proof (induction es arbitrary: k w x)
  case Nil
  then show ?case by simp
next
  case (Cons e es)
  from Cons.prems(1) obtain wp where e: "arrived (io_sockets x (ev_fd (heap e))) (qs e)"
    "list_all wire_ok (qs e)" "ev_worker (heap e) = Some wp" by (auto simp: clients_ready_def)
  let ?w1 = "fst (snd (worker_delEvent sys k heap e w))" and ?k1 = "snd (snd (worker_delEvent sys k heap e w))"
  from io_handle_serves [where x = x and heap = heap and e = e and sys = sys and k = k
      and w = w and raw = raw and un = un and ord = ord, OF e(1,2) Cons.prems(2) e(3)] obtain x1 where
    1: "io_handle sys raw un ord rt access e (k, heap, w, x) = Some (Inr (?k1, heap, ?w1, x1))"
      "ok (io_accessor x1)" "sk_tx (io_sockets x1 (ev_fd (heap e))) = sk_tx (io_sockets x (ev_fd (heap e)))
        @ concat (map (answer_bytes ord rt files \<circ> as_request) (qs e))"
      "\<forall>fd. fd \<noteq> ev_fd (heap e) \<longrightarrow> io_sockets x1 fd = io_sockets x fd" by auto
  have other: "ev_fd (heap e') \<noteq> ev_fd (heap e)" if "e' \<in> set es" for e'
    using Cons.prems(1) imageI [OF that, of "ev_fd \<circ> heap"] by (auto simp: clients_ready_def)
  then have "clients_ready heap x1 qs es"
    using Cons.prems(1) 1(4) by (simp add: clients_ready_def)
  from Cons.IH [OF this 1(2), of ?k1 ?w1] obtain k' w' x' where
    2: "release_all sys heap es (?k1, ?w1) = (k', w')"
      "handle_events (io_handle sys raw un ord rt access) es (?k1, heap, ?w1, x1) = Some (Inr (k', heap, w', x'))"
      "ok (io_accessor x')"
      "\<forall>e \<in> set es. sk_tx (io_sockets x' (ev_fd (heap e))) = sk_tx (io_sockets x1 (ev_fd (heap e)))
          @ concat (map (answer_bytes ord rt files \<circ> as_request) (qs e))"
      "\<forall>fd. fd \<notin> ev_fd ` heap ` set es \<longrightarrow> io_sockets x' fd = io_sockets x1 fd" by blast
  have "ev_fd (heap e) \<notin> ev_fd ` heap ` set es" using other by force
  with 2(5) have "io_sockets x' (ev_fd (heap e)) = io_sockets x1 (ev_fd (heap e))" by blast
  with 1(3,4) 2(4) other have
    "\<forall>e' \<in> set (e # es). sk_tx (io_sockets x' (ev_fd (heap e'))) = sk_tx (io_sockets x (ev_fd (heap e')))
        @ concat (map (answer_bytes ord rt files \<circ> as_request) (qs e'))" by simp
  moreover have "\<forall>fd. fd \<notin> ev_fd ` heap ` set (e # es) \<longrightarrow> io_sockets x' fd = io_sockets x fd"
    using 1(4) 2(5) by simp
  ultimately show ?case using 1(1) 2(1-3) by (intro exI [of _ k'] exI [of _ w'] exI [of _ x']) (simp add: comp_def)
qed

end

lemma clear_released:
  "(\<forall>e \<in> set es. e \<notin> snd ` set (ep_events (wk_poller w))) \<Longrightarrow> distinct es \<Longrightarrow>
   clear_events sys heap w es k = foldl (\<lambda>k e. sys_close sys k (ev_fd (heap e))) k es"
proof -
  assume a: "\<forall>e \<in> set es. e \<notin> snd ` set (ep_events (wk_poller w))" "distinct es"
  have "foldl (\<lambda>k e. if e \<in> snd ` set (ep_events (wk_poller w)) then k else destroy_Event sys k (heap e)) k es
      = foldl (\<lambda>k e. sys_close sys k (ev_fd (heap e))) k es"
    using a(1) by (induction es arbitrary: k) (simp_all add: destroy_Event_def)
  with a(2) show ?thesis by (simp add: clear_events_def distinct_remdups_id)
qed

end
