(* ===== verification/Redis_Connection.thy ===== *)
theory Redis_Connection
  imports Prelude Error_Codes
begin

text \<open>
  \<open>Cache/RedisCache.hpp\<close> and \<open>RedisCache.cc\<close>, the connection classes: a connection to a Redis
  server and its builder. The hiredis library and the server behind it are parameters (record
  \<open>hiredis\<close>); the laws the cache needs of them are a locale of \<open>Redis_Cache\<close>.
\<close>

section \<open>Connections\<close>

text \<open>
  \<open>std::shared_ptr<RedisConnection>\<close> is compared by address in the ordered map of the pool; a
  null pointer is below every other address.
\<close>

datatype conn_sptr = nullptr | ConnPtr nat

fun conn_addr :: "conn_sptr \<Rightarrow> nat" where
  "conn_addr nullptr = 0"
| "conn_addr (ConnPtr n) = Suc n"

lemma conn_addr_inject [simp]: "conn_addr p = conn_addr q \<longleftrightarrow> p = q"
  by (cases p; cases q) simp_all

instantiation conn_sptr :: linorder
begin

definition less_eq_conn_sptr :: "conn_sptr \<Rightarrow> conn_sptr \<Rightarrow> bool" where
  "less_eq_conn_sptr p q = (conn_addr p \<le> conn_addr q)"

definition less_conn_sptr :: "conn_sptr \<Rightarrow> conn_sptr \<Rightarrow> bool" where
  "less_conn_sptr p q = (conn_addr p < conn_addr q)"

instance
  by standard (auto simp: less_eq_conn_sptr_def less_conn_sptr_def)

end

datatype redisReply =
    REDIS_REPLY_STRING string
  | REDIS_REPLY_INTEGER int
  | REDIS_REPLY_STATUS string
  | REDIS_REPLY_ERROR string
  | REDIS_REPLY_NIL
  | REDIS_REPLY_ARRAY

datatype redis_command = AUTH string | GET_KEY string | SET_KEY string string

type_synonym redisContext = nat

text \<open>
  The calls into hiredis, and \<open>try_lock_for\<close>, whose outcome depends on the other threads. A null
  reply or context is \<open>None\<close>; a context comes with its \<open>err\<close> field; timeouts are the
  microseconds of the \<open>timeval\<close> passed.
\<close>

record 'w hiredis =
  redisConnectWithTimeout :: "'w \<Rightarrow> string \<Rightarrow> 16 word \<Rightarrow> int \<Rightarrow> (redisContext \<times> bool) option \<times> 'w"
  redisCommand :: "'w \<Rightarrow> redisContext \<Rightarrow> redis_command \<Rightarrow> redisReply option \<times> 'w"
  redisSetTimeout :: "'w \<Rightarrow> redisContext \<Rightarrow> int \<Rightarrow> 'w"
  try_lock_for :: "'w \<Rightarrow> int \<Rightarrow> bool \<times> 'w"
  redisFree :: "'w \<Rightarrow> redisContext \<Rightarrow> 'w"

record RedisConnection =
  rc_ip :: string
  rc_port :: "16 word"
  rc_passwd :: string
  rc_context :: "redisContext option"
  rc_pool :: "nat option"
  rc_lockTimeout :: int
  rc_reqTimeout :: int

definition DEFAULT_REPLY_TIMEOUT :: int where
  "DEFAULT_REPLY_TIMEOUT = 10000"

text \<open>\<open>__port\<close> has no initialiser: its first value is an argument.\<close>

definition mk_RedisConnection :: "16 word \<Rightarrow> RedisConnection" where
  "mk_RedisConnection port0 = \<lparr>rc_ip = [], rc_port = port0, rc_passwd = [], rc_context = None,
     rc_pool = None, rc_lockTimeout = 0, rc_reqTimeout = DEFAULT_REPLY_TIMEOUT\<rparr>"

definition conn_setIP :: "string \<Rightarrow> RedisConnection \<Rightarrow> RedisConnection" where
  "conn_setIP ip c = c\<lparr>rc_ip := ip\<rparr>"

definition conn_setPort :: "16 word \<Rightarrow> RedisConnection \<Rightarrow> RedisConnection" where
  "conn_setPort p c = c\<lparr>rc_port := p\<rparr>"

definition conn_setPasswd :: "string \<Rightarrow> RedisConnection \<Rightarrow> RedisConnection" where
  "conn_setPasswd p c = c\<lparr>rc_passwd := p\<rparr>"

definition conn_setLockTimeout :: "int \<Rightarrow> RedisConnection \<Rightarrow> RedisConnection" where
  "conn_setLockTimeout t c = c\<lparr>rc_lockTimeout := t\<rparr>"

definition conn_setReqTimeout :: "int \<Rightarrow> RedisConnection \<Rightarrow> RedisConnection" where
  "conn_setReqTimeout t c = c\<lparr>rc_reqTimeout := t\<rparr>"

definition conn_setPool :: "nat option \<Rightarrow> RedisConnection \<Rightarrow> RedisConnection" where
  "conn_setPool p c = c\<lparr>rc_pool := p\<rparr>"

text \<open>The destructor frees the context; dropping the weak pointer to the pool has no other effect.\<close>

definition destroy_RedisConnection :: "'w hiredis \<Rightarrow> 'w \<Rightarrow> RedisConnection \<Rightarrow> 'w" where
  "destroy_RedisConnection hi w c = (case rc_context c of None \<Rightarrow> w | Some x \<Rightarrow> redisFree hi w x)"

definition c_str :: "string \<Rightarrow> string" where
  "c_str s = takeWhile (\<lambda>c. c \<noteq> CHR 0x00) s"

definition contextInit ::
  "'w hiredis \<Rightarrow> 'w \<Rightarrow> RedisConnection \<Rightarrow> server_err_t \<times> RedisConnection \<times> 'w" where
  "contextInit hi w c =
     (if rc_context c \<noteq> None then (REDIS_INIT_ALREADYDONE, c, w)
      else (case redisConnectWithTimeout hi w (c_str (rc_ip c)) (rc_port c) (rc_reqTimeout c) of
              (None, w1) \<Rightarrow> (REDIS_CONN_TIMEOUT, c, w1)
            | (Some (ctx, err), w1) \<Rightarrow>
                let c1 = c\<lparr>rc_context := Some ctx\<rparr>
                in if err then (REDIS_INIT_FAILED, c1, w1)
                   else if rc_passwd c \<noteq> []
                   then (case redisCommand hi w1 ctx (AUTH (c_str (rc_passwd c))) of
                           (None, w2) \<Rightarrow> (REDIS_NULL_REPLY, c1, w2)
                         | (Some (REDIS_REPLY_ERROR s), w2) \<Rightarrow> (REDIS_PASSWD_WRONG, c1, w2)
                         | (Some (REDIS_REPLY_STATUS s), w2) \<Rightarrow>
                             if c_str s \<noteq> ''OK'' then (REDIS_PASSWD_WRONG, c1, w2)
                             else (SERVER_OK, c1, redisSetTimeout hi w2 ctx (rc_reqTimeout c))
                         | (Some r, w2) \<Rightarrow>
                             (SERVER_OK, c1, redisSetTimeout hi w2 ctx (rc_reqTimeout c)))
                   else (SERVER_OK, c1, redisSetTimeout hi w1 ctx (rc_reqTimeout c))))"

text \<open>Taking the timed mutex: blocking when the timeout is zero, else for a limited time.\<close>

definition conn_lock :: "'w hiredis \<Rightarrow> 'w \<Rightarrow> RedisConnection \<Rightarrow> bool \<times> 'w" where
  "conn_lock hi w c =
     (if rc_lockTimeout c = 0 then (True, w) else try_lock_for hi w (rc_lockTimeout c))"

definition getKey ::
  "'w hiredis \<Rightarrow> 'w \<Rightarrow> RedisConnection \<Rightarrow> string \<Rightarrow> string \<Rightarrow> bool \<times> string \<times> 'w" where
  "getKey hi w c key retval =
     (case rc_context c of
        None \<Rightarrow> (False, retval, w)
      | Some ctx \<Rightarrow>
          (case conn_lock hi w c of
             (False, w1) \<Rightarrow> (False, retval, w1)
           | (True, w1) \<Rightarrow>
               (case redisCommand hi w1 ctx (GET_KEY (c_str key)) of
                  (Some (REDIS_REPLY_STRING s), w2) \<Rightarrow> (True, s, w2)
                | (Some (REDIS_REPLY_INTEGER i), w2) \<Rightarrow> (True, int_to_string i, w2)
                | (r, w2) \<Rightarrow> (False, retval, w2))))"

definition putKey ::
  "'w hiredis \<Rightarrow> 'w \<Rightarrow> RedisConnection \<Rightarrow> string \<Rightarrow> string \<Rightarrow> bool \<times> 'w" where
  "putKey hi w c key val =
     (case rc_context c of
        None \<Rightarrow> (False, w)
      | Some ctx \<Rightarrow>
          (case conn_lock hi w c of
             (False, w1) \<Rightarrow> (False, w1)
           | (True, w1) \<Rightarrow>
               (case redisCommand hi w1 ctx (SET_KEY (c_str key) val) of
                  (Some (REDIS_REPLY_STATUS s), w2) \<Rightarrow> (c_str s = ''OK'', w2)
                | (r, w2) \<Rightarrow> (False, w2))))"

section \<open>RedisConnectionBuilder\<close>

record RedisConnectionBuilder =
  cb_obj :: RedisConnection

definition mk_RedisConnectionBuilder :: "16 word \<Rightarrow> RedisConnectionBuilder" where
  "mk_RedisConnectionBuilder port0 = \<lparr>cb_obj = mk_RedisConnection port0\<rparr>"

definition cb_setIP :: "string \<Rightarrow> RedisConnectionBuilder \<Rightarrow> RedisConnectionBuilder" where
  "cb_setIP ip b = b\<lparr>cb_obj := conn_setIP ip (cb_obj b)\<rparr>"

definition cb_setPort :: "16 word \<Rightarrow> RedisConnectionBuilder \<Rightarrow> RedisConnectionBuilder" where
  "cb_setPort p b = b\<lparr>cb_obj := conn_setPort p (cb_obj b)\<rparr>"

definition cb_setPasswd :: "string \<Rightarrow> RedisConnectionBuilder \<Rightarrow> RedisConnectionBuilder" where
  "cb_setPasswd p b = b\<lparr>cb_obj := conn_setPasswd p (cb_obj b)\<rparr>"

definition cb_setLockTimeout :: "int \<Rightarrow> RedisConnectionBuilder \<Rightarrow> RedisConnectionBuilder" where
  "cb_setLockTimeout t b = b\<lparr>cb_obj := conn_setLockTimeout t (cb_obj b)\<rparr>"

definition cb_setReqTimeout :: "int \<Rightarrow> RedisConnectionBuilder \<Rightarrow> RedisConnectionBuilder" where
  "cb_setReqTimeout t b = b\<lparr>cb_obj := conn_setReqTimeout t (cb_obj b)\<rparr>"

definition cb_setPool :: "nat option \<Rightarrow> RedisConnectionBuilder \<Rightarrow> RedisConnectionBuilder" where
  "cb_setPool p b = b\<lparr>cb_obj := conn_setPool p (cb_obj b)\<rparr>"

definition cb_build :: "RedisConnectionBuilder \<Rightarrow> RedisConnection" where
  "cb_build b = cb_obj b"

section \<open>A failed initialisation is final\<close>

lemma contextInit_context:
  "contextInit hi w c = (e, c', w') \<Longrightarrow> e \<noteq> REDIS_CONN_TIMEOUT \<Longrightarrow> rc_context c' \<noteq> None"
  by (auto simp: contextInit_def Let_def split: if_splits prod.splits option.splits redisReply.splits)

text \<open>
  Initialisation happens at most once, even when it fails: unless the connection timed out,
  a second \<open>contextInit\<close> refuses and does nothing, so a connection refused by the server or
  with a wrong password keeps its broken context and is never tried again.
\<close>

theorem contextInit_once:
  assumes "contextInit hi w c = (e, c', w')" and "e \<noteq> REDIS_CONN_TIMEOUT"
  shows "contextInit hi w2 c' = (REDIS_INIT_ALREADYDONE, c', w2)
    \<and> (\<exists>x. rc_context c' = Some x)"
  using contextInit_context [OF assms] by (auto simp: contextInit_def)

theorem contextInit_once_witness:
  "let hi = \<lparr>redisConnectWithTimeout = (\<lambda>w ip port t. (Some (7, True), w)),
             redisCommand = (\<lambda>w x cmd. (None, w)), redisSetTimeout = (\<lambda>w x t. w),
             try_lock_for = (\<lambda>w t. (True, w)), redisFree = (\<lambda>w x. w)\<rparr>;
       c' = (mk_RedisConnection 6379)\<lparr>rc_context := Some 7\<rparr>
   in contextInit hi () (mk_RedisConnection 6379) = (REDIS_INIT_FAILED, c', ())
      \<and> contextInit hi () c' = (REDIS_INIT_ALREADYDONE, c', ())"
proof -
  let ?hi = "\<lparr>redisConnectWithTimeout = (\<lambda>w ip port t. (Some (7, True), w)),
             redisCommand = (\<lambda>w x cmd. (None, w)), redisSetTimeout = (\<lambda>w x t. w),
             try_lock_for = (\<lambda>w t. (True, w)), redisFree = (\<lambda>w x. w)\<rparr> :: unit hiredis"
  have i: "contextInit ?hi () (mk_RedisConnection 6379)
      = (REDIS_INIT_FAILED, (mk_RedisConnection 6379)\<lparr>rc_context := Some 7\<rparr>, ())"
    by (simp add: contextInit_def mk_RedisConnection_def)
  from contextInit_once [OF i] i show ?thesis by simp
qed

end
