(* ===== verification/Redis_Pool.thy ===== *)
theory Redis_Pool
  imports Redis_Connection "HOL-Library.Multiset"
begin

text \<open>
  The connection pool of \<open>Cache/RedisCache.hpp\<close> and \<open>RedisCache.cc\<close>. The pool is protected by
  one mutex, so each operation is one atomic step; the threads that use it are interleaved
  sequences of these steps.
\<close>

section \<open>The ordered map\<close>

text \<open>
  \<open>std::map<conn_sptr_t, ref_count_t>\<close> as the list of its entries in key order, the order in
  which the range-based loop visits them.
\<close>

type_synonym conn_ref_map_t = "(conn_sptr \<times> 32 word) list"

fun omap_put :: "'k::linorder \<Rightarrow> 'v \<Rightarrow> ('k \<times> 'v) list \<Rightarrow> ('k \<times> 'v) list" where
  "omap_put k v [] = [(k, v)]"
| "omap_put k v ((k', v') # m) =
     (if k < k' then (k, v) # (k', v') # m
      else if k = k' then (k, v) # m
      else (k', v') # omap_put k v m)"

definition omap_at :: "('k \<times> 32 word) list \<Rightarrow> 'k \<Rightarrow> 32 word" where
  "omap_at m k = (case map_of m k of Some v \<Rightarrow> v | None \<Rightarrow> 0)"

section \<open>RedisConnectionPool\<close>

record RedisConnectionPool =
  pl_conns :: conn_ref_map_t
  pl_maxConn :: "8 word"
  pl_maxRef :: "32 word"

definition mk_RedisConnectionPool :: "8 word \<Rightarrow> 32 word \<Rightarrow> RedisConnectionPool" where
  "mk_RedisConnectionPool maxConn maxRef =
     \<lparr>pl_conns = [], pl_maxConn = maxConn, pl_maxRef = maxRef\<rparr>"

definition pushConnection ::
  "conn_sptr \<Rightarrow> RedisConnectionPool \<Rightarrow> server_err_t \<times> RedisConnectionPool" where
  "pushConnection conn p =
     (if conn = nullptr then (REDIS_POOL_CONN_NULL, p)
      else if unat (pl_maxConn p) \<le> length (pl_conns p) then (REDIS_POOL_MAXCONN, p)
      else if map_of (pl_conns p) conn \<noteq> None then (REDIS_POOL_CONNEXIST, p)
      else (SERVER_OK, p\<lparr>pl_conns := omap_put conn 0 (pl_conns p)\<rparr>))"

definition curConnNum :: "RedisConnectionPool \<Rightarrow> 8 word" where
  "curConnNum p = of_nat (length (pl_conns p))"

definition pool_clear :: "RedisConnectionPool \<Rightarrow> server_err_t \<times> RedisConnectionPool" where
  "pool_clear p = (SERVER_OK, p\<lparr>pl_conns := []\<rparr>)"

fun min_ref_loop :: "conn_sptr \<times> 32 word \<Rightarrow> conn_ref_map_t \<Rightarrow> conn_sptr \<times> 32 word" where
  "min_ref_loop acc [] = acc"
| "min_ref_loop (ret, minref) ((conn, ref) # m) =
     (if ref < minref then min_ref_loop (conn, ref) m else min_ref_loop (ret, minref) m)"

definition getOneConnection :: "RedisConnectionPool \<Rightarrow> conn_sptr \<times> RedisConnectionPool" where
  "getOneConnection p =
     (case min_ref_loop (nullptr, pl_maxRef p + 1) (pl_conns p) of
        (ret, minref) \<Rightarrow>
          if pl_maxRef p \<le> minref then (nullptr, p)
          else (ret, p\<lparr>pl_conns := omap_put ret (omap_at (pl_conns p) ret + 1) (pl_conns p)\<rparr>))"

definition returnConnection :: "conn_sptr \<Rightarrow> RedisConnectionPool \<Rightarrow> RedisConnectionPool" where
  "returnConnection conn p =
     (if conn = nullptr then p
      else if map_of (pl_conns p) conn \<noteq> None \<and> omap_at (pl_conns p) conn \<noteq> 0
      then p\<lparr>pl_conns := omap_put conn (omap_at (pl_conns p) conn - 1) (pl_conns p)\<rparr>
      else p)"

section \<open>Lemmas on the ordered map\<close>

abbreviation sorted_keys :: "('k::linorder \<times> 'v) list \<Rightarrow> bool" where
  "sorted_keys m \<equiv> sorted_wrt (<) (map fst m)"

lemma set_keys_omap_put [simp]: "fst ` set (omap_put k v m) = insert k (fst ` set m)"
  by (induction k v m rule: omap_put.induct) auto

lemma sorted_omap_put: "sorted_keys m \<Longrightarrow> sorted_keys (omap_put k v m)"
proof (induction k v m rule: omap_put.induct)
  case (1 k v)
  then show ?case by simp
next
  case (2 k v k' v' m)
  have "fst ` set (omap_put k v m) = insert k (fst ` set m)" by simp
  with 2 show ?case by (auto simp del: set_keys_omap_put)
qed

lemma map_of_omap_put: "sorted_keys m \<Longrightarrow> map_of (omap_put k v m) = (map_of m)(k \<mapsto> v)"
proof (induction k v m rule: omap_put.induct)
  case (1 k v)
  then show ?case by simp
next
  case (2 k v k' v' m)
  then show ?case by (auto simp: fun_eq_iff)
qed

lemma length_omap_put:
  "sorted_keys m \<Longrightarrow> length (omap_put k v m) = (if k \<in> fst ` set m then length m else Suc (length m))"
  by (induction k v m rule: omap_put.induct) auto

lemma omap_put_same: "sorted_keys m \<Longrightarrow> map_of m k = Some v \<Longrightarrow> omap_put k v m = m"
  by (induction k v m rule: omap_put.induct) (fastforce dest: map_of_SomeD split: if_splits)+

lemma omap_put_put: "omap_put k v (omap_put k v' m) = omap_put k v m"
  by (induction k v' m rule: omap_put.induct) auto

lemma sorted_keys_distinct: "sorted_keys m \<Longrightarrow> distinct (map fst m)"
  by (rule strict_sorted_iff [THEN iffD1, THEN conjunct2])

section \<open>The choice of a connection\<close>

definition pool_wf :: "RedisConnectionPool \<Rightarrow> bool" where
  "pool_wf p =
     (sorted_keys (pl_conns p) \<and> nullptr \<notin> fst ` set (pl_conns p)
      \<and> (\<forall>(c, r) \<in> set (pl_conns p). r \<le> pl_maxRef p)
      \<and> length (pl_conns p) \<le> unat (pl_maxConn p))"

lemma min_ref_loop_cases:
  "min_ref_loop (r0, m0) m = (r, k) \<Longrightarrow>
     ((r, k) = (r0, m0) \<and> (\<forall>(c, x) \<in> set m. m0 \<le> x))
     \<or> ((r, k) \<in> set m \<and> k < m0 \<and> (\<forall>(c, x) \<in> set m. k \<le> x))"
proof (induction m arbitrary: r0 m0)
  case Nil
  then show ?case by simp
next
  case (Cons e m)
  obtain c x where e: "e = (c, x)" by fastforce
  show ?case
  proof (cases "x < m0")
    case True
    with Cons.prems e have "min_ref_loop (c, x) m = (r, k)" by simp
    from Cons.IH [OF this] True e show ?thesis by auto
  next
    case False
    with Cons.prems e have "min_ref_loop (r0, m0) m = (r, k)" by simp
    from Cons.IH [OF this] False e show ?thesis by auto
  qed
qed

lemma omap_at_Some: "map_of m k = Some v \<Longrightarrow> omap_at m k = v"
  by (simp add: omap_at_def)

text \<open>
  The specification of \<open>getOneConnection\<close>: no connection when all are saturated, else one with
  the fewest references, whose count goes up by one.
\<close>

lemma no_wrap_less: "x \<noteq> -1 \<Longrightarrow> x < x + (1 :: 32 word)"
  by (meson not_le inc_less_eq_triv_imp)

lemma getOneConnection_cases:
  assumes "pool_wf p" and "pl_maxRef p \<noteq> -1" and "getOneConnection p = (c, p')"
  shows "(c = nullptr \<and> p' = p \<and> (\<forall>(d, r) \<in> set (pl_conns p). r = pl_maxRef p))
    \<or> (\<exists>r. c \<noteq> nullptr \<and> map_of (pl_conns p) c = Some r \<and> r < pl_maxRef p
         \<and> (\<forall>(d, r') \<in> set (pl_conns p). r \<le> r')
         \<and> p' = p\<lparr>pl_conns := omap_put c (r + 1) (pl_conns p)\<rparr>)"
proof -
  obtain ret k where l: "min_ref_loop (nullptr, pl_maxRef p + 1) (pl_conns p) = (ret, k)" by fastforce
  have lt: "pl_maxRef p < pl_maxRef p + 1" using assms(2) by (rule no_wrap_less)
  show ?thesis
  proof (cases "pl_maxRef p \<le> k")
    case True
    with assms(3) l have "c = nullptr \<and> p' = p" by (auto simp: getOneConnection_def)
    moreover from min_ref_loop_cases [OF l] True lt assms(1)
    have "\<forall>(d, r) \<in> set (pl_conns p). r = pl_maxRef p"
      by (fastforce simp: pool_wf_def)
    ultimately show ?thesis by blast
  next
    case False
    with min_ref_loop_cases [OF l] lt have "(ret, k) \<in> set (pl_conns p)"
      and min: "\<forall>(d, r') \<in> set (pl_conns p). k \<le> r'" by auto
    with assms(1) have m: "map_of (pl_conns p) ret = Some k" and "ret \<noteq> nullptr"
      by (force simp: pool_wf_def sorted_keys_distinct)+
    with False assms(3) l min show ?thesis
      by (auto simp: getOneConnection_def omap_at_Some)
  qed
qed

section \<open>The invariant of the pool\<close>

lemma refs_omap_put:
  "\<forall>(c, r) \<in> set m. r \<le> x \<Longrightarrow> v \<le> x \<Longrightarrow> \<forall>(c, r) \<in> set (omap_put k v m). r \<le> (x :: 32 word)"
  by (induction k v m rule: omap_put.induct) auto

lemma pool_wf_put:
  assumes "pool_wf p" and "map_of (pl_conns p) c = Some r" and "v \<le> pl_maxRef p"
  shows "pool_wf (p\<lparr>pl_conns := omap_put c v (pl_conns p)\<rparr>)"
proof -
  from assms(2) have "c \<in> fst ` set (pl_conns p)" by (force dest: map_of_SomeD)
  with assms refs_omap_put [of "pl_conns p" "pl_maxRef p" v c] show ?thesis
    by (auto simp: pool_wf_def sorted_omap_put length_omap_put)
qed

lemma pool_wf_mk: "pool_wf (mk_RedisConnectionPool mc mr)"
  by (simp add: pool_wf_def mk_RedisConnectionPool_def)

lemma pool_wf_push: "pool_wf p \<Longrightarrow> pool_wf (snd (pushConnection c p))"
  using refs_omap_put [of "pl_conns p" "pl_maxRef p" 0 c]
  by (auto simp: pushConnection_def pool_wf_def sorted_omap_put length_omap_put)

lemma pool_wf_clear: "pool_wf p \<Longrightarrow> pool_wf (snd (pool_clear p))"
  by (simp add: pool_clear_def pool_wf_def)

lemma pool_wf_get:
  assumes "pool_wf p" and "pl_maxRef p \<noteq> -1"
  shows "pool_wf (snd (getOneConnection p))"
proof -
  obtain c p' where g: "getOneConnection p = (c, p')" by fastforce
  from getOneConnection_cases [OF assms g] show ?thesis
  proof (elim disjE exE conjE)
    fix r assume r: "map_of (pl_conns p) c = Some r" "r < pl_maxRef p"
      "p' = p\<lparr>pl_conns := omap_put c (r + 1) (pl_conns p)\<rparr>"
    from r(2) have "r + 1 \<le> pl_maxRef p" by (rule inc_le)
    with pool_wf_put [OF assms(1) r(1)] r(3) g show ?thesis by simp
  qed (use g assms in simp)
qed

lemma pool_wf_return: "pool_wf p \<Longrightarrow> pool_wf (returnConnection c p)"
proof (cases "c \<noteq> nullptr \<and> map_of (pl_conns p) c \<noteq> None \<and> omap_at (pl_conns p) c \<noteq> 0")
  case True
  assume wf: "pool_wf p"
  from True obtain r where r: "map_of (pl_conns p) c = Some r" "r \<noteq> 0" by (auto simp: omap_at_def)
  with wf have "r \<le> pl_maxRef p" by (auto simp: pool_wf_def dest: map_of_SomeD)
  moreover from r(2) have "r - 1 \<le> r" by (intro word_sub_le) (simp add: word_le_sub1)
  ultimately have "r - 1 \<le> pl_maxRef p" by simp
  with pool_wf_put [OF wf r(1)] True r show ?thesis by (simp add: returnConnection_def omap_at_Some)
qed (auto simp: returnConnection_def)

section \<open>Properties of one operation\<close>

text \<open>
  The pool balances its load: unless the reference limit is the largest \<open>unsigned\<close>,
  \<open>getOneConnection\<close> returns null exactly when every connection is at its limit, leaving the
  pool as it is, and otherwise a connection whose count is the smallest of all, below the limit,
  and is raised by one.
\<close>

theorem getOneConnection_least_loaded:
  assumes "pool_wf p" and "pl_maxRef p \<noteq> -1" and "getOneConnection p = (c, p')"
  shows "(c = nullptr \<longleftrightarrow> (\<forall>(d, r) \<in> set (pl_conns p). r = pl_maxRef p))
    \<and> (if c = nullptr then p' = p
       else omap_at (pl_conns p) c < pl_maxRef p
         \<and> (\<forall>(d, r) \<in> set (pl_conns p). omap_at (pl_conns p) c \<le> r)
         \<and> map_of (pl_conns p') = (map_of (pl_conns p))(c \<mapsto> omap_at (pl_conns p) c + 1))"
proof -
  from assms(1) have s: "sorted_keys (pl_conns p)" by (simp add: pool_wf_def)
  from getOneConnection_cases [OF assms] show ?thesis
  proof (elim disjE exE conjE)
    fix r
    assume c: "c \<noteq> nullptr" "map_of (pl_conns p) c = Some r" "r < pl_maxRef p"
      "\<forall>(d, r') \<in> set (pl_conns p). r \<le> r'" "p' = p\<lparr>pl_conns := omap_put c (r + 1) (pl_conns p)\<rparr>"
    have "\<not> (\<forall>(d, r) \<in> set (pl_conns p). r = pl_maxRef p)"
      using map_of_SomeD [OF c(2)] c(3) by force
    with c s show ?thesis by (simp add: omap_at_Some map_of_omap_put)
  qed simp
qed

theorem getOneConnection_least_loaded_witness:
  "let p = \<lparr>pl_conns = [(ConnPtr 1, 2), (ConnPtr 4, 1), (ConnPtr 9, 1)], pl_maxConn = 4,
       pl_maxRef = 2\<rparr> in
   fst (getOneConnection p) = ConnPtr 4
   \<and> (\<forall>(d, r) \<in> set (pl_conns p). omap_at (pl_conns p) (ConnPtr 4) \<le> r)"
proof -
  let ?p = "\<lparr>pl_conns = [(ConnPtr 1, 2), (ConnPtr 4, 1), (ConnPtr 9, 1)], pl_maxConn = 4,
       pl_maxRef = 2\<rparr>"
  have g: "getOneConnection ?p =
     (ConnPtr 4, ?p\<lparr>pl_conns := [(ConnPtr 1, 2), (ConnPtr 4, 2), (ConnPtr 9, 1)]\<rparr>)"
    by (simp add: getOneConnection_def omap_at_def less_conn_sptr_def word_le_nat_alt
        word_less_nat_alt)
  have "pool_wf ?p" by (simp add: pool_wf_def less_conn_sptr_def)
  from getOneConnection_least_loaded [OF this _ g] g show ?thesis by simp
qed

lemma pool_get_return:
  assumes "pool_wf p" and "pl_maxRef p \<noteq> -1" and "getOneConnection p = (c, p')"
  shows "returnConnection c p' = p"
  using getOneConnection_cases [OF assms]
proof (elim disjE exE conjE)
  fix r
  assume c: "c \<noteq> nullptr" "map_of (pl_conns p) c = Some r" "r < pl_maxRef p"
    "p' = p\<lparr>pl_conns := omap_put c (r + 1) (pl_conns p)\<rparr>"
  from assms(1) have s: "sorted_keys (pl_conns p)" by (simp add: pool_wf_def)
  from c(3) have "r \<noteq> -1" by auto
  then have "r + 1 \<noteq> 0" by (simp add: eq_neg_iff_add_eq_0)
  with c s show ?thesis
    by (simp add: returnConnection_def map_of_omap_put omap_at_Some omap_put_put omap_put_same)
qed (use assms in \<open>auto simp: returnConnection_def\<close>)

text \<open>
  Taking a connection and giving it back leaves the pool exactly as it was.
\<close>

theorem get_return_restores:
  assumes "pool_wf p" and "pl_maxRef p \<noteq> -1" and "getOneConnection p = (c, p')"
  shows "returnConnection c p' = p"
  by (rule pool_get_return [OF assms])

theorem get_return_restores_witness:
  "returnConnection (ConnPtr 1)
     \<lparr>pl_conns = [(ConnPtr 1, 3)], pl_maxConn = 4, pl_maxRef = 5\<rparr>
   = \<lparr>pl_conns = [(ConnPtr 1, 2)], pl_maxConn = 4, pl_maxRef = 5\<rparr>"
proof (rule get_return_restores)
  show "pool_wf \<lparr>pl_conns = [(ConnPtr 1, 2)], pl_maxConn = 4, pl_maxRef = 5\<rparr>"
    by (simp add: pool_wf_def)
  show "getOneConnection \<lparr>pl_conns = [(ConnPtr 1, 2)], pl_maxConn = 4, pl_maxRef = 5\<rparr>
      = (ConnPtr 1, \<lparr>pl_conns = [(ConnPtr 1, 3)], pl_maxConn = 4, pl_maxRef = 5\<rparr>)"
    by (simp add: getOneConnection_def omap_at_def)
qed simp

text \<open>
  The number of connections fits the \<open>uint8_t\<close> it is returned in, whatever was pushed, so
  \<open>curConnNum\<close> is never truncated.
\<close>

theorem curConnNum_exact:
  assumes "pool_wf p"
  shows "unat (curConnNum p) = length (pl_conns p)"
proof -
  from assms have "length (pl_conns p) \<le> unat (pl_maxConn p)" by (simp add: pool_wf_def)
  also have "\<dots> < 2 ^ 8" using unsigned_less [of "pl_maxConn p", where ?'a = nat] by simp
  finally show ?thesis
    by (simp add: curConnNum_def unat_of_nat take_bit_nat_eq_self)
qed

theorem curConnNum_exact_witness:
  "unat (curConnNum (snd (pushConnection (ConnPtr 3) (mk_RedisConnectionPool 1 0))))
   = length (pl_conns (snd (pushConnection (ConnPtr 3) (mk_RedisConnectionPool 1 0))))"
  by (rule curConnNum_exact [OF pool_wf_push [OF pool_wf_mk]])

text \<open>
  With a reference limit of \<open>UINT_MAX\<close> the sentinel \<open>__maxRef + 1\<close> wraps to zero: no
  connection is ever handed out, and the null pointer is counted as one more connection.
\<close>

theorem getOneConnection_wraps:
  assumes "pl_maxRef p = -1"
  shows "getOneConnection p =
    (nullptr, p\<lparr>pl_conns := omap_put nullptr (omap_at (pl_conns p) nullptr + 1) (pl_conns p)\<rparr>)"
proof -
  have "min_ref_loop (nullptr, 0) m = (nullptr, 0)" for m :: conn_ref_map_t
    by (induction m) auto
  with assms show ?thesis by (simp add: getOneConnection_def)
qed

theorem getOneConnection_wraps_witness:
  "getOneConnection \<lparr>pl_conns = [(ConnPtr 0, 0)], pl_maxConn = 1, pl_maxRef = 0xFFFFFFFF\<rparr>
   = (nullptr, \<lparr>pl_conns = [(nullptr, 1), (ConnPtr 0, 0)], pl_maxConn = 1, pl_maxRef = 0xFFFFFFFF\<rparr>)"
  using getOneConnection_wraps [of "\<lparr>pl_conns = [(ConnPtr 0, 0)], pl_maxConn = 1,
    pl_maxRef = 0xFFFFFFFF\<rparr>"]
  by (simp add: omap_at_def less_conn_sptr_def)

section \<open>Threads sharing the pool\<close>

text \<open>
  The state of a run: the pool and the multiset of connections the threads hold. Each step is
  one call by some thread; a thread returns only what it holds, as \<open>RedisCache\<close> does.
\<close>

inductive pool_step ::
  "RedisConnectionPool \<times> conn_sptr multiset \<Rightarrow> RedisConnectionPool \<times> conn_sptr multiset \<Rightarrow> bool"
where
  step_push: "pushConnection c p = (e, p') \<Longrightarrow> pool_step (p, H) (p', H)"
| step_take: "getOneConnection p = (c, p') \<Longrightarrow> c \<noteq> nullptr \<Longrightarrow> pool_step (p, H) (p', add_mset c H)"
| step_refused: "getOneConnection p = (nullptr, p') \<Longrightarrow> pool_step (p, H) (p', H)"
| step_give: "c \<in># H \<Longrightarrow> pool_step (p, H) (returnConnection c p, H - {#c#})"

definition refs_exact :: "RedisConnectionPool \<Rightarrow> conn_sptr multiset \<Rightarrow> bool" where
  "refs_exact p H = (\<forall>c. count H c = unat (omap_at (pl_conns p) c))"

definition pool_inv :: "RedisConnectionPool \<times> conn_sptr multiset \<Rightarrow> bool" where
  "pool_inv s = (pool_wf (fst s) \<and> pl_maxRef (fst s) \<noteq> -1 \<and> refs_exact (fst s) (snd s))"

lemma pool_wf_null: "pool_wf p \<Longrightarrow> map_of (pl_conns p) nullptr = None"
  by (simp add: pool_wf_def map_of_eq_None_iff)

lemma omap_at_put:
  "sorted_keys m \<Longrightarrow> omap_at (omap_put k v m) k' = (if k' = k then v else omap_at m k')"
  by (simp add: omap_at_def map_of_omap_put)

lemma pl_maxRef_frame [simp]:
  "pl_maxRef (snd (pushConnection c p)) = pl_maxRef p"
  "pl_maxRef (snd (getOneConnection p)) = pl_maxRef p"
  "pl_maxRef (returnConnection c p) = pl_maxRef p"
  "pl_maxConn (snd (pushConnection c p)) = pl_maxConn p"
  "pl_maxConn (snd (getOneConnection p)) = pl_maxConn p"
  "pl_maxConn (returnConnection c p) = pl_maxConn p"
  by (auto simp: pushConnection_def getOneConnection_def returnConnection_def split: prod.splits)

lemma refs_exact_push:
  assumes "pool_wf p" and "refs_exact p H"
  shows "refs_exact (snd (pushConnection c p)) H"
proof (cases "map_of (pl_conns p) c = None")
  case True
  then have "omap_at (pl_conns p) c = 0" by (simp add: omap_at_def)
  with assms show ?thesis
    by (auto simp: refs_exact_def pushConnection_def pool_wf_def omap_at_put)
qed (use assms in \<open>simp add: pushConnection_def\<close>)

lemma refs_exact_take:
  assumes "pool_inv (p, H)" and "getOneConnection p = (c, p')" and "c \<noteq> nullptr"
  shows "refs_exact p' (add_mset c H)"
proof -
  from assms(1) have p: "pool_wf p" "pl_maxRef p \<noteq> -1" "refs_exact p H"
    by (simp_all add: pool_inv_def)
  from getOneConnection_cases [OF p(1,2) assms(2)] assms(3) obtain r where
    r: "map_of (pl_conns p) c = Some r" "r < pl_maxRef p"
      "p' = p\<lparr>pl_conns := omap_put c (r + 1) (pl_conns p)\<rparr>" by auto
  from r(2) have "r \<noteq> -1" by auto
  then have "1 + r \<noteq> 0" by (simp add: eq_neg_iff_add_eq_0 add.commute)
  then have "unat (r + 1) = Suc (unat r)" by (subst add.commute) (rule unatSuc)
  with p r show ?thesis
    by (auto simp: refs_exact_def pool_wf_def omap_at_put omap_at_Some)
qed

lemma refs_exact_give:
  assumes "pool_wf p" and "refs_exact p H" and "c \<in># H"
  shows "refs_exact (returnConnection c p) (H - {#c#})"
proof -
  from assms(2,3) have nz: "omap_at (pl_conns p) c \<noteq> 0"
    by (metis refs_exact_def count_greater_zero_iff less_numeral_extra(3) unat_0)
  then obtain r where r: "map_of (pl_conns p) c = Some r" by (auto simp: omap_at_def split: option.splits)
  with pool_wf_null [OF assms(1)] have "c \<noteq> nullptr" by auto
  moreover from nz have "unat (omap_at (pl_conns p) c - 1) = unat (omap_at (pl_conns p) c) - 1"
    by (intro unat_minus_one)
  ultimately show ?thesis using assms nz r
    by (auto simp: refs_exact_def returnConnection_def pool_wf_def omap_at_put)
qed

lemma pool_step_inv:
  assumes "pool_inv s" and "pool_step s t"
  shows "pool_inv t"
  using assms(2,1)
proof (induction rule: pool_step.induct)
  case (step_push c p e p' H)
  then have p: "pool_wf p" "refs_exact p H" "pl_maxRef p \<noteq> -1" by (simp_all add: pool_inv_def)
  from step_push(1) have "p' = snd (pushConnection c p)" by simp
  with p show ?case by (simp add: pool_inv_def pool_wf_push refs_exact_push)
next
  case (step_take p c p' H)
  then have p: "pool_wf p" "pl_maxRef p \<noteq> -1" by (simp_all add: pool_inv_def)
  from step_take(1) have "p' = snd (getOneConnection p)" by simp
  with p step_take show ?case by (simp add: pool_inv_def pool_wf_get refs_exact_take)
next
  case (step_refused p p' H)
  then have "pool_wf p" "pl_maxRef p \<noteq> -1" by (simp_all add: pool_inv_def)
  from getOneConnection_cases [OF this step_refused(1)] step_refused(2) show ?case by auto
next
  case (step_give c H p)
  then show ?case by (simp add: pool_inv_def pool_wf_return refs_exact_give)
qed

interpretation pool: invariant_system pool_step pool_inv
  by unfold_locales (rule pool_step_inv)

text \<open>
  (C10) Reference counts are exact under every interleaving: whatever calls the threads make, in
  any order, the count of each connection is the number of its current holders, never more than
  the limit, and only pooled connections are held.
\<close>

theorem pool_counts_holders:
  assumes "pool_step\<^sup>*\<^sup>* (mk_RedisConnectionPool maxConn maxRef, {#}) (p, H)"
    and "maxRef \<noteq> -1"
  shows "count H c = unat (omap_at (pl_conns p) c) \<and> count H c \<le> unat (pl_maxRef p)
    \<and> (c \<in># H \<longrightarrow> map_of (pl_conns p) c \<noteq> None) \<and> nullptr \<notin># H"
proof -
  have "pool_inv (mk_RedisConnectionPool maxConn maxRef, {#})"
    using assms(2) pool_wf_mk
    by (simp add: pool_inv_def refs_exact_def mk_RedisConnectionPool_def omap_at_def pool_wf_def)
  from pool.steps_inv [OF assms(1) this] have
    p: "pool_wf p" "refs_exact p H" by (simp_all add: pool_inv_def)
  have "count H nullptr = 0"
    using p(2) pool_wf_null [OF p(1)] by (simp add: refs_exact_def omap_at_def)
  moreover have "omap_at (pl_conns p) c \<le> pl_maxRef p"
    using p(1) by (auto simp: pool_wf_def omap_at_def dest: map_of_SomeD split: option.split)
  moreover have "map_of (pl_conns p) c \<noteq> None" if "c \<in># H"
  proof
    assume "map_of (pl_conns p) c = None"
    with p(2) have "count H c = 0" by (simp add: refs_exact_def omap_at_def)
    with that show False by (simp add: count_eq_zero_iff)
  qed
  ultimately show ?thesis
    using p(2) by (simp add: refs_exact_def word_le_nat_alt not_in_iff)
qed

theorem pool_counts_holders_witness:
  "count {#ConnPtr 0#} (ConnPtr 0) = unat (omap_at [(ConnPtr 0, 1)] (ConnPtr 0))
   \<and> count {#ConnPtr 0#} (ConnPtr 0) \<le> unat (2 :: 32 word)"
proof -
  let ?p0 = "mk_RedisConnectionPool 1 2"
  let ?p1 = "?p0\<lparr>pl_conns := [(ConnPtr 0, 0)]\<rparr>" and ?p2 = "?p0\<lparr>pl_conns := [(ConnPtr 0, 1)]\<rparr>"
  have "pool_step (?p0, {#}) (?p1, {#})"
    by (rule step_push [of "ConnPtr 0" _ SERVER_OK])
       (simp add: pushConnection_def mk_RedisConnectionPool_def)
  moreover have "pool_step (?p1, {#}) (?p2, {#ConnPtr 0#})"
    by (rule step_take) (simp_all add: getOneConnection_def mk_RedisConnectionPool_def omap_at_def
        word_le_nat_alt)
  ultimately have "pool_step\<^sup>*\<^sup>* (?p0, {#}) (?p2, {#ConnPtr 0#})" by simp
  from pool_counts_holders [OF this, of "ConnPtr 0"] show ?thesis
    by (simp add: mk_RedisConnectionPool_def)
qed

end
