(* ===== verification/Redis_Cache.thy ===== *)
theory Redis_Cache
  imports Redis_Pool Resource_Accessor
begin

text \<open>
  The class \<open>RedisCache\<close> of \<open>Cache/RedisCache.hpp\<close> and \<open>RedisCache.cc\<close>: an \<open>ICache\<close> that
  borrows a pooled connection for each operation. The laws of the Redis server are the locale
  \<open>redis_server\<close>; under them the class meets the contract \<open>cache_spec\<close>.
\<close>

section \<open>RedisCache\<close>

text \<open>
  The cache object together with what it reaches: the pool, the connection objects behind the
  pool's pointers, and the world of the hiredis calls.
\<close>

record 'w RedisCache =
  ca_pool :: RedisConnectionPool
  ca_conn :: "conn_sptr \<Rightarrow> RedisConnection"
  ca_world :: 'w

text \<open>
  The last reference to the cache destroys the pool, whose destructor clears the map and with it
  the connections, in the order of the map.
\<close>

definition destroy_RedisCache :: "'w hiredis \<Rightarrow> 'w RedisCache \<Rightarrow> 'w" where
  "destroy_RedisCache hi c =
     foldl (\<lambda>w (p, r). destroy_RedisConnection hi w (ca_conn c p)) (ca_world c) (pl_conns (ca_pool c))"

definition MAX_KEY_LEN :: nat where
  "MAX_KEY_LEN = 2 ^ 20"

definition MAX_VAL_LEN :: nat where
  "MAX_VAL_LEN = 2 ^ 20"

definition validKey :: "string \<Rightarrow> bool" where
  "validKey key = (length key < MAX_KEY_LEN)"

definition validVal :: "string \<Rightarrow> bool" where
  "validVal val = (length val < MAX_VAL_LEN)"

definition cache_get ::
  "'w hiredis \<Rightarrow> 'w RedisCache \<Rightarrow> string \<Rightarrow> string \<Rightarrow> bool \<times> string \<times> 'w RedisCache" where
  "cache_get hi c key retval =
     (if \<not> validKey key then (False, retval, c)
      else (case getOneConnection (ca_pool c) of
              (conn, p1) \<Rightarrow>
                if conn = nullptr then (False, retval, c\<lparr>ca_pool := p1\<rparr>)
                else (case getKey hi (ca_world c) (ca_conn c conn) key retval of
                        (result, val, w1) \<Rightarrow>
                          (result, val, c\<lparr>ca_pool := returnConnection conn p1, ca_world := w1\<rparr>))))"

definition cache_put ::
  "'w hiredis \<Rightarrow> 'w RedisCache \<Rightarrow> string \<Rightarrow> string \<Rightarrow> bool \<times> 'w RedisCache" where
  "cache_put hi c key val =
     (if \<not> validKey key \<or> \<not> validVal val then (False, c)
      else (case getOneConnection (ca_pool c) of
              (conn, p1) \<Rightarrow>
                if conn = nullptr then (False, c\<lparr>ca_pool := p1\<rparr>)
                else (case putKey hi (ca_world c) (ca_conn c conn) key val of
                        (result, w1) \<Rightarrow>
                          (result, c\<lparr>ca_pool := returnConnection conn p1, ca_world := w1\<rparr>))))"

definition RedisCache_ops :: "'w hiredis \<Rightarrow> 'w RedisCache ICache" where
  "RedisCache_ops hi = \<lparr>ic_get = cache_get hi, ic_put = cache_put hi,
     ic_validKey = validKey, ic_validVal = validVal\<rparr>"

section \<open>A borrowed connection is always returned\<close>

definition cache_inv :: "'w RedisCache \<Rightarrow> bool" where
  "cache_inv c = (pool_wf (ca_pool c) \<and> pl_maxRef (ca_pool c) \<noteq> -1)"

lemma cache_get_pool:
  assumes "cache_inv c" and "cache_get hi c key retval = (ok, v, c')"
  shows "ca_pool c' = ca_pool c" and "ca_conn c' = ca_conn c"
proof -
  obtain conn p1 where g: "getOneConnection (ca_pool c) = (conn, p1)" by fastforce
  with assms(1) have r: "returnConnection conn p1 = ca_pool c"
    "conn = nullptr \<Longrightarrow> p1 = ca_pool c"
    using pool_get_return [of "ca_pool c" conn p1] by (auto simp: cache_inv_def returnConnection_def)
  with g assms(2) show "ca_pool c' = ca_pool c" and "ca_conn c' = ca_conn c"
    by (auto simp: cache_get_def split: if_splits prod.splits)
qed

lemma cache_put_pool:
  assumes "cache_inv c" and "cache_put hi c key v = (ok, c')"
  shows "ca_pool c' = ca_pool c" and "ca_conn c' = ca_conn c"
proof -
  obtain conn p1 where g: "getOneConnection (ca_pool c) = (conn, p1)" by fastforce
  with assms(1) have r: "returnConnection conn p1 = ca_pool c"
    "conn = nullptr \<Longrightarrow> p1 = ca_pool c"
    using pool_get_return [of "ca_pool c" conn p1] by (auto simp: cache_inv_def returnConnection_def)
  with g assms(2) show "ca_pool c' = ca_pool c" and "ca_conn c' = ca_conn c"
    by (auto simp: cache_put_def split: if_splits prod.splits)
qed

section \<open>The laws of the server\<close>

definition cached_data ::
  "('w \<Rightarrow> string \<rightharpoonup> string) \<Rightarrow> 'w RedisCache \<Rightarrow> string \<rightharpoonup> string" where
  "cached_data data c = data (ca_world c)"

text \<open>
  What the cache relies on of Redis: \<open>data\<close> is the key space. The server may drop entries at any
  time; a string reply to \<open>GET\<close> is the value of the key (\<open>GET\<close> never replies with an
  integer); after \<open>SET\<close> only that key may have changed, to the given value, and a reply
  \<open>OK\<close> means that it has. Nothing else changes the keys.
\<close>

locale redis_server =
  fixes hi :: "'w hiredis"
    and data :: "'w \<Rightarrow> string \<rightharpoonup> string"
  assumes get_reply:
      "redisCommand hi w x (GET_KEY k) = (Some (REDIS_REPLY_STRING v), w') \<Longrightarrow> data w k = Some v"
    and get_not_integer: "redisCommand hi w x (GET_KEY k) \<noteq> (Some (REDIS_REPLY_INTEGER i), w')"
    and get_data: "redisCommand hi w x (GET_KEY k) = (r, w') \<Longrightarrow> data w' \<subseteq>\<^sub>m data w"
    and set_data:
      "redisCommand hi w x (SET_KEY k v) = (r, w') \<Longrightarrow> data w' k' = Some v' \<Longrightarrow>
        data w k' = Some v' \<or> (k' = k \<and> v' = v)"
    and set_reply:
      "redisCommand hi w x (SET_KEY k v) = (Some (REDIS_REPLY_STATUS ''OK''), w') \<Longrightarrow> data w' k = Some v"
    and lock_data: "try_lock_for hi w t = (b, w') \<Longrightarrow> data w' \<subseteq>\<^sub>m data w"
begin

lemma conn_lock_data: "conn_lock hi w c = (b, w') \<Longrightarrow> data w' \<subseteq>\<^sub>m data w"
  by (auto simp: conn_lock_def dest: lock_data split: if_splits)

lemma getKey_data:
  assumes "getKey hi w c key v0 = (ok, v, w')" and "c_str key = key"
  shows "data w' \<subseteq>\<^sub>m data w" and "ok \<Longrightarrow> data w key = Some v"
proof -
  have "data w' \<subseteq>\<^sub>m data w \<and> (ok \<longrightarrow> data w key = Some v)"
  proof (cases "rc_context c")
    case None
    with assms(1) show ?thesis by (simp add: getKey_def)
  next
    case (Some ctx)
    obtain b w1 where l: "conn_lock hi w c = (b, w1)" by fastforce
    note d1 = conn_lock_data [OF l]
    obtain r w2 where q: "redisCommand hi w1 ctx (GET_KEY key) = (r, w2)" by fastforce
    note d2 = map_le_trans [OF get_data [OF q] d1]
    show ?thesis
    proof (cases "b \<and> ok")
      case True
      with assms Some l q get_not_integer [of w1 ctx key _ w2] have
        r: "r = Some (REDIS_REPLY_STRING v)" and "w' = w2"
        by (auto simp: getKey_def split: option.splits redisReply.splits)
      with get_reply [OF q [unfolded r]] d1 d2 show ?thesis
        by (metis map_le_def domI)
    next
      case False
      with assms Some l q d1 d2 show ?thesis
        by (auto simp: getKey_def split: bool.splits option.splits redisReply.splits)
    qed
  qed
  then show "data w' \<subseteq>\<^sub>m data w" and "ok \<Longrightarrow> data w key = Some v" by auto
qed

lemma putKey_data:
  assumes "putKey hi w c key v = (ok, w')" and "c_str key = key" and "data w' k' = Some v'"
  shows "data w k' = Some v' \<or> (k' = key \<and> v' = v)"
proof (cases "rc_context c")
  case None
  with assms(1,3) show ?thesis by (simp add: putKey_def)
next
  case (Some ctx)
  obtain b w1 where l: "conn_lock hi w c = (b, w1)" by fastforce
  have d1: "data w1 k' = Some v' \<Longrightarrow> data w k' = Some v'"
    using conn_lock_data [OF l] by (metis map_le_def domI)
  obtain r w2 where q: "redisCommand hi w1 ctx (SET_KEY key v) = (r, w2)" by fastforce
  from assms(1,2) Some l q have "w' = (if b then w2 else w1)"
    by (auto simp: putKey_def split: bool.splits option.splits redisReply.splits)
  with set_data [OF q, of k' v'] d1 assms(3) show ?thesis by (auto split: if_splits)
qed

text \<open>Under these laws \<open>RedisCache\<close> keeps the contract of a cache.\<close>

lemma cache_get_data:
  assumes "cache_get hi c k v0 = (ok, v, c')" and "c_str k = k"
  shows "cached_data data c' \<subseteq>\<^sub>m cached_data data c" and "ok \<Longrightarrow> cached_data data c k = Some v"
  using assms
  by (auto simp: cache_get_def cached_data_def dest: getKey_data split: if_splits prod.splits)

lemma cache_put_data:
  assumes "cache_put hi c k v = (ok, c')" and "c_str k = k" and "cached_data data c' k' = Some v'"
  shows "cached_data data c k' = Some v' \<or> (k' = k \<and> v' = v)"
  using assms
  by (auto simp: cache_put_def cached_data_def dest: putKey_data split: if_splits prod.splits)

end

text \<open>A key can be stored under its own name when it has no NUL byte.\<close>

definition plain_key :: "string \<Rightarrow> bool" where
  "plain_key k = (CHR 0x00 \<notin> set k)"

lemma c_str_plain: "plain_key k \<Longrightarrow> c_str k = k"
  by (induction k) (auto simp: c_str_def plain_key_def)

sublocale redis_server \<subseteq> rc: cache_spec "RedisCache_ops hi" "cached_data data" plain_key cache_inv
proof
  fix c and k v0 v c'
  assume "cache_inv c" "plain_key k" "ic_get (RedisCache_ops hi) c k v0 = (True, v, c')"
  then show "cached_data data c k = Some v"
    by (auto simp: RedisCache_ops_def c_str_plain dest: cache_get_data)
next
  fix c and k v0 ok v c'
  assume a: "cache_inv c" "plain_key k" "ic_get (RedisCache_ops hi) c k v0 = (ok, v, c')"
  then have "cache_get hi c k v0 = (ok, v, c')" by (simp add: RedisCache_ops_def)
  with a(1,2) cache_get_pool [OF a(1) this] show "cache_inv c' \<and> cached_data data c' \<subseteq>\<^sub>m cached_data data c"
    by (auto simp: cache_inv_def c_str_plain dest: cache_get_data)
next
  fix c and k v ok c'
  assume a: "cache_inv c" "plain_key k" "ic_put (RedisCache_ops hi) c k v = (ok, c')"
  then have "cache_put hi c k v = (ok, c')" by (simp add: RedisCache_ops_def)
  with a(1,2) cache_put_pool [OF a(1) this] show "cache_inv c' \<and>
      (\<forall>k' v'. cached_data data c' k' = Some v' \<longrightarrow> cached_data data c k' = Some v' \<or> (k' = k \<and> v' = v))"
    by (auto simp: cache_inv_def c_str_plain dest: cache_put_data)
qed

section \<open>A reference server\<close>

text \<open>
  The laws are satisfiable: a single in-memory server that always answers. It instantiates the
  hiredis parameter in the witnesses.
\<close>

definition mem_hiredis :: "(string \<times> string) list hiredis" where
  "mem_hiredis = \<lparr>
     redisConnectWithTimeout = (\<lambda>w ip port t. (Some (1, False), w)),
     redisCommand = (\<lambda>w x cmd. case cmd of
         AUTH s \<Rightarrow> (Some (REDIS_REPLY_STATUS ''OK''), w)
       | GET_KEY k \<Rightarrow> (case map_of w k of
             Some v \<Rightarrow> (Some (REDIS_REPLY_STRING v), w) | None \<Rightarrow> (Some REDIS_REPLY_NIL, w))
       | SET_KEY k v \<Rightarrow> (Some (REDIS_REPLY_STATUS ''OK''), AList.update k v w)),
     redisSetTimeout = (\<lambda>w x t. w),
     try_lock_for = (\<lambda>w t. (True, w)),
     redisFree = (\<lambda>w x. w)\<rparr>"

interpretation mem: redis_server mem_hiredis map_of
  by unfold_locales
     (auto simp: mem_hiredis_def update_conv' split: option.splits if_splits)

section \<open>The accessor over a Redis cache\<close>

context redis_server
begin

lemma accessor:
  "fs_sound fs \<Longrightarrow>
   resource_accessor (cached_access (RedisCache_ops hi) fs) (fs_files fs) plain_key
     (cache_coherent (cached_data data) plain_key cache_inv (fs_files fs))"
  by (rule rc.cached_accessor)

end

text \<open>
  (C8) The Redis cache is transparent: as long as every cached entry is the current file of
  that name, \<open>CachedResourceAccessor::access\<close> returns, with success, a readable stream of
  exactly the bytes of the file, or a null stream with an error when there is no such file;
  whatever the server, the locks and the pool do, and the cache stays coherent.
\<close>

theorem cached_access_serves_files:
  assumes "redis_server hi data" and "fs_sound fs"
    and "cache_coherent (cached_data data) plain_key cache_inv (fs_files fs) cache"
    and "plain_key (getPath sr)"
  shows "case fs_files fs (getPath sr) of
      Some bytes \<Rightarrow> \<exists>r cache'. cached_access (RedisCache_ops hi) fs cache sr
          = Some (Inr (Some r, SERVER_OK, cache'))
        \<and> rd_sound r \<and> rd_data r = bytes
        \<and> cache_coherent (cached_data data) plain_key cache_inv (fs_files fs) cache'
    | None \<Rightarrow> \<exists>e cache'. cached_access (RedisCache_ops hi) fs cache sr = Some (Inr (None, e, cache'))
        \<and> e \<noteq> SERVER_OK
        \<and> cache_coherent (cached_data data) plain_key cache_inv (fs_files fs) cache'"
proof -
  note acc = redis_server.accessor [OF assms(1,2)]
  show ?thesis
  proof (cases "fs_files fs (getPath sr)")
    case None
    from resource_accessor.access_missing [OF acc assms(3,4) None] None show ?thesis by auto
  next
    case (Some bytes)
    from resource_accessor.access_found [OF acc assms(3,4) Some] Some show ?thesis by auto
  qed
qed

theorem cached_access_serves_files_witness:
  "\<exists>r cache'. cached_access (RedisCache_ops mem_hiredis)
      (block_fs (\<lambda>p. if p = ''./hello.html'' then Some ''<p>'' else None))
      (Some \<lparr>ca_pool = \<lparr>pl_conns = [(ConnPtr 0, 0)], pl_maxConn = 1, pl_maxRef = 1\<rparr>,
             ca_conn = (\<lambda>p. (mk_RedisConnection 6379)\<lparr>rc_context := Some 1\<rparr>), ca_world = []\<rparr>)
      (StaticResource ''./hello.html'' ''/hello'')
    = Some (Inr (Some r, SERVER_OK, cache')) \<and> rd_data r = ''<p>''"
proof -
  let ?files = "\<lambda>p. if p = ''./hello.html'' then Some ''<p>'' else None"
  let ?c = "\<lparr>ca_pool = \<lparr>pl_conns = [(ConnPtr 0, 0)], pl_maxConn = 1, pl_maxRef = 1\<rparr>,
             ca_conn = (\<lambda>p. (mk_RedisConnection 6379)\<lparr>rc_context := Some 1\<rparr>), ca_world = []\<rparr>"
  have c: "cache_coherent (cached_data map_of) plain_key cache_inv
      (fs_files (block_fs ?files)) (Some ?c)"
    by (simp add: cache_coherent_def cached_data_def cache_inv_def pool_wf_def)
  have "plain_key (getPath (StaticResource ''./hello.html'' ''/hello''))"
    by (simp add: plain_key_def)
  from cached_access_serves_files [OF mem.redis_server_axioms fs_sound_block_fs c this]
  show ?thesis by auto
qed

section \<open>What is put can be got\<close>

text \<open>A server that is up and keeps its entries: it accepts every \<open>SET\<close> and answers every \<open>GET\<close>.\<close>

locale responsive_redis = redis_server hi data
  for hi :: "'w hiredis" and data :: "'w \<Rightarrow> string \<rightharpoonup> string" +
  assumes set_ok: "\<exists>w'. redisCommand hi w x (SET_KEY k v) = (Some (REDIS_REPLY_STATUS ''OK''), w')"
    and get_answers:
      "data w k = Some v \<Longrightarrow> \<exists>w'. redisCommand hi w x (GET_KEY k) = (Some (REDIS_REPLY_STRING v), w')"
begin

lemma putKey_ok:
  assumes "rc_context c = Some x" and "rc_lockTimeout c = 0" and "c_str k = k"
  obtains w' where "putKey hi w c k v = (True, w')" and "data w' k = Some v"
proof -
  from set_ok [of w x k v] obtain w' where
    s: "redisCommand hi w x (SET_KEY k v) = (Some (REDIS_REPLY_STATUS ''OK''), w')" by blast
  moreover have "c_str ''OK'' = ''OK''" by (simp add: c_str_def)
  ultimately have "putKey hi w c k v = (True, w')"
    using assms by (simp add: putKey_def conn_lock_def)
  with that set_reply [OF s] show thesis by blast
qed

lemma getKey_ok:
  assumes "rc_context c = Some x" and "rc_lockTimeout c = 0" and "c_str k = k" and "data w k = Some v"
  obtains w' where "getKey hi w c k v0 = (True, v, w')"
proof -
  from get_answers [OF assms(4), of x] obtain w' where
    "redisCommand hi w x (GET_KEY k) = (Some (REDIS_REPLY_STRING v), w')" by blast
  with assms that show thesis by (simp add: getKey_def conn_lock_def)
qed

end

interpretation mem: responsive_redis mem_hiredis map_of
  by unfold_locales (auto simp: mem_hiredis_def)

text \<open>Some pooled connection is below its limit, and every connection is connected.\<close>

definition cache_usable :: "'w RedisCache \<Rightarrow> bool" where
  "cache_usable c =
     (cache_inv c \<and> list_ex (\<lambda>(d, r). r \<noteq> pl_maxRef (ca_pool c)) (pl_conns (ca_pool c))
      \<and> list_all (\<lambda>(d, r). rc_context (ca_conn c d) \<noteq> None \<and> rc_lockTimeout (ca_conn c d) = 0)
          (pl_conns (ca_pool c)))"

lemma usable_connection:
  assumes "cache_usable c"
  obtains d p x where "getOneConnection (ca_pool c) = (d, p)" and "d \<noteq> nullptr"
    and "rc_context (ca_conn c d) = Some x" and "rc_lockTimeout (ca_conn c d) = 0"
proof -
  obtain d p where g: "getOneConnection (ca_pool c) = (d, p)" by fastforce
  from assms have i: "pool_wf (ca_pool c)" "pl_maxRef (ca_pool c) \<noteq> -1"
    by (simp_all add: cache_usable_def cache_inv_def)
  from getOneConnection_cases [OF i g] show thesis
  proof (elim disjE exE conjE)
    assume "\<forall>(d, r) \<in> set (pl_conns (ca_pool c)). r = pl_maxRef (ca_pool c)"
    with assms show thesis by (fastforce simp: cache_usable_def list_ex_iff)
  next
    fix r assume r: "d \<noteq> nullptr" "map_of (pl_conns (ca_pool c)) d = Some r"
    from map_of_SomeD [OF r(2)] assms obtain x where
      "rc_context (ca_conn c d) = Some x" "rc_lockTimeout (ca_conn c d) = 0"
      by (fastforce simp: cache_usable_def list_all_iff)
    with that [OF g r(1)] show thesis by blast
  qed
qed



end
