(* ===== verification/Log_Stream.thy ===== *)
theory Log_Stream
  imports Prelude
begin

text \<open>
  \<open>Log/Buffer.hpp\<close>, \<open>LogStream.hpp\<close>, \<open>LogStream.cc\<close>, \<open>Logger.hpp\<close> and \<open>Logger.cc\<close>: the
  fixed-size buffer, the stream buffer that collects one log message in it, and the logger object
  that frames a message with its tags.
\<close>

section \<open>Buffer\<close>

text \<open>
  \<open>bf_data\<close> is the vector, \<open>bf_cur\<close> the offset of \<open>__cur\<close> from its beginning. The sizes
  the member functions return are \<open>unsigned\<close>.
\<close>

record Buffer =
  bf_data :: string
  bf_cur :: nat

definition DEFAULT_BFSIZE :: "32 word" where
  "DEFAULT_BFSIZE = 4096"

definition mk_Buffer :: "32 word \<Rightarrow> Buffer" where
  "mk_Buffer n = \<lparr>bf_data = replicate (unat n) (CHR 0x00), bf_cur = 0\<rparr>"

definition bf_empty :: "Buffer \<Rightarrow> bool" where
  "bf_empty b = (bf_cur b = 0)"

definition bf_clear :: "Buffer \<Rightarrow> Buffer" where
  "bf_clear b = b\<lparr>bf_cur := 0\<rparr>"

definition bf_length :: "Buffer \<Rightarrow> 32 word" where
  "bf_length b = of_nat (bf_cur b)"

definition bf_capacity :: "Buffer \<Rightarrow> 32 word" where
  "bf_capacity b = of_nat (length (bf_data b))"

definition bf_rest :: "Buffer \<Rightarrow> 32 word" where
  "bf_rest b = bf_capacity b - bf_length b"

definition bf_setLength :: "32 word \<Rightarrow> Buffer \<Rightarrow> Buffer" where
  "bf_setLength len b =
     (if len \<le> bf_capacity b then b\<lparr>bf_cur := unat len\<rparr>
      else b\<lparr>bf_cur := length (bf_data b)\<rparr>)"

text \<open>\<open>append\<close> copies until the source or the buffer ends and returns how much it copied.\<close>

fun bf_append :: "string \<Rightarrow> Buffer \<Rightarrow> 32 word \<times> Buffer" where
  "bf_append [] b = (0, b)"
| "bf_append (x # xs) b =
     (if bf_cur b < length (bf_data b)
      then (case bf_append xs (b\<lparr>bf_data := (bf_data b)[bf_cur b := x], bf_cur := Suc (bf_cur b)\<rparr>) of
              (n, b1) \<Rightarrow> (n + 1, b1))
      else (0, b))"

text \<open>The characters from \<open>begin()\<close> to \<open>cur()\<close>.\<close>

definition bf_bytes :: "Buffer \<Rightarrow> string" where
  "bf_bytes b = take (bf_cur b) (bf_data b)"

definition bf_wf :: "Buffer \<Rightarrow> bool" where
  "bf_wf b = (bf_cur b \<le> length (bf_data b) \<and> length (bf_data b) < 2 ^ 32)"

lemma length_bf_bytes [simp]: "bf_wf b \<Longrightarrow> length (bf_bytes b) = bf_cur b"
  by (simp add: bf_bytes_def bf_wf_def)

lemma unat_bf_length [simp]: "bf_wf b \<Longrightarrow> unat (bf_length b) = bf_cur b"
  by (simp add: bf_length_def bf_wf_def unat_of_nat take_bit_nat_eq_self)

lemma unat_bf_capacity [simp]: "bf_wf b \<Longrightarrow> unat (bf_capacity b) = length (bf_data b)"
  by (simp add: bf_capacity_def bf_wf_def unat_of_nat take_bit_nat_eq_self)

lemma unat_bf_rest [simp]:
  assumes "bf_wf b"
  shows "unat (bf_rest b) = length (bf_data b) - bf_cur b"
proof -
  from assms have "bf_length b \<le> bf_capacity b" by (simp add: word_le_nat_alt) (simp add: bf_wf_def)
  then show ?thesis using assms by (simp add: bf_rest_def unat_sub)
qed

lemma bf_wf_mk [simp]: "bf_wf (mk_Buffer n)"
  using unsigned_less [of n, where ?'a = nat] by (simp add: bf_wf_def mk_Buffer_def)

lemma bf_wf_setLength: "bf_wf b \<Longrightarrow> bf_wf (bf_setLength n b)"
  by (auto simp: bf_setLength_def word_le_nat_alt) (auto simp: bf_wf_def)

lemma bf_append_spec:
  "bf_wf b \<Longrightarrow> bf_append xs b = (n, b1) \<Longrightarrow>
     bf_wf b1 \<and> bf_bytes b1 = bf_bytes b @ take (length (bf_data b) - bf_cur b) xs
     \<and> length (bf_data b1) = length (bf_data b)
     \<and> unat n = min (length xs) (length (bf_data b) - bf_cur b)"
proof (induction xs arbitrary: b n b1)
  case Nil
  then show ?case by simp
next
  case (Cons x xs)
  show ?case
  proof (cases "bf_cur b < length (bf_data b)")
    case True
    let ?b = "b\<lparr>bf_data := (bf_data b)[bf_cur b := x], bf_cur := Suc (bf_cur b)\<rparr>"
    obtain m b2 where m: "bf_append xs ?b = (m, b2)" by fastforce
    with True Cons.prems(2) have n: "n = m + 1" "b1 = b2" by simp_all
    have wf: "bf_wf ?b" using True Cons.prems(1) by (simp add: bf_wf_def)
    note ih = Cons.IH [OF wf m]
    have bytes: "bf_bytes ?b = bf_bytes b @ [x]"
      using True by (simp add: bf_bytes_def take_Suc_conv_app_nth)
    have "unat m < length (bf_data b)" using ih True by simp
    then have "unat m + 1 < 2 ^ 32" using Cons.prems(1) by (simp add: bf_wf_def)
    then have "unat (m + 1) = unat m + 1" by (simp add: unat_word_ariths)
    moreover have "length (bf_data b) - bf_cur b = Suc (length (bf_data b) - Suc (bf_cur b))"
      using True by simp
    ultimately show ?thesis using ih bytes n by simp
  next
    case False
    with Cons.prems show ?thesis by (auto simp: bf_wf_def)
  qed
qed

section \<open>LogStreamBuffer\<close>

text \<open>
  The put area is the whole buffer but its last byte (\<open>setp(begin, end - 1)\<close>). \<open>ls_pptr\<close> and
  \<open>ls_epptr\<close> are offsets from \<open>pbase()\<close>.
\<close>

record LogStreamBuffer =
  ls_buffer :: Buffer
  ls_pptr :: nat
  ls_epptr :: nat

definition mk_LogStreamBuffer :: LogStreamBuffer where
  "mk_LogStreamBuffer =
     (let b = mk_Buffer DEFAULT_BFSIZE
      in \<lparr>ls_buffer = b, ls_pptr = 0, ls_epptr = length (bf_data b) - 1\<rparr>)"

definition ls_store :: "char \<Rightarrow> LogStreamBuffer \<Rightarrow> LogStreamBuffer" where
  "ls_store c l = l\<lparr>ls_buffer := (ls_buffer l)\<lparr>bf_data := (bf_data (ls_buffer l))[ls_pptr l := c]\<rparr>,
     ls_pptr := Suc (ls_pptr l)\<rparr>"

definition ls_overflow :: "int \<Rightarrow> LogStreamBuffer \<Rightarrow> int \<times> LogStreamBuffer" where
  "ls_overflow c l = (if c \<noteq> EOF then (EOF, ls_store (to_char_type c) l) else (EOF, l))"

text \<open>\<open>sputc\<close> and \<open>sputn\<close> of \<open>std::streambuf\<close> on this buffer.\<close>

definition ls_sputc :: "char \<Rightarrow> LogStreamBuffer \<Rightarrow> int \<times> LogStreamBuffer" where
  "ls_sputc c l =
     (if ls_pptr l < ls_epptr l then (to_int_type c, ls_store c l)
      else ls_overflow (to_int_type c) l)"

fun ls_sputn :: "string \<Rightarrow> LogStreamBuffer \<Rightarrow> nat \<times> LogStreamBuffer" where
  "ls_sputn [] l = (0, l)"
| "ls_sputn (x # xs) l =
     (case ls_sputc x l of
        (r, l1) \<Rightarrow> if r = EOF then (0, l1)
                  else (case ls_sputn xs l1 of (n, l2) \<Rightarrow> (Suc n, l2)))"

text \<open>The destructor hands the buffer, cut to what was written, to the asynchronous logger.\<close>

definition ls_message :: "LogStreamBuffer \<Rightarrow> Buffer" where
  "ls_message l = bf_setLength (of_nat (ls_pptr l)) (ls_buffer l)"

section \<open>LogStream and Logger\<close>

record LogStream =
  lt_buffer :: LogStreamBuffer
  lt_bad :: bool

definition mk_LogStream :: "LogStreamBuffer \<Rightarrow> LogStream" where
  "mk_LogStream b = \<lparr>lt_buffer = b, lt_bad = False\<rparr>"

definition lt_write :: "LogStream \<Rightarrow> string \<Rightarrow> LogStream" where
  "lt_write s xs =
     (if lt_bad s then s
      else (case ls_sputn xs (lt_buffer s) of
              (n, b) \<Rightarrow> \<lparr>lt_buffer = b, lt_bad = (n \<noteq> length xs)\<rparr>))"

record Logger =
  lo_file :: string
  lo_line :: int
  lo_stream :: LogStream

text \<open>
  \<open>logCurrentTime\<close>: the text of \<open>asctime\<close> without its final newline, or question marks when
  the clock could not be converted. The clock's answer is an argument.
\<close>

definition logCurrentTime :: "string option \<Rightarrow> LogStream \<Rightarrow> LogStream" where
  "logCurrentTime timestr s =
     (case timestr of
        Some t \<Rightarrow> foldl lt_write s [''['', takeWhile (\<lambda>c. c \<noteq> CHR 0x00) (butlast t), '']'']
      | None \<Rightarrow> lt_write s ''[??]'')"

definition logBeginTag :: "string option \<Rightarrow> Logger \<Rightarrow> Logger" where
  "logBeginTag timestr l =
     l\<lparr>lo_stream := foldl lt_write (logCurrentTime timestr (lo_stream l))
        ['' Logged by: '', lo_file l, '': '', int_to_string (lo_line l), ''.'', [CHR 0x0A]]\<rparr>"

definition logEndTag :: "string option \<Rightarrow> Logger \<Rightarrow> Logger" where
  "logEndTag timestr l =
     l\<lparr>lo_stream := foldl lt_write (logCurrentTime timestr (lo_stream l))
        ['' Logged end.'', [CHR 0x0A]]\<rparr>"

definition mk_Logger :: "string option \<Rightarrow> string \<Rightarrow> int \<Rightarrow> LogStream \<Rightarrow> Logger" where
  "mk_Logger timestr file line s =
     logBeginTag timestr \<lparr>lo_file = file, lo_line = line, lo_stream = s\<rparr>"

text \<open>
  The macro \<open>LOG2DIARY\<close> with what the statement writes to it: construct the logger, write the
  pieces, and at the end of the statement the destructors write the end tag and hand over the buffer.
\<close>

definition LOG2DIARY :: "string option \<Rightarrow> string option \<Rightarrow> string \<Rightarrow> int \<Rightarrow> string list \<Rightarrow> Buffer" where
  "LOG2DIARY time1 time2 file line pieces =
     (let l = mk_Logger time1 file line (mk_LogStream mk_LogStreamBuffer);
          l1 = l\<lparr>lo_stream := foldl lt_write (lo_stream l) pieces\<rparr>
      in ls_message (lt_buffer (lo_stream (logEndTag time2 l1))))"

section \<open>A message is cut at the size of the buffer\<close>

text \<open>
  \<open>lt_holds s t\<close>: the stream has been given the text \<open>t\<close>; it holds the first 4096 bytes of it and
  is bad exactly when the buffer is full. The put pointer never passes the end of the buffer.
\<close>

definition lt_holds :: "LogStream \<Rightarrow> string \<Rightarrow> bool" where
  "lt_holds s t =
     (let l = lt_buffer s in
      length (bf_data (ls_buffer l)) = 4096 \<and> ls_epptr l = 4095
      \<and> ls_pptr l = min 4096 (length t)
      \<and> take (min 4096 (length t)) (bf_data (ls_buffer l)) = take 4096 t
      \<and> lt_bad s = (4096 \<le> length t))"

lemma ls_sputn_holds:
  assumes "lt_holds \<lparr>lt_buffer = l, lt_bad = False\<rparr> t" and "ls_sputn xs l = (n, l')"
  shows "lt_holds \<lparr>lt_buffer = l', lt_bad = (n \<noteq> length xs)\<rparr> (t @ xs)"
  using assms
proof (induction xs arbitrary: t l n l')
  case Nil
  then show ?case by simp
next
  case (Cons x xs)
  have t: "length t < 4096" using Cons.prems(1) by (simp add: lt_holds_def Let_def)
  let ?l = "ls_store x l"
  have st: "take (Suc (length t)) (bf_data (ls_buffer ?l)) = t @ [x]"
    "ls_pptr ?l = Suc (length t)" "ls_epptr ?l = 4095" "length (bf_data (ls_buffer ?l)) = 4096"
    using Cons.prems(1) t by (simp_all add: lt_holds_def Let_def ls_store_def take_Suc_conv_app_nth)
  show ?case
  proof (cases "length t < 4095")
    case True
    then have "ls_sputc x l = (to_int_type x, ?l)"
      using Cons.prems(1) by (simp add: ls_sputc_def lt_holds_def Let_def)
    moreover obtain m l2 where m: "ls_sputn xs ?l = (m, l2)" by fastforce
    ultimately have n: "n = Suc m" "l' = l2" using Cons.prems(2) by simp_all
    have "lt_holds \<lparr>lt_buffer = ?l, lt_bad = False\<rparr> (t @ [x])"
      using st True by (simp add: lt_holds_def Let_def)
    from Cons.IH [OF this m] n show ?thesis by simp
  next
    case False
    then have "length t = 4095" using t by simp
    then have "ls_sputc x l = (EOF, ?l)"
      using Cons.prems(1) by (simp add: ls_sputc_def ls_overflow_def lt_holds_def Let_def)
    with Cons.prems(2) have n: "n = 0" "l' = ?l" by simp_all
    show ?thesis using st \<open>length t = 4095\<close> n by (simp add: lt_holds_def Let_def)
  qed
qed

lemma lt_write_holds:
  assumes "lt_holds s t"
  shows "lt_holds (lt_write s xs) (t @ xs)"
proof (cases "lt_bad s")
  case True
  with assms show ?thesis by (auto simp: lt_write_def lt_holds_def Let_def)
next
  case False
  then obtain l where s: "s = \<lparr>lt_buffer = l, lt_bad = False\<rparr>" by (cases s) simp
  obtain n l' where n: "ls_sputn xs l = (n, l')" by fastforce
  from ls_sputn_holds [OF assms [unfolded s] n] s n show ?thesis by (simp add: lt_write_def)
qed

lemma lt_writes_hold: "lt_holds s t \<Longrightarrow> lt_holds (foldl lt_write s xss) (t @ concat xss)"
proof (induction xss arbitrary: s t)
  case (Cons x xss)
  from Cons.IH [OF lt_write_holds [OF Cons.prems, of x]] show ?case by simp
qed simp

lemma mk_LogStream_holds: "lt_holds (mk_LogStream mk_LogStreamBuffer) []"
  by (simp add: lt_holds_def mk_LogStream_def mk_LogStreamBuffer_def mk_Buffer_def
      DEFAULT_BFSIZE_def Let_def)

definition time_text :: "string option \<Rightarrow> string" where
  "time_text t = (case t of
       Some s \<Rightarrow> ''['' @ takeWhile (\<lambda>c. c \<noteq> CHR 0x00) (butlast s) @ '']'' | None \<Rightarrow> ''[??]'')"

definition message_text ::
  "string option \<Rightarrow> string option \<Rightarrow> string \<Rightarrow> int \<Rightarrow> string list \<Rightarrow> string" where
  "message_text time1 time2 file line pieces =
     time_text time1 @ '' Logged by: '' @ file @ '': '' @ int_to_string line @ ''.'' @ [CHR 0x0A]
     @ concat pieces @ time_text time2 @ '' Logged end.'' @ [CHR 0x0A]"

lemma logCurrentTime_holds: "lt_holds s t \<Longrightarrow> lt_holds (logCurrentTime ts s) (t @ time_text ts)"
proof (cases ts)
  case (Some a)
  assume "lt_holds s t"
  from lt_writes_hold [OF this, of "[''['', takeWhile (\<lambda>c. c \<noteq> CHR 0x00) (butlast a), '']'']"] Some
  show ?thesis by (simp add: logCurrentTime_def time_text_def del: foldl_Cons)
qed (simp add: logCurrentTime_def time_text_def lt_write_holds)

lemma ls_message_holds:
  assumes "lt_holds s t"
  shows "bf_bytes (ls_message (lt_buffer s)) = take 4096 t" and "bf_wf (ls_message (lt_buffer s))"
proof -
  let ?l = "lt_buffer s"
  have len: "length (bf_data (ls_buffer ?l)) = 4096" and p: "ls_pptr ?l = min 4096 (length t)"
    and c: "take (min 4096 (length t)) (bf_data (ls_buffer ?l)) = take 4096 t"
    using assms by (simp_all add: lt_holds_def Let_def)
  have "unat (of_nat (ls_pptr ?l) :: 32 word) = ls_pptr ?l"
    using p by (simp add: unat_of_nat take_bit_nat_eq_self)
  moreover have "unat (bf_capacity (ls_buffer ?l)) = 4096" by (simp add: bf_capacity_def len)
  ultimately have "ls_message ?l = (ls_buffer ?l)\<lparr>bf_cur := ls_pptr ?l\<rparr>"
    using p by (simp add: ls_message_def bf_setLength_def word_le_nat_alt)
  then show "bf_bytes (ls_message ?l) = take 4096 t" and "bf_wf (ls_message ?l)"
    using c len p by (simp_all add: bf_bytes_def bf_wf_def)
qed

lemma log_message_eq:
  "bf_bytes (LOG2DIARY time1 time2 file line pieces)
     = take 4096 (message_text time1 time2 file line pieces)
   \<and> bf_wf (LOG2DIARY time1 time2 file line pieces)
   \<and> length (bf_data (LOG2DIARY time1 time2 file line pieces)) = 4096"
proof -
  let ?s0 = "mk_LogStream mk_LogStreamBuffer"
  let ?btag = "['' Logged by: '', file, '': '', int_to_string line, ''.'', [CHR 0x0A]]"
  let ?s1 = "foldl lt_write (logCurrentTime time1 ?s0) ?btag"
  let ?s2 = "foldl lt_write ?s1 pieces"
  let ?s3 = "foldl lt_write (logCurrentTime time2 ?s2) ['' Logged end.'', [CHR 0x0A]]"
  have "lt_holds ?s1 (([] @ time_text time1) @ concat ?btag)"
    by (intro lt_writes_hold logCurrentTime_holds mk_LogStream_holds)
  from lt_writes_hold [OF logCurrentTime_holds [OF lt_writes_hold [OF this]]]
  have "lt_holds ?s3 ((((([] @ time_text time1) @ concat ?btag) @ concat pieces)
      @ time_text time2) @ concat ['' Logged end.'', [CHR 0x0A]])" .
  then have h: "lt_holds ?s3 (message_text time1 time2 file line pieces)"
    by (simp add: message_text_def del: foldl_Cons)
  have eq: "LOG2DIARY time1 time2 file line pieces = ls_message (lt_buffer ?s3)"
    by (simp add: LOG2DIARY_def mk_Logger_def logBeginTag_def logEndTag_def Let_def del: foldl_Cons)
  have "length (bf_data (ls_message (lt_buffer ?s3))) = 4096"
    using h by (auto simp: ls_message_def bf_setLength_def lt_holds_def Let_def)
  with ls_message_holds [OF h] eq show ?thesis by simp
qed

lemma log_message_wf: "bf_wf (LOG2DIARY time1 time2 file line pieces)"
  using log_message_eq by blast

text \<open>
  One log statement yields exactly the first 4096 bytes of its text, tags included: a longer
  message loses its tail (and its end tag), never memory safety, and the buffer handed over is
  well formed.
\<close>

theorem log_message_is_prefix:
  "bf_bytes (LOG2DIARY time1 time2 file line pieces)
     = take 4096 (message_text time1 time2 file line pieces)
   \<and> bf_wf (LOG2DIARY time1 time2 file line pieces)
   \<and> length (bf_data (LOG2DIARY time1 time2 file line pieces)) = 4096"
  by (rule log_message_eq)

end
