(* ===== verification/Async_Logger.thy ===== *)
theory Async_Logger
  imports Log_Stream Error_Codes
begin

text \<open>
  \<open>Log/AsyncLogger.hpp\<close> and \<open>AsyncLogger.cc\<close>: producers append message buffers under a mutex, one
  logger thread collects them and writes them to the log file. Each critical section is one
  atomic step; the theory shows that no message is lost, duplicated or reordered.
\<close>

section \<open>The log file\<close>

text \<open>
  \<open>std::ofstream\<close> in append mode. \<open>of_disk\<close> is the content of every file; whether a path can be
  opened and whether the n-th write succeeds is up to the environment.
\<close>

record log_env =
  can_open :: "string \<Rightarrow> bool"
  write_ok :: "nat \<Rightarrow> bool"

record ofstream =
  of_path :: "string option"
  of_fail :: bool
  of_disk :: "string \<Rightarrow> string"
  of_nwrite :: nat

definition of_is_open :: "ofstream \<Rightarrow> bool" where
  "of_is_open f = (of_path f \<noteq> None)"

definition of_close :: "ofstream \<Rightarrow> ofstream" where
  "of_close f = f\<lparr>of_path := None\<rparr>"

definition of_open :: "log_env \<Rightarrow> string \<Rightarrow> ofstream \<Rightarrow> ofstream" where
  "of_open env path f =
     (if of_path f \<noteq> None \<or> \<not> can_open env path then f\<lparr>of_fail := True\<rparr>
      else f\<lparr>of_path := Some path, of_fail := False\<rparr>)"

definition of_write :: "log_env \<Rightarrow> string \<Rightarrow> ofstream \<Rightarrow> ofstream" where
  "of_write env xs f =
     (if of_fail f then f
      else (case of_path f of
              None \<Rightarrow> f\<lparr>of_fail := True\<rparr>
            | Some p \<Rightarrow>
                if write_ok env (of_nwrite f)
                then f\<lparr>of_disk := (of_disk f)(p := of_disk f p @ xs), of_nwrite := Suc (of_nwrite f)\<rparr>
                else f\<lparr>of_fail := True, of_nwrite := Suc (of_nwrite f)\<rparr>))"

section \<open>AsyncLogger\<close>

record AsyncLogger =
  lg_overflow :: "32 word"
  lg_secondTimeout :: "32 word"
  lg_current :: "Buffer list"
  lg_alternate :: "Buffer list"
  lg_loggerLocal :: "Buffer list"
  lg_out :: ofstream
  lg_logFile :: string
  lg_running :: bool

definition DEFAULT_OVERFLOW :: "32 word" where
  "DEFAULT_OVERFLOW = 2"

definition DEFAULT_TIMEOUT :: "32 word" where
  "DEFAULT_TIMEOUT = 10"

definition mk_AsyncLogger :: "(string \<Rightarrow> string) \<Rightarrow> AsyncLogger" where
  "mk_AsyncLogger disk = \<lparr>lg_overflow = DEFAULT_OVERFLOW, lg_secondTimeout = DEFAULT_TIMEOUT,
     lg_current = [], lg_alternate = [], lg_loggerLocal = [],
     lg_out = \<lparr>of_path = None, of_fail = False, of_disk = disk, of_nwrite = 0\<rparr>,
     lg_logFile = [], lg_running = True\<rparr>"

definition lg_stop :: "AsyncLogger \<Rightarrow> AsyncLogger" where
  "lg_stop l = l\<lparr>lg_running := False\<rparr>"

definition lg_isRunning :: "AsyncLogger \<Rightarrow> bool" where
  "lg_isRunning l = lg_running l"

definition lg_logFileOn :: "AsyncLogger \<Rightarrow> bool" where
  "lg_logFileOn l = of_is_open (lg_out l)"

definition setTimeoutSecond :: "32 word \<Rightarrow> AsyncLogger \<Rightarrow> bool \<times> AsyncLogger" where
  "setTimeoutSecond s l = (if s = 0 then (False, l) else (True, l\<lparr>lg_secondTimeout := s\<rparr>))"

definition setOverflowSize :: "32 word \<Rightarrow> AsyncLogger \<Rightarrow> bool \<times> AsyncLogger" where
  "setOverflowSize n l = (if n = 0 then (False, l) else (True, l\<lparr>lg_overflow := n\<rparr>))"

definition getLogFile :: "AsyncLogger \<Rightarrow> string" where
  "getLogFile l = lg_logFile l"

definition setLogFile :: "log_env \<Rightarrow> string \<Rightarrow> AsyncLogger \<Rightarrow> server_err_t \<times> AsyncLogger" where
  "setLogFile env path l =
     (let f = (if of_is_open (lg_out l) then of_close (lg_out l) else lg_out l);
          f1 = of_open env path f
      in (if of_is_open f1 then SERVER_OK else LOGFILE_OPEN_FAILED, l\<lparr>lg_out := f1\<rparr>))"

text \<open>The path that was opened is never stored, so it cannot be opened again.\<close>

lemma getLogFile_setLogFile [simp]: "getLogFile (snd (setLogFile env path l)) = getLogFile l"
  by (simp add: getLogFile_def setLogFile_def Let_def)

text \<open>
  \<open>back()\<close> of an empty vector is undefined behaviour; the model makes it the outcome
  \<open>null_pointer\<close>, and the invariant below excludes it.
\<close>

definition vec_back :: "Buffer list \<Rightarrow> cpp_exception + Buffer" where
  "vec_back bs = (if bs = [] then Inl null_pointer else Inr (last bs))"

definition currentAvailable4 :: "Buffer \<Rightarrow> AsyncLogger \<Rightarrow> cpp_exception + bool" where
  "currentAvailable4 b l =
     (if (of_nat (length (lg_current l)) :: 64 word) < ucast (lg_overflow l) then Inr True
      else (case vec_back (lg_current l) of
              Inl x \<Rightarrow> Inl x
            | Inr t \<Rightarrow> Inr (bf_length b \<le> bf_rest t)))"

definition append2Current :: "Buffer \<Rightarrow> AsyncLogger \<Rightarrow> AsyncLogger" where
  "append2Current b l =
     (if lg_current l = [] \<or> bf_rest (last (lg_current l)) < bf_length b
      then l\<lparr>lg_current := lg_current l @ [b]\<rparr>
      else l\<lparr>lg_current := butlast (lg_current l)
              @ [snd (bf_append (bf_bytes b) (last (lg_current l)))]\<rparr>)"

definition lg_append :: "Buffer \<Rightarrow> AsyncLogger \<Rightarrow> cpp_exception + (server_err_t \<times> AsyncLogger)" where
  "lg_append b l =
     (if \<not> lg_isRunning l then Inr (LOG_THREAD_STOPPED, l)
      else (case currentAvailable4 b l of
              Inl x \<Rightarrow> Inl x
            | Inr avail \<Rightarrow>
                (let l1 = (if avail then l
                           else l\<lparr>lg_alternate := lg_alternate l @ lg_current l, lg_current := []\<rparr>)
                 in Inr (SERVER_OK, append2Current b l1))))"

fun flush_buffers :: "log_env \<Rightarrow> server_err_t \<Rightarrow> Buffer list \<Rightarrow> AsyncLogger \<Rightarrow> server_err_t \<times> AsyncLogger" where
  "flush_buffers env e [] l = (e, l)"
| "flush_buffers env e (b # bs) l =
     (let f = of_write env (bf_bytes b) (lg_out l); l1 = l\<lparr>lg_out := f\<rparr>
      in if of_fail f
         then flush_buffers env LOGFILE_WRITE_FAILE bs (snd (setLogFile env (lg_logFile l1) l1))
         else flush_buffers env e bs l1)"

definition flush2LogFile :: "log_env \<Rightarrow> Buffer list \<Rightarrow> AsyncLogger \<Rightarrow> server_err_t \<times> AsyncLogger" where
  "flush2LogFile env bs l =
     (if \<not> of_is_open (lg_out l) then (LOGFILE_OPEN_FAILED, l)
      else flush_buffers env SERVER_OK bs l)"

text \<open>
  One turn of \<open>run\<close> has two critical sections: under the buffer mutex the thread takes what is
  there (\<open>timeout\<close> tells how the wait ended), then, under the file mutex, it writes it.
\<close>

definition run_collect :: "bool \<Rightarrow> AsyncLogger \<Rightarrow> AsyncLogger" where
  "run_collect timeout l =
     (let l1 = (if lg_alternate l \<noteq> []
                then l\<lparr>lg_loggerLocal := lg_alternate l, lg_alternate := lg_loggerLocal l\<rparr> else l)
      in if timeout
         then l1\<lparr>lg_loggerLocal := lg_loggerLocal l1 @ lg_current l1, lg_current := []\<rparr>
         else l1)"

definition run_flush :: "log_env \<Rightarrow> AsyncLogger \<Rightarrow> AsyncLogger" where
  "run_flush env l = (snd (flush2LogFile env (lg_loggerLocal l) l))\<lparr>lg_loggerLocal := []\<rparr>"

definition destroy_AsyncLogger :: "log_env \<Rightarrow> AsyncLogger \<Rightarrow> AsyncLogger" where
  "destroy_AsyncLogger env l =
     (let l0 = (if lg_isRunning l then lg_stop l else l);
          l1 = snd (flush2LogFile env (lg_loggerLocal l0) l0);
          l2 = snd (flush2LogFile env (lg_alternate l1) l1);
          l3 = snd (flush2LogFile env (lg_current l2) l2)
      in l3\<lparr>lg_current := [], lg_alternate := [], lg_loggerLocal := [],
            lg_out := of_close (lg_out l3)\<rparr>)"

section \<open>Appending\<close>

definition bytes_of :: "Buffer list \<Rightarrow> string" where
  "bytes_of bs = concat (map bf_bytes bs)"

lemma bytes_of_simps [simp]:
  "bytes_of [] = []" "bytes_of (b # bs) = bf_bytes b @ bytes_of bs"
  "bytes_of (bs @ cs) = bytes_of bs @ bytes_of cs"
  by (simp_all add: bytes_of_def)

text \<open>What is in memory and not yet written, oldest first.\<close>

definition pending :: "AsyncLogger \<Rightarrow> string" where
  "pending l = bytes_of (lg_loggerLocal l) @ bytes_of (lg_alternate l) @ bytes_of (lg_current l)"

definition lg_wf :: "AsyncLogger \<Rightarrow> bool" where
  "lg_wf l = (lg_overflow l \<noteq> 0 \<and> length (lg_current l) < 2 ^ 32
     \<and> list_all bf_wf (lg_current l))"

lemma unat_ucast_32_64 [simp]: "unat (ucast (x :: 32 word) :: 64 word) = unat x"
proof -
  have "unat x < 2 ^ 32" using unsigned_less [of x, where ?'a = nat] by simp
  then show ?thesis by (simp add: unsigned_ucast_eq take_bit_nat_eq_self)
qed

lemma size_less_overflow:
  assumes "lg_wf l"
  shows "((of_nat (length (lg_current l)) :: 64 word) < ucast (lg_overflow l))
    = (length (lg_current l) < unat (lg_overflow l))"
proof -
  have "length (lg_current l) < 2 ^ 64" using assms by (simp add: lg_wf_def)
  then show ?thesis
    by (simp add: word_less_nat_alt unat_of_nat take_bit_nat_eq_self)
qed

lemma currentAvailable4_eq:
  assumes "lg_wf l"
  shows "currentAvailable4 b l = Inr (length (lg_current l) < unat (lg_overflow l)
    \<or> bf_length b \<le> bf_rest (last (lg_current l)))"
proof (cases "length (lg_current l) < unat (lg_overflow l)")
  case False
  moreover have "0 < unat (lg_overflow l)" using assms by (simp add: lg_wf_def unat_gt_0)
  ultimately have "lg_current l \<noteq> []" by auto
  with False show ?thesis
    by (simp add: currentAvailable4_def size_less_overflow [OF assms] vec_back_def)
qed (simp add: currentAvailable4_def size_less_overflow [OF assms])

lemma append2Current_spec:
  assumes "lg_wf l" and "bf_wf b"
  shows "bytes_of (lg_current (append2Current b l)) = bytes_of (lg_current l) @ bf_bytes b"
    and "list_all bf_wf (lg_current (append2Current b l))"
    and "length (lg_current (append2Current b l)) =
      (if lg_current l = [] \<or> bf_rest (last (lg_current l)) < bf_length b
       then Suc (length (lg_current l)) else length (lg_current l))"
proof -
  have *: "bytes_of (lg_current (append2Current b l)) = bytes_of (lg_current l) @ bf_bytes b
    \<and> list_all bf_wf (lg_current (append2Current b l))"
  proof (cases "lg_current l = [] \<or> bf_rest (last (lg_current l)) < bf_length b")
    case True
    with assms show ?thesis by (auto simp: append2Current_def lg_wf_def)
  next
    case False
    define t where "t = last (lg_current l)"
    have c: "lg_current l = butlast (lg_current l) @ [t]" using False by (simp add: t_def)
    have wf: "list_all bf_wf (butlast (lg_current l))" "bf_wf t"
      using assms(1) False by (auto simp: lg_wf_def list_all_iff t_def dest: in_set_butlastD)
    have room: "bf_cur b \<le> length (bf_data t) - bf_cur t"
      using False assms(2) wf(2) by (simp add: word_less_nat_alt t_def not_less)
    obtain n t' where a: "bf_append (bf_bytes b) t = (n, t')" by fastforce
    from bf_append_spec [OF wf(2) a] room assms(2) have "bf_wf t'" "bf_bytes t' = bf_bytes t @ bf_bytes b"
      by simp_all
    moreover have "lg_current (append2Current b l) = butlast (lg_current l) @ [t']"
      using False a by (simp add: append2Current_def t_def)
    moreover have "bytes_of (lg_current l) = bytes_of (butlast (lg_current l)) @ bf_bytes t"
      by (subst c) simp
    ultimately show ?thesis using wf(1) by simp
  qed
  then show "bytes_of (lg_current (append2Current b l)) = bytes_of (lg_current l) @ bf_bytes b"
    and "list_all bf_wf (lg_current (append2Current b l))" by auto
  show "length (lg_current (append2Current b l)) =
      (if lg_current l = [] \<or> bf_rest (last (lg_current l)) < bf_length b
       then Suc (length (lg_current l)) else length (lg_current l))"
    by (auto simp: append2Current_def)
qed

lemma append2Current_frame [simp]:
  "lg_alternate (append2Current b l) = lg_alternate l"
  "lg_loggerLocal (append2Current b l) = lg_loggerLocal l"
  "lg_out (append2Current b l) = lg_out l"
  "lg_overflow (append2Current b l) = lg_overflow l"
  "lg_running (append2Current b l) = lg_running l"
  by (simp_all add: append2Current_def)

text \<open>
  The contract of \<open>append\<close>: while the logger runs it never touches an empty vector, the message
  goes to the end of what is pending, and the rest of the logger is unchanged.
\<close>

lemma lg_append_spec:
  assumes "lg_wf l" and "bf_wf b" and "lg_running l"
  obtains l' where "lg_append b l = Inr (SERVER_OK, l')" and "lg_wf l'"
    and "pending l' = pending l @ bf_bytes b" and "lg_out l' = lg_out l"
    and "lg_loggerLocal l' = lg_loggerLocal l" and "lg_overflow l' = lg_overflow l"
    and "lg_running l' = lg_running l"
    and "length (lg_current l) \<le> unat (lg_overflow l) \<Longrightarrow>
      length (lg_current l') \<le> unat (lg_overflow l)"
proof -
  define avail where "avail = (length (lg_current l) < unat (lg_overflow l)
      \<or> bf_length b \<le> bf_rest (last (lg_current l)))"
  define l1 where "l1 = (if avail then l
      else l\<lparr>lg_alternate := lg_alternate l @ lg_current l, lg_current := []\<rparr>)"
  have wf1: "lg_wf l1" using assms(1) by (simp add: l1_def lg_wf_def)
  have ov: "0 < unat (lg_overflow l)" "unat (lg_overflow l) < 2 ^ 32"
    using assms(1) unsigned_less [of "lg_overflow l", where ?'a = nat] by (auto simp: lg_wf_def unat_gt_0)
  have eq: "lg_append b l = Inr (SERVER_OK, append2Current b l1)"
    using assms(3) by (simp add: lg_append_def lg_isRunning_def currentAvailable4_eq [OF assms(1)]
        l1_def avail_def Let_def)
  note sp = append2Current_spec [OF wf1 assms(2)]
  have len: "length (lg_current (append2Current b l1)) \<le>
      max (length (lg_current l)) (unat (lg_overflow l))"
    using sp(3) ov(1) by (auto simp: l1_def avail_def not_le not_less)
  have "lg_wf (append2Current b l1)"
    using wf1 sp(2) le_less_trans [OF len] ov assms(1) by (simp add: lg_wf_def)
  moreover have "pending (append2Current b l1) = pending l @ bf_bytes b"
    using sp(1) by (simp add: pending_def l1_def)
  ultimately show thesis
    using that [OF eq] len by (simp add: l1_def)
qed

section \<open>Writing\<close>

text \<open>An environment in which writes succeed; opening may still fail.\<close>

definition reliable :: "(string \<Rightarrow> bool) \<Rightarrow> log_env" where
  "reliable can = \<lparr>can_open = can, write_ok = (\<lambda>_. True)\<rparr>"

definition open_at :: "string \<Rightarrow> AsyncLogger \<Rightarrow> bool" where
  "open_at p l = (of_path (lg_out l) = Some p \<and> \<not> of_fail (lg_out l))"

lemma flush_buffers_reliable:
  assumes "open_at p l"
  shows "\<exists>f. flush_buffers (reliable can) e bs l = (e, l\<lparr>lg_out := f\<rparr>)
    \<and> of_path f = Some p \<and> \<not> of_fail f
    \<and> of_disk f p = of_disk (lg_out l) p @ bytes_of bs
    \<and> (\<forall>q. q \<noteq> p \<longrightarrow> of_disk f q = of_disk (lg_out l) q)"
  using assms
proof (induction bs arbitrary: l)
  case Nil
  then show ?case by (auto simp: open_at_def intro!: exI [of _ "lg_out l"])
next
  case (Cons b bs)
  let ?f = "of_write (reliable can) (bf_bytes b) (lg_out l)" and ?l = "l\<lparr>lg_out := of_write (reliable can) (bf_bytes b) (lg_out l)\<rparr>"
  have f: "of_path ?f = Some p" "\<not> of_fail ?f"
    "of_disk ?f p = of_disk (lg_out l) p @ bf_bytes b" "\<forall>q. q \<noteq> p \<longrightarrow> of_disk ?f q = of_disk (lg_out l) q"
    using Cons.prems by (simp_all add: of_write_def open_at_def reliable_def)
  then have "open_at p ?l" by (simp add: open_at_def)
  from Cons.IH [OF this] f show ?case by auto
qed

lemma flush2LogFile_reliable:
  assumes "open_at p l"
  shows "\<exists>f. flush2LogFile (reliable can) bs l = (SERVER_OK, l\<lparr>lg_out := f\<rparr>)
    \<and> of_path f = Some p \<and> \<not> of_fail f
    \<and> of_disk f p = of_disk (lg_out l) p @ bytes_of bs
    \<and> (\<forall>q. q \<noteq> p \<longrightarrow> of_disk f q = of_disk (lg_out l) q)"
  using flush_buffers_reliable [OF assms, of can SERVER_OK bs] assms
  by (simp add: flush2LogFile_def of_is_open_def open_at_def)

section \<open>Producers and the logger thread\<close>

text \<open>
  Where the logger thread is: waiting on the condition variable, or between its two critical
  sections. The third component of a state is the history: all bytes accepted so far.
\<close>

datatype logger_pc = AtWait | AtFlush

type_synonym log_state = "logger_pc \<times> AsyncLogger \<times> string"

inductive log_step :: "log_env \<Rightarrow> log_state \<Rightarrow> log_state \<Rightarrow> bool" for env where
  st_append: "bf_wf b \<Longrightarrow> lg_append b l = Inr (SERVER_OK, l') \<Longrightarrow>
    log_step env (pc, l, h) (pc, l', h @ bf_bytes b)"
| st_refused: "lg_append b l = Inr (LOG_THREAD_STOPPED, l') \<Longrightarrow> log_step env (pc, l, h) (pc, l', h)"
| st_collect: "lg_isRunning l \<Longrightarrow> log_step env (AtWait, l, h) (AtFlush, run_collect timeout l, h)"
| st_flush: "log_step env (AtFlush, l, h) (AtWait, run_flush env l, h)"
| st_stop: "log_step env (pc, l, h) (pc, lg_stop l, h)"
| st_overflow: "setOverflowSize n l = (r, l') \<Longrightarrow> log_step env (pc, l, h) (pc, l', h)"
| st_timeout: "setTimeoutSecond n l = (r, l') \<Longrightarrow> log_step env (pc, l, h) (pc, l', h)"

definition log_inv :: "string \<Rightarrow> string \<Rightarrow> log_state \<Rightarrow> bool" where
  "log_inv p c0 s =
     (case s of (pc, l, h) \<Rightarrow>
        lg_wf l \<and> open_at p l \<and> (pc = AtWait \<longrightarrow> lg_loggerLocal l = [])
        \<and> of_disk (lg_out l) p @ pending l = c0 @ h)"

lemma lg_append_cases:
  assumes "lg_wf l" and "bf_wf b" and "lg_append b l = Inr (e, l')"
  shows "if lg_running l then e = SERVER_OK \<and> lg_wf l' \<and> pending l' = pending l @ bf_bytes b
      \<and> lg_out l' = lg_out l \<and> lg_loggerLocal l' = lg_loggerLocal l
    else e = LOG_THREAD_STOPPED \<and> l' = l"
proof (cases "lg_running l")
  case True
  from lg_append_spec [OF assms(1,2) True] obtain l1 where
    "lg_append b l = Inr (SERVER_OK, l1)" "lg_wf l1" "pending l1 = pending l @ bf_bytes b"
    "lg_out l1 = lg_out l" "lg_loggerLocal l1 = lg_loggerLocal l" by metis
  with True assms(3) show ?thesis by simp
qed (use assms(3) in \<open>simp add: lg_append_def lg_isRunning_def\<close>)

lemma run_collect_inv:
  assumes "lg_wf l" and "lg_loggerLocal l = []"
  shows "lg_wf (run_collect t l)" and "pending (run_collect t l) = pending l"
    and "lg_out (run_collect t l) = lg_out l"
  using assms by (auto simp: run_collect_def lg_wf_def pending_def Let_def)

lemma log_step_inv:
  assumes "log_inv p c0 s" and "log_step (reliable can) s t"
  shows "log_inv p c0 t"
  using assms(2,1)
proof (induction rule: log_step.induct)
  case (st_append b l l' pc h)
  from st_append(3) have wf: "lg_wf l" by (simp add: log_inv_def)
  have "lg_running l"
    using st_append(2) by (auto simp: lg_append_def lg_isRunning_def split: if_splits)
  with lg_append_cases [OF wf st_append(1,2)] st_append(3) show ?case
    by (auto simp: log_inv_def open_at_def)
next
  case (st_refused b l l' pc h)
  then show ?case
    by (auto simp: lg_append_def Let_def split: if_splits sum.splits)
next
  case (st_collect l h timeout)
  then show ?case using run_collect_inv [of l timeout] by (auto simp: log_inv_def open_at_def)
next
  case (st_flush l h)
  then have o: "open_at p l" by (simp add: log_inv_def)
  from flush2LogFile_reliable [OF o, of can "lg_loggerLocal l"] st_flush show ?case
    by (auto simp: log_inv_def run_flush_def open_at_def lg_wf_def pending_def)
next
  case (st_overflow n l r l' pc h)
  then show ?case
    by (auto simp: setOverflowSize_def log_inv_def lg_wf_def open_at_def pending_def split: if_splits)
next
  case (st_timeout n l r l' pc h)
  then show ?case
    by (auto simp: setTimeoutSecond_def log_inv_def lg_wf_def open_at_def pending_def split: if_splits)
qed (auto simp: log_inv_def lg_stop_def lg_wf_def open_at_def pending_def)

interpretation logger: invariant_system "log_step (reliable can)" "log_inv p c0" for can p c0
  by unfold_locales (rule log_step_inv)

lemma log_inv_start:
  "can p \<Longrightarrow> log_inv p (disk p) (AtWait, snd (setLogFile (reliable can) p (mk_AsyncLogger disk)), [])"
  by (simp add: log_inv_def setLogFile_def mk_AsyncLogger_def of_is_open_def of_open_def reliable_def
      lg_wf_def DEFAULT_OVERFLOW_def open_at_def pending_def)

text \<open>
  (C9) No log message is lost, duplicated or reordered: with a log file open and writes that
  succeed, after any interleaving of producers and the logger thread the file followed by what is
  pending in memory is the old content of the file followed by every accepted message in order.
\<close>

theorem log_fifo:
  assumes "(log_step (reliable can))\<^sup>*\<^sup>*
      (AtWait, snd (setLogFile (reliable can) p (mk_AsyncLogger disk)), []) (pc, l, h)"
    and "can p"
  shows "of_disk (lg_out l) p @ pending l = disk p @ h"
  using logger.steps_inv [OF assms(1) log_inv_start [of can p disk, OF assms(2)]] by (simp add: log_inv_def)

theorem log_fifo_witness:
  "\<exists>l'. lg_append \<lparr>bf_data = ''ab'', bf_cur = 2\<rparr>
      (snd (setLogFile (reliable (\<lambda>_. True)) ''log'' (mk_AsyncLogger (\<lambda>_. ''x'')))) = Inr (SERVER_OK, l')
    \<and> of_disk (lg_out l') ''log'' @ pending l' = ''xab''"
proof -
  let ?l = "snd (setLogFile (reliable (\<lambda>_. True)) ''log'' (mk_AsyncLogger (\<lambda>_. ''x'')))"
  let ?b = "\<lparr>bf_data = ''ab'', bf_cur = 2\<rparr>"
  have b: "bf_wf ?b" "bf_bytes ?b = ''ab''" by (simp_all add: bf_wf_def bf_bytes_def)
  have l: "lg_wf ?l" "lg_running ?l"
    by (simp_all add: lg_wf_def setLogFile_def mk_AsyncLogger_def DEFAULT_OVERFLOW_def Let_def)
  from lg_append_spec [OF l(1) b(1) l(2)] obtain l' where a: "lg_append ?b ?l = Inr (SERVER_OK, l')"
    by metis
  have "log_step (reliable (\<lambda>_. True)) (AtWait, ?l, []) (AtWait, l', [] @ bf_bytes ?b)"
    by (rule st_append [OF b(1) a])
  then have "(log_step (reliable (\<lambda>_. True)))\<^sup>*\<^sup>* (AtWait, ?l, []) (AtWait, l', [] @ bf_bytes ?b)"
    by (rule r_into_rtranclp)
  from log_fifo [OF this] a b show ?thesis by simp
qed

text \<open>
  (C31) The destructor writes all that is pending, in order: after any run, with the same
  assumptions, the file holds its old content followed by every accepted message.
\<close>

theorem destructor_flushes_all:
  assumes "(log_step (reliable can))\<^sup>*\<^sup>*
      (AtWait, snd (setLogFile (reliable can) p (mk_AsyncLogger disk)), []) (pc, l, h)"
    and "can p"
  shows "of_disk (lg_out (destroy_AsyncLogger (reliable can) l)) p = disk p @ h
    \<and> pending (destroy_AsyncLogger (reliable can) l) = []"
proof -
  from logger.steps_inv [OF assms(1) log_inv_start [of can p disk, OF assms(2)]]
  have i: "open_at p l" "of_disk (lg_out l) p @ pending l = disk p @ h" by (simp_all add: log_inv_def)
  let ?l0 = "if lg_isRunning l then lg_stop l else l" and ?fl = "flush2LogFile (reliable can)"
  have l0: "open_at p ?l0" "lg_out ?l0 = lg_out l" "pending ?l0 = pending l"
    using i(1) by (simp_all add: open_at_def lg_stop_def pending_def)
  from flush2LogFile_reliable [OF l0(1), of can "lg_loggerLocal ?l0"] obtain f1 where
    1: "?fl (lg_loggerLocal ?l0) ?l0 = (SERVER_OK, ?l0\<lparr>lg_out := f1\<rparr>)" "open_at p (?l0\<lparr>lg_out := f1\<rparr>)"
      "of_disk f1 p = of_disk (lg_out l) p @ bytes_of (lg_loggerLocal ?l0)"
    by (auto simp: open_at_def l0)
  from flush2LogFile_reliable [OF 1(2), of can "lg_alternate ?l0"] obtain f2 where
    2: "?fl (lg_alternate ?l0) (?l0\<lparr>lg_out := f1\<rparr>) = (SERVER_OK, ?l0\<lparr>lg_out := f2\<rparr>)"
      "open_at p (?l0\<lparr>lg_out := f2\<rparr>)"
      "of_disk f2 p = of_disk f1 p @ bytes_of (lg_alternate ?l0)"
    by (auto simp: open_at_def)
  from flush2LogFile_reliable [OF 2(2), of can "lg_current ?l0"] obtain f3 where
    3: "?fl (lg_current ?l0) (?l0\<lparr>lg_out := f2\<rparr>) = (SERVER_OK, ?l0\<lparr>lg_out := f3\<rparr>)"
      "of_disk f3 p = of_disk f2 p @ bytes_of (lg_current ?l0)"
    by (auto simp: open_at_def)
  have "of_disk f3 p = of_disk (lg_out l) p @ pending ?l0"
    using 1 2 3 by (simp add: pending_def)
  with 1 2 3 i l0(3) show ?thesis
    by (simp add: destroy_AsyncLogger_def Let_def of_close_def pending_def)
qed

theorem destructor_flushes_all_witness:
  "of_disk (lg_out (destroy_AsyncLogger (reliable (\<lambda>_. True))
     (snd (setLogFile (reliable (\<lambda>_. True)) ''log'' (mk_AsyncLogger (\<lambda>_. ''x'')))))) ''log'' = ''x''"
  using destructor_flushes_all [of "\<lambda>_. True" "''log''" "\<lambda>_. ''x''" AtWait
      "snd (setLogFile (reliable (\<lambda>_. True)) ''log'' (mk_AsyncLogger (\<lambda>_. ''x'')))" "[]"] by simp

text \<open>
  The producer side is bounded and safe: appending to a running logger never reads the back
  of an empty vector, always succeeds, and never lets \<open>__current\<close> grow past the overflow limit.
\<close>

theorem append_bounded:
  assumes "lg_wf l" and "bf_wf b" and "lg_running l"
    and "length (lg_current l) \<le> unat (lg_overflow l)"
  shows "\<exists>l'. lg_append b l = Inr (SERVER_OK, l') \<and> lg_wf l'
    \<and> length (lg_current l') \<le> unat (lg_overflow l')
    \<and> pending l' = pending l @ bf_bytes b"
  using lg_append_spec [OF assms(1-3)] assms(4) by metis

theorem append_bounded_witness:
  "\<exists>l'. lg_append (LOG2DIARY None None ''main.cc'' 7 [''hi'']) (mk_AsyncLogger (\<lambda>_. [])) = Inr (SERVER_OK, l')
    \<and> length (lg_current l') \<le> unat (lg_overflow l')"
proof -
  have "lg_wf (mk_AsyncLogger (\<lambda>_. []))" "lg_running (mk_AsyncLogger (\<lambda>_. []))"
    "length (lg_current (mk_AsyncLogger (\<lambda>_. []))) \<le> unat (lg_overflow (mk_AsyncLogger (\<lambda>_. [])))"
    by (simp_all add: lg_wf_def mk_AsyncLogger_def DEFAULT_OVERFLOW_def)
  moreover have "bf_wf (LOG2DIARY None None ''main.cc'' 7 [''hi''])"
    using log_message_wf by blast
  ultimately show ?thesis using append_bounded by blast
qed

text \<open>
  (C39) One failed write ends logging: \<open>flush2LogFile\<close> reopens \<open>getLogFile()\<close>, which is never
  assigned and therefore empty, so the file is closed, the collected messages are discarded, and
  every later turn of the logger thread discards what it collects as well.
\<close>

theorem write_failure_ends_logging:
  assumes "open_at p l" and "lg_loggerLocal l = b # bs"
    and "\<not> write_ok env (of_nwrite (lg_out l))"
    and "lg_logFile l = []" and "\<not> can_open env []"
  shows "\<not> of_is_open (lg_out (run_flush env l))
    \<and> of_disk (lg_out (run_flush env l)) = of_disk (lg_out l)
    \<and> lg_loggerLocal (run_flush env l) = []
    \<and> of_disk (lg_out (run_flush env' (run_collect t (run_flush env l)))) = of_disk (lg_out l)"
proof -
  have closed: "\<exists>f. flush_buffers env e cs m = (e', m\<lparr>lg_out := f\<rparr>) \<and> of_path f = None
      \<and> of_disk f = of_disk (lg_out m)"
    if "of_path (lg_out m) = None" "of_fail (lg_out m)" "lg_logFile m = []"
      "e' = (if cs = [] then e else LOGFILE_WRITE_FAILE)" for m cs e e'
    using that
  proof (induction cs arbitrary: m e)
    case Nil
    then show ?case by (auto intro!: exI [of _ "lg_out m"])
  next
    case (Cons c cs)
    have "snd (setLogFile env [] m) = m\<lparr>lg_out := (lg_out m)\<lparr>of_fail := True\<rparr>\<rparr>"
      using Cons.prems(1) assms(5) by (simp add: setLogFile_def of_is_open_def of_open_def Let_def)
    moreover have "(lg_out m)\<lparr>of_fail := True\<rparr> = lg_out m" using Cons.prems(2) by simp
    ultimately have "flush_buffers env e (c # cs) m = flush_buffers env LOGFILE_WRITE_FAILE cs m"
      using Cons.prems by (simp add: of_write_def Let_def)
    with Cons.IH [of m LOGFILE_WRITE_FAILE] Cons.prems show ?case by simp
  qed
  let ?f = "(lg_out l)\<lparr>of_nwrite := Suc (of_nwrite (lg_out l)), of_path := None, of_fail := True\<rparr>"
  have "flush2LogFile env (b # bs) l = flush_buffers env LOGFILE_WRITE_FAILE bs (l\<lparr>lg_out := ?f\<rparr>)"
    using assms by (simp add: flush2LogFile_def of_is_open_def open_at_def of_write_def setLogFile_def
        of_open_def of_close_def Let_def)
  with closed [of "l\<lparr>lg_out := ?f\<rparr>" LOGFILE_WRITE_FAILE bs LOGFILE_WRITE_FAILE] assms(2,4)
  obtain f where f: "run_flush env l = l\<lparr>lg_out := f, lg_loggerLocal := []\<rparr>" "of_path f = None"
    "of_disk f = of_disk (lg_out l)" by (auto simp: run_flush_def)
  have "lg_out (run_collect t (run_flush env l)) = f" using f by (simp add: run_collect_def Let_def)
  then show ?thesis
    using f by (simp add: of_is_open_def run_flush_def [of env'] flush2LogFile_def)
qed

theorem write_failure_ends_logging_witness:
  "let l = (snd (setLogFile (reliable (\<lambda>_. True)) ''log'' (mk_AsyncLogger (\<lambda>_. []))))
         \<lparr>lg_loggerLocal := [\<lparr>bf_data = ''a'', bf_cur = 1\<rparr>]\<rparr>
   in \<not> of_is_open (lg_out (run_flush \<lparr>can_open = (\<lambda>p. p \<noteq> []), write_ok = (\<lambda>_. False)\<rparr> l))"
proof -
  let ?l = "(snd (setLogFile (reliable (\<lambda>_. True)) ''log'' (mk_AsyncLogger (\<lambda>_. []))))
         \<lparr>lg_loggerLocal := [\<lparr>bf_data = ''a'', bf_cur = 1\<rparr>]\<rparr>"
  have "open_at ''log'' ?l" "lg_logFile ?l = []" "lg_loggerLocal ?l = \<lparr>bf_data = ''a'', bf_cur = 1\<rparr> # []"
    by (simp_all add: open_at_def setLogFile_def mk_AsyncLogger_def of_is_open_def of_open_def
        reliable_def Let_def)
  with write_failure_ends_logging [of "''log''" ?l "\<lparr>bf_data = ''a'', bf_cur = 1\<rparr>" "[]"
      "\<lparr>can_open = (\<lambda>p. p \<noteq> []), write_ok = (\<lambda>_. False)\<rparr>"]
  show ?thesis by simp
qed

end
