(* ===== verification/Web_Server.thy ===== *)
theory Web_Server
  imports IO_Handler Redis_Cache Async_Logger
begin

text \<open>
  \<open>Server.hpp\<close>, \<open>Server.cc\<close> and \<open>main.cc\<close>: the configuration, the initialisation of every part
  in its order, starting, stopping, cleaning and checking the workers.
\<close>

section \<open>Configuration and state\<close>

record ServerConfig =
  cf_maxFD :: "32 word"
  cf_clientTimeoutSecond :: "16 word"
  cf_workerNum :: "16 word"
  cf_serverAddr :: "32 word"
  cf_serverPort :: "16 word"
  cf_listenQueue :: "16 word"
  cf_redisServerAddr :: string
  cf_redisServerPort :: "16 word"
  cf_redisServerPasswd :: string
  cf_redisServerHasPasswd :: bool
  cf_maxConn :: "8 word"
  cf_maxRef :: "32 word"
  cf_responseTimeout :: int
  cf_lockTimeout :: int
  cf_redisCacheEnable :: bool

text \<open>The static default, with the strings the constructor copies into it.\<close>

definition defaultCfg :: ServerConfig where
  "defaultCfg = \<lparr>cf_maxFD = 100000, cf_clientTimeoutSecond = 60, cf_workerNum = 5,
     cf_serverAddr = 0, cf_serverPort = 8888, cf_listenQueue = 1000,
     cf_redisServerAddr = ''127.0.0.1'', cf_redisServerPort = 6379,
     cf_redisServerPasswd = ''panda'', cf_redisServerHasPasswd = True,
     cf_maxConn = 8, cf_maxRef = 2, cf_responseTimeout = 500, cf_lockTimeout = 1000,
     cf_redisCacheEnable = True\<rparr>"

text \<open>The accessor the server made: a file accessor, or a cached one with its (possibly null) cache.\<close>

datatype 'w server_accessor =
    FileAccessor
  | CachedResourceAccessor "'w RedisCache option"

record ('k, 'w) Server =
  sv_cfgPath :: string
  sv_cfg :: ServerConfig
  sv_listenFD :: int
  sv_running :: bool
  sv_router :: "Router option"
  sv_accessor :: "'w server_accessor option"
  sv_ioWorkers :: "Worker list"
  sv_listenWorker :: "Worker option"
  sv_kernel :: 'k
  sv_heap :: event_heap
  sv_next :: event_sptr
  sv_world :: 'w
  sv_logger :: AsyncLogger

text \<open>
  What the server's environment decides: the system calls, hiredis, the file system of the log,
  the addresses of new connections and whether the n-th started thread is still alive when
  \<open>Worker::run\<close> looks.
\<close>

record ('k, 'w) server_env =
  se_sys :: "'k syscalls"
  se_redis :: "'w hiredis"
  se_log :: log_env
  se_addr :: "nat \<Rightarrow> nat"
  se_port0 :: "16 word"
  se_alive :: "nat \<Rightarrow> bool"

section \<open>Initialisation\<close>

definition initListenSocket ::
  "('k, 'w) server_env \<Rightarrow> ('k, 'w) Server \<Rightarrow> server_err_t \<times> ('k, 'w) Server" where
  "initListenSocket en s =
     (let sys = se_sys en; cfg = sv_cfg s
      in case sys_socket sys (sv_kernel s) of
           (fd, k1) \<Rightarrow>
             let s1 = s\<lparr>sv_listenFD := fd, sv_kernel := k1\<rparr>
             in if fd = -1 then (SOCKET_INIT_FAILED, s1)
                else (case sys_getfl sys k1 fd of
                  (flags, k2) \<Rightarrow>
                    if flags = -1 then (SOCKET_INIT_FAILED, s1\<lparr>sv_kernel := k2\<rparr>)
                    else (case sys_bind sys (sys_setfl sys k2 fd (or flags O_NONBLOCK)) fd
                                 (cf_serverAddr cfg) (cf_serverPort cfg) of
                      (r3, k3) \<Rightarrow>
                        if r3 = -1 then (SOCKET_BIND_FAILED, s1\<lparr>sv_kernel := k3\<rparr>)
                        else (case sys_listen sys k3 fd (cf_listenQueue cfg) of
                          (r4, k4) \<Rightarrow>
                            if r4 = -1 then (SOCKET_LISTEN_FAILED, s1\<lparr>sv_kernel := k4\<rparr>)
                            else (SERVER_OK, s1\<lparr>sv_kernel := k4\<rparr>)))))"

definition initRouter :: "('k, 'w) Server \<Rightarrow> server_err_t \<times> ('k, 'w) Server" where
  "initRouter s = (SERVER_OK, s\<lparr>sv_router := Some mk_Router\<rparr>)"

text \<open>One connection of the pool, as the configuration asks for it.\<close>

definition build_connection :: "16 word \<Rightarrow> ServerConfig \<Rightarrow> RedisConnection" where
  "build_connection port0 cfg =
     cb_build
       (cb_setPasswd (if cf_redisServerHasPasswd cfg then cf_redisServerPasswd cfg else [])
         (cb_setLockTimeout (cf_lockTimeout cfg)
           (cb_setReqTimeout (cf_responseTimeout cfg)
             (cb_setPort (cf_redisServerPort cfg)
               (cb_setIP (cf_redisServerAddr cfg) (mk_RedisConnectionBuilder port0))))))"

text \<open>
  The loop that connects and pools \<open>n\<close> more connections, the next at address \<open>se_addr i\<close>. An early
  return destroys the pool with its connections and then the connection at hand.
\<close>

fun connect_loop ::
  "('k, 'w) server_env \<Rightarrow> ServerConfig \<Rightarrow> nat \<Rightarrow> nat \<Rightarrow> 'w RedisCache
    \<Rightarrow> server_err_t \<times> 'w RedisCache" where
  "connect_loop en cfg i 0 c = (SERVER_OK, c)"
| "connect_loop en cfg i (Suc n) c =
     (case contextInit (se_redis en) (ca_world c) (build_connection (se_port0 en) cfg) of
        (e1, conn, w1) \<Rightarrow>
          let p = ConnPtr (se_addr en i);
              c1 = c\<lparr>ca_world := w1, ca_conn := (ca_conn c)(p := conn)\<rparr>;
              w2 = destroy_RedisConnection (se_redis en)
                     (destroy_RedisCache (se_redis en) (c\<lparr>ca_world := w1\<rparr>)) conn
          in if e1 \<noteq> SERVER_OK then (e1, c1\<lparr>ca_world := w2\<rparr>)
             else (case pushConnection p (ca_pool c1) of
                     (e2, pool) \<Rightarrow>
                       if e2 \<noteq> SERVER_OK then (e2, c1\<lparr>ca_world := w2\<rparr>)
                       else connect_loop en cfg (Suc i) n (c1\<lparr>ca_pool := pool\<rparr>)))"

definition initResourceAccessor ::
  "('k, 'w) server_env \<Rightarrow> ('k, 'w) Server \<Rightarrow> server_err_t \<times> ('k, 'w) Server" where
  "initResourceAccessor en s =
     (let cfg = sv_cfg s
      in if cf_redisCacheEnable cfg
         then (case connect_loop en cfg 0 (unat (cf_maxConn cfg))
                      \<lparr>ca_pool = mk_RedisConnectionPool (cf_maxConn cfg) (cf_maxRef cfg),
                       ca_conn = (\<lambda>p. mk_RedisConnection (se_port0 en)), ca_world = sv_world s\<rparr> of
                 (e, c) \<Rightarrow>
                   if e \<noteq> SERVER_OK then (e, s\<lparr>sv_world := ca_world c\<rparr>)
                   else (SERVER_OK, s\<lparr>sv_world := ca_world c,
                     sv_accessor := Some (CachedResourceAccessor
                       (if curConnNum (ca_pool c) \<noteq> 0 then Some c else None))\<rparr>))
         else (SERVER_OK, s\<lparr>sv_accessor := Some FileAccessor\<rparr>))"

definition DEFAULT_LOG :: string where
  "DEFAULT_LOG = ''/dev/null''"

definition initLogger ::
  "('k, 'w) server_env \<Rightarrow> ('k, 'w) Server \<Rightarrow> server_err_t \<times> ('k, 'w) Server" where
  "initLogger en s =
     (if \<not> lg_isRunning (sv_logger s) then (LOG_THREAD_STOPPED, s)
      else if lg_logFileOn (sv_logger s) then (SERVER_OK, s)
      else (case setLogFile (se_log en) DEFAULT_LOG (sv_logger s) of
              (e, l) \<Rightarrow> (e, s\<lparr>sv_logger := l\<rparr>)))"

text \<open>
  One poller and worker per turn; \<open>error\<close> is read after the worker has been made, so a failing
  turn destroys the worker it has just made. The limit is converted to a signed \<open>int\<close>.
\<close>

fun worker_init_loop ::
  "('k, 'w) server_env \<Rightarrow> nat \<Rightarrow> ('k, 'w) Server \<Rightarrow> server_err_t \<times> ('k, 'w) Server" where
  "worker_init_loop en 0 s = (SERVER_OK, s)"
| "worker_init_loop en (Suc n) s =
     (case mk_Epoll (se_sys en) (sv_kernel s) (sint (cf_maxFD (sv_cfg s))) of
        (e, ep, k1) \<Rightarrow>
          if e \<noteq> SERVER_OK
          then (e, s\<lparr>sv_kernel := destroy_Worker (se_sys en) (sv_heap s) (mk_Worker ep) k1\<rparr>)
          else worker_init_loop en n
                 (s\<lparr>sv_kernel := k1, sv_ioWorkers := sv_ioWorkers s @ [mk_Worker ep]\<rparr>))"

definition initIOWorker ::
  "('k, 'w) server_env \<Rightarrow> ('k, 'w) Server \<Rightarrow> server_err_t \<times> ('k, 'w) Server" where
  "initIOWorker en s = worker_init_loop en (unat (cf_workerNum (sv_cfg s))) s"

text \<open>The listening worker is the worker with the address after the IO workers.\<close>

definition initListenWorker ::
  "('k, 'w) server_env \<Rightarrow> ('k, 'w) Server \<Rightarrow> server_err_t \<times> ('k, 'w) Server" where
  "initListenWorker en s =
     (case mk_Epoll (se_sys en) (sv_kernel s) (sint (cf_maxFD (sv_cfg s))) of
        (e1, ep, k1) \<Rightarrow>
          let w = mk_Worker ep; s1 = s\<lparr>sv_kernel := k1, sv_listenWorker := Some w\<rparr>
          in if e1 \<noteq> SERVER_OK then (e1, s1)
             else (let ev = sv_next s;
                       heap = (sv_heap s)(ev := mk_Event (sv_listenFD s) EPOLLIN_EPOLLET)
                   in case worker_addEvent (se_sys en) k1 heap (length (sv_ioWorkers s)) ev w of
                        (e2, w2, heap2, k2) \<Rightarrow>
                          let s2 = s1\<lparr>sv_listenWorker := Some w2, sv_heap := heap2, sv_next := Suc ev\<rparr>
                          in if e2 \<noteq> SERVER_OK
                             then (e2, s2\<lparr>sv_kernel := destroy_Event (se_sys en) k2 (heap2 ev)\<rparr>)
                             else (SERVER_OK, s2\<lparr>sv_kernel := k2\<rparr>)))"

section \<open>Cleaning, starting, stopping\<close>

text \<open>
  The accessor is shared with the handlers of the IO workers: its last reference goes when they are
  destroyed. The Redis world of a running server is the one of its cache.
\<close>

definition server_world :: "('k, 'w) Server \<Rightarrow> 'w" where
  "server_world s =
     (case sv_accessor s of Some (CachedResourceAccessor (Some c)) \<Rightarrow> ca_world c | _ \<Rightarrow> sv_world s)"

definition destroy_accessor :: "'w hiredis \<Rightarrow> ('k, 'w) Server \<Rightarrow> 'w" where
  "destroy_accessor hi s =
     (case sv_accessor s of
        Some (CachedResourceAccessor (Some c)) \<Rightarrow> destroy_RedisCache hi c | _ \<Rightarrow> sv_world s)"

definition server_clean :: "('k, 'w) server_env \<Rightarrow> ('k, 'w) Server \<Rightarrow> ('k, 'w) Server" where
  "server_clean en s =
     (let sys = se_sys en;
          k1 = (if sv_listenFD s = -1 then sys_close sys (sv_kernel s) (sv_listenFD s) else sv_kernel s);
          k2 = (case sv_listenWorker s of None \<Rightarrow> k1 | Some w \<Rightarrow> destroy_Worker sys (sv_heap s) w k1);
          k3 = foldl (\<lambda>k w. destroy_Worker sys (sv_heap s) w k) k2 (sv_ioWorkers s)
      in s\<lparr>sv_kernel := k3, sv_router := None, sv_accessor := None, sv_listenWorker := None,
           sv_ioWorkers := [], sv_world := destroy_accessor (se_redis en) s\<rparr>)"

definition server_init ::
  "('k, 'w) server_env \<Rightarrow> ('k, 'w) Server \<Rightarrow> server_err_t \<times> ('k, 'w) Server" where
  "server_init en s =
     (case initLogger en (server_clean en s) of (e1, s1) \<Rightarrow> if e1 \<noteq> SERVER_OK then (e1, s1) else
      case initRouter s1 of (e2, s2) \<Rightarrow> if e2 \<noteq> SERVER_OK then (e2, s2) else
      case initResourceAccessor en s2 of (e3, s3) \<Rightarrow> if e3 \<noteq> SERVER_OK then (e3, s3) else
      case initIOWorker en s3 of (e4, s4) \<Rightarrow> if e4 \<noteq> SERVER_OK then (e4, s4) else
      case initListenSocket en s4 of (e5, s5) \<Rightarrow> if e5 \<noteq> SERVER_OK then (e5, s5) else
      initListenWorker en s5)"

definition server_isRunning :: "('k, 'w) Server \<Rightarrow> bool" where
  "server_isRunning s = sv_running s"

definition stop_worker :: "Worker \<Rightarrow> Worker" where
  "stop_worker w = (if worker_isRunning w then worker_stop w else w)"

definition server_stop :: "('k, 'w) Server \<Rightarrow> ('k, 'w) Server" where
  "server_stop s = s\<lparr>sv_ioWorkers := map stop_worker (sv_ioWorkers s),
     sv_listenWorker := map_option stop_worker (sv_listenWorker s), sv_running := False\<rparr>"

text \<open>Starting the IO workers in order; the first failure ends the loop.\<close>

fun run_workers :: "('k, 'w) server_env \<Rightarrow> nat \<Rightarrow> Worker list \<Rightarrow> server_err_t \<times> Worker list" where
  "run_workers en i [] = (SERVER_OK, [])"
| "run_workers en i (w # ws) =
     (case worker_run (se_alive en i) w of
        (e, w1) \<Rightarrow>
          if e \<noteq> SERVER_OK then (e, w1 # ws)
          else (case run_workers en (Suc i) ws of (e2, ws2) \<Rightarrow> (e2, w1 # ws2)))"

definition server_start ::
  "('k, 'w) server_env \<Rightarrow> ('k, 'w) Server \<Rightarrow> server_err_t \<times> ('k, 'w) Server" where
  "server_start en s =
     (if server_isRunning s then (SERVER_ALREADY_RUNNING, s)
      else (case server_init en s of
        (e0, s0) \<Rightarrow>
          if e0 \<noteq> SERVER_OK then (e0, s0)
          else (case run_workers en 0 (sv_ioWorkers s0) of
            (e1, ws) \<Rightarrow>
              let s1 = s0\<lparr>sv_ioWorkers := ws\<rparr>
              in if e1 \<noteq> SERVER_OK then (e1, server_clean en (server_stop s1))
                 else (case worker_run (se_alive en (length ws)) (the (sv_listenWorker s1)) of
                   (e2, lw) \<Rightarrow>
                     let s2 = s1\<lparr>sv_listenWorker := Some lw\<rparr>
                     in if e2 \<noteq> SERVER_OK then (e2, server_clean en (server_stop s2))
                        else (SERVER_OK, s2\<lparr>sv_running := True\<rparr>)))))"

definition statusChecking :: "('k, 'w) Server \<Rightarrow> cpp_exception + server_err_t" where
  "statusChecking s =
     (case sv_listenWorker s of
        None \<Rightarrow> Inl null_pointer
      | Some w \<Rightarrow>
          if \<not> worker_isRunning w then Inr LISTEN_WORKER_DUMP
          else if \<exists>io \<in> set (sv_ioWorkers s). \<not> worker_isRunning io then Inr IO_WORKER_DUMP
          else Inr SERVER_OK)"

text \<open>
  Reading a configuration file is not implemented: the constructor that is given a path keeps it
  and leaves the configuration as it is in memory (argument \<open>cfg0\<close>).
\<close>

definition loadCfgFrom :: "string \<Rightarrow> ('k, 'w) Server \<Rightarrow> server_err_t \<times> ('k, 'w) Server" where
  "loadCfgFrom path s = (SERVER_OK, s)"

definition mk_Server ::
  "string option \<Rightarrow> ServerConfig \<Rightarrow> 'k \<Rightarrow> 'w \<Rightarrow> AsyncLogger \<Rightarrow> event_heap \<Rightarrow> ('k, 'w) Server" where
  "mk_Server cfgPath cfg0 k w l heap =
     (let s = \<lparr>sv_cfgPath = [], sv_cfg = cfg0, sv_listenFD = -1, sv_running = False, sv_router = None,
            sv_accessor = None, sv_ioWorkers = [], sv_listenWorker = None, sv_kernel = k, sv_heap = heap,
            sv_next = 0, sv_world = w, sv_logger = l\<rparr>
      in (case cfgPath of
            Some path \<Rightarrow> snd (loadCfgFrom path (s\<lparr>sv_cfgPath := path\<rparr>))
          | None \<Rightarrow> s\<lparr>sv_cfg := defaultCfg\<rparr>)\<lparr>sv_listenFD := -1\<rparr>)"

definition destroy_Server :: "('k, 'w) server_env \<Rightarrow> ('k, 'w) Server \<Rightarrow> ('k, 'w) Server" where
  "destroy_Server en s = server_clean en (server_stop s)"

section \<open>main\<close>

text \<open>
  The main thread starts the server and checks it every ten seconds. \<open>sleep n s\<close> is what the
  other threads have made of the server during the n-th sleep. The result is the exit code and
  the server after its destructor.
\<close>

partial_function (option) main_loop ::
  "(nat \<Rightarrow> ('k, 'w) Server \<Rightarrow> ('k, 'w) Server) \<Rightarrow> nat \<Rightarrow> ('k, 'w) Server \<Rightarrow> ('k, 'w) Server run" where
  "main_loop sleep n s =
     (case statusChecking s of
        Inl x \<Rightarrow> Some (Inl x)
      | Inr error \<Rightarrow>
          if error = SERVER_OK then main_loop sleep (Suc n) (sleep n s) else Some (Inr s))"

definition main_prog ::
  "('k, 'w) server_env \<Rightarrow> (nat \<Rightarrow> ('k, 'w) Server \<Rightarrow> ('k, 'w) Server) \<Rightarrow> ('k, 'w) Server
    \<Rightarrow> (int \<times> ('k, 'w) Server) run" where
  "main_prog en sleep s =
     (case server_start en s of
        (error, s1) \<Rightarrow>
          if error \<noteq> SERVER_OK then Some (Inr (-1, destroy_Server en s1))
          else (case main_loop sleep 0 s1 of
                  None \<Rightarrow> None
                | Some (Inl x) \<Rightarrow> Some (Inl x)
                | Some (Inr s2) \<Rightarrow> Some (Inr (0, destroy_Server en s2))))"

end
