(* ===== verification/Server_Lifecycle.thy ===== *)
theory Server_Lifecycle
  imports Web_Server
begin

text \<open>
  What starting, stopping and supervising the server (theory \<open>Web_Server\<close>) achieve: the pool and
  the cache it makes, a complete server after a successful start and a stopped one after a failed
  start, the leak of the listening socket, the main thread, and the first clients.
\<close>

section \<open>The pool and the cache the server makes\<close>

definition fresh_conns :: "'w RedisCache \<Rightarrow> bool" where
  "fresh_conns c = list_all (\<lambda>(d, r). rc_context (ca_conn c d) \<noteq> None \<and> r = 0) (pl_conns (ca_pool c))"

lemma fresh_conns_push:
  assumes "fresh_conns c" and "pushConnection p (ca_pool c) = (SERVER_OK, pool)" and "rc_context conn \<noteq> None"
  shows "fresh_conns (c\<lparr>ca_world := w, ca_conn := (ca_conn c)(p := conn), ca_pool := pool\<rparr>)"
proof -
  from assms(2) have f: "map_of (pl_conns (ca_pool c)) p = None"
    and q: "pl_conns pool = omap_put p 0 (pl_conns (ca_pool c))"
    by (auto simp: pushConnection_def split: if_splits)
  have "set (omap_put p 0 m) \<subseteq> insert (p, 0) (set m)" for m :: conn_ref_map_t
    by (induction p "0 :: 32 word" m rule: omap_put.induct) auto
  with assms(1,3) f q show ?thesis
    by (fastforce simp: fresh_conns_def list_all_iff map_of_eq_None_iff)
qed

lemma pushConnection_OK:
  assumes "pushConnection p pool = (SERVER_OK, pool')" and "pool_wf pool"
  shows "pool_wf pool'" and "length (pl_conns pool') = Suc (length (pl_conns pool))"
    and "pl_maxRef pool' = pl_maxRef pool" and "pl_maxConn pool' = pl_maxConn pool"
proof -
  from assms(2) have "sorted_keys (pl_conns pool)" by (simp add: pool_wf_def)
  with pool_wf_push [OF assms(2), of p] assms show "pool_wf pool'"
    and "length (pl_conns pool') = Suc (length (pl_conns pool))"
    and "pl_maxRef pool' = pl_maxRef pool" and "pl_maxConn pool' = pl_maxConn pool"
    by (auto simp: pushConnection_def length_omap_put map_of_eq_None_iff split: if_splits)
qed

text \<open>
  The loop that fills the pool: when it succeeds, the pool holds \<open>n\<close> more connections, all
  connected and unused.
\<close>

lemma connect_loop_OK:
  assumes "connect_loop en cfg i n c = (SERVER_OK, c')" and "pool_wf (ca_pool c)" and "fresh_conns c"
  shows "pool_wf (ca_pool c') \<and> fresh_conns c'
    \<and> length (pl_conns (ca_pool c')) = length (pl_conns (ca_pool c)) + n
    \<and> pl_maxRef (ca_pool c') = pl_maxRef (ca_pool c)
    \<and> pl_maxConn (ca_pool c') = pl_maxConn (ca_pool c)"
  using assms
proof (induction n arbitrary: i c)
  case 0
  then show ?case by simp
next
  case (Suc n)
  obtain e1 conn w1 where x: "contextInit (se_redis en) (ca_world c) (build_connection (se_port0 en) cfg)
      = (e1, conn, w1)" using prod_cases3 by blast
  let ?p = "ConnPtr (se_addr en i)"
  obtain e2 pool where q: "pushConnection ?p (ca_pool c) = (e2, pool)" by fastforce
  let ?c = "c\<lparr>ca_world := w1, ca_conn := (ca_conn c)(?p := conn), ca_pool := pool\<rparr>"
  from Suc.prems(1) x q have ok: "e1 = SERVER_OK" "e2 = SERVER_OK"
    and l: "connect_loop en cfg (Suc i) n ?c = (SERVER_OK, c')"
    by (auto simp: Let_def split: if_splits)
  from contextInit_context [OF x] ok have "rc_context conn \<noteq> None" by simp
  note f = fresh_conns_push [OF Suc.prems(3) q [unfolded ok] this, of w1]
  note p = pushConnection_OK [OF q [unfolded ok] Suc.prems(2)]
  from Suc.IH [OF l _ f] p show ?case by simp
qed

text \<open>Connecting, authenticating and disconnecting leave the keys of the server alone.\<close>

locale redis_startup = redis_server hi data
  for hi :: "'w hiredis" and data :: "'w \<Rightarrow> string \<rightharpoonup> string" +
  assumes connect_data: "redisConnectWithTimeout hi w ip port t = (r, w') \<Longrightarrow> data w' \<subseteq>\<^sub>m data w"
    and auth_data: "redisCommand hi w x (AUTH pw) = (rep, w') \<Longrightarrow> data w' \<subseteq>\<^sub>m data w"
    and timeout_data: "data (redisSetTimeout hi w x t) \<subseteq>\<^sub>m data w"
    and free_data: "data (redisFree hi w x) \<subseteq>\<^sub>m data w"
begin

lemma destroy_RedisConnection_data: "data (destroy_RedisConnection hi w c) \<subseteq>\<^sub>m data w"
  by (auto simp: destroy_RedisConnection_def intro: free_data split: option.split)

lemma destroy_RedisCache_data: "data (destroy_RedisCache hi c) \<subseteq>\<^sub>m data (ca_world c)"
proof -
  have "data (foldl (\<lambda>w (p, r). destroy_RedisConnection hi w (ca_conn c p)) w xs) \<subseteq>\<^sub>m data w"
    for w and xs :: conn_ref_map_t
    by (induction xs arbitrary: w)
       (auto intro: map_le_trans destroy_RedisConnection_data split: prod.split)
  then show ?thesis by (simp add: destroy_RedisCache_def)
qed

lemma destroy_accessor_data: "data (destroy_accessor hi s) \<subseteq>\<^sub>m data (server_world s)"
  by (simp add: destroy_accessor_def server_world_def destroy_RedisCache_data
      split: option.split server_accessor.split)

lemma contextInit_data:
  assumes "contextInit hi w c = (e, c', w')"
  shows "data w' \<subseteq>\<^sub>m data w"
proof (cases "rc_context c")
  case (Some x)
  with assms show ?thesis by (simp add: contextInit_def)
next
  case None
  obtain r w1 where r: "redisConnectWithTimeout hi w (c_str (rc_ip c)) (rc_port c) (rc_reqTimeout c) = (r, w1)"
    by fastforce
  note d1 = connect_data [OF r]
  show ?thesis
  proof (cases r)
    case None
    with \<open>rc_context c = None\<close> r d1 assms show ?thesis by (simp add: contextInit_def)
  next
    case (Some z)
    then obtain ctx err where z: "r = Some (ctx, err)" by (cases z) auto
    obtain rep w2 where a: "redisCommand hi w1 ctx (AUTH (c_str (rc_passwd c))) = (rep, w2)" by fastforce
    note d2 = map_le_trans [OF auth_data [OF a] d1]
    have "w' \<in> {w1, w2, redisSetTimeout hi w1 ctx (rc_reqTimeout c), redisSetTimeout hi w2 ctx (rc_reqTimeout c)}"
      using assms \<open>rc_context c = None\<close> r z a
      by (auto simp: contextInit_def Let_def split: if_splits option.splits redisReply.splits)
    with d1 d2 map_le_trans [OF timeout_data d1] map_le_trans [OF timeout_data d2] show ?thesis by auto
  qed
qed

lemma connect_loop_data:
  assumes "se_redis en = hi" and "connect_loop en cfg i n c = (e, c')"
  shows "data (ca_world c') \<subseteq>\<^sub>m data (ca_world c)"
  using assms(2)
proof (induction n arbitrary: i c)
  case 0
  then show ?case by simp
next
  case (Suc n)
  obtain e1 conn w1 where x: "contextInit hi (ca_world c) (build_connection (se_port0 en) cfg)
      = (e1, conn, w1)" using prod_cases3 by blast
  let ?p = "ConnPtr (se_addr en i)"
  obtain e2 pool where q: "pushConnection ?p (ca_pool c) = (e2, pool)" by fastforce
  let ?c = "c\<lparr>ca_world := w1, ca_conn := (ca_conn c)(?p := conn), ca_pool := pool\<rparr>"
  let ?w2 = "destroy_RedisConnection hi (destroy_RedisCache hi (c\<lparr>ca_world := w1\<rparr>)) conn"
  have "data ?w2 \<subseteq>\<^sub>m data w1"
    using destroy_RedisCache_data [of "c\<lparr>ca_world := w1\<rparr>"] destroy_RedisConnection_data
    by (auto intro: map_le_trans)
  moreover from Suc.prems x q assms(1) have "ca_world c' = ?w2 \<or> connect_loop en cfg (Suc i) n ?c = (e, c')"
    by (auto simp: Let_def split: if_splits)
  ultimately show ?case
    using Suc.IH [of "Suc i" ?c] contextInit_data [OF x] by (auto intro: map_le_trans)
qed

end

interpretation mem: redis_startup mem_hiredis map_of
  by unfold_locales (auto simp: mem_hiredis_def)

text \<open>The accessor fits the configuration; a cache agrees with the files and has all its connections.\<close>

definition init_accessor_coherent ::
  "('w \<Rightarrow> string \<rightharpoonup> string) \<Rightarrow> (string \<Rightarrow> string option) \<Rightarrow> ServerConfig \<Rightarrow> 'w server_accessor \<Rightarrow> bool"
where
  "init_accessor_coherent data files cfg acc =
     (case acc of
        FileAccessor \<Rightarrow> \<not> cf_redisCacheEnable cfg
      | CachedResourceAccessor cache \<Rightarrow> cf_redisCacheEnable cfg
          \<and> cache_coherent (cached_data data) plain_key cache_inv files cache
          \<and> (case cache of None \<Rightarrow> cf_maxConn cfg = 0
             | Some c \<Rightarrow> length (pl_conns (ca_pool c)) = unat (cf_maxConn cfg) \<and> fresh_conns c))"

lemma initResourceAccessor_OK:
  assumes "redis_startup (se_redis en) data" and "initResourceAccessor en s = (SERVER_OK, s')"
    and "cf_maxRef (sv_cfg s) \<noteq> -1"
    and "\<And>k v. plain_key k \<Longrightarrow> data (sv_world s) k = Some v \<Longrightarrow> files k = Some v"
  shows "\<exists>acc. sv_accessor s' = Some acc \<and> init_accessor_coherent data files (sv_cfg s) acc"
proof (cases "cf_redisCacheEnable (sv_cfg s)")
  case False
  with assms(2) show ?thesis by (auto simp: initResourceAccessor_def Let_def init_accessor_coherent_def)
next
  case True
  let ?cfg = "sv_cfg s"
  let ?c0 = "\<lparr>ca_pool = mk_RedisConnectionPool (cf_maxConn ?cfg) (cf_maxRef ?cfg),
      ca_conn = (\<lambda>p. mk_RedisConnection (se_port0 en)), ca_world = sv_world s\<rparr>"
  obtain e c where l: "connect_loop en ?cfg 0 (unat (cf_maxConn ?cfg)) ?c0 = (e, c)" by fastforce
  with assms(2) True have e: "e = SERVER_OK"
    and s': "sv_accessor s' = Some (CachedResourceAccessor (if curConnNum (ca_pool c) \<noteq> 0 then Some c else None))"
    by (auto simp: initResourceAccessor_def Let_def split: if_splits)
  have f0: "fresh_conns ?c0" by (simp add: fresh_conns_def mk_RedisConnectionPool_def)
  from connect_loop_OK [OF l [unfolded e] _ f0] have
    c: "pool_wf (ca_pool c)" "fresh_conns c" "length (pl_conns (ca_pool c)) = unat (cf_maxConn ?cfg)"
      "pl_maxRef (ca_pool c) = cf_maxRef ?cfg"
    by (auto simp: pool_wf_mk) (simp_all add: mk_RedisConnectionPool_def)
  have n: "curConnNum (ca_pool c) = cf_maxConn ?cfg" using c(3) by (simp add: curConnNum_def)
  from redis_startup.connect_loop_data [OF assms(1) refl l] have "data (ca_world c) \<subseteq>\<^sub>m data (sv_world s)"
    by simp
  with assms(4) have "files k = Some v" if "plain_key k" "data (ca_world c) k = Some v" for k v
    using that by (metis domI map_le_def)
  with c n s' True assms(3) show ?thesis
    by (auto simp: init_accessor_coherent_def cache_coherent_def cached_data_def cache_inv_def)
qed

section \<open>Starting the server\<close>

text \<open>A worker that has just been made: not running, nothing registered.\<close>

definition new_worker :: "int \<Rightarrow> Worker \<Rightarrow> bool" where
  "new_worker n w = (\<not> wk_running w \<and> ep_events (wk_poller w) = [] \<and> ep_maxFDS (wk_poller w) = n)"

lemma mk_Worker_new: "mk_Epoll sys k n = (e, ep, k') \<Longrightarrow> new_worker n (mk_Worker ep)"
  by (auto simp: mk_Epoll_def mk_Worker_def new_worker_def split: prod.splits)

lemma worker_init_loop_OK:
  assumes "worker_init_loop en n s = (SERVER_OK, s')"
  shows "\<exists>ws k. s' = s\<lparr>sv_ioWorkers := sv_ioWorkers s @ ws, sv_kernel := k\<rparr> \<and> length ws = n
    \<and> list_all (new_worker (sint (cf_maxFD (sv_cfg s)))) ws"
  using assms
proof (induction n arbitrary: s)
  case 0
  then show ?case by (intro exI [of _ "[]"] exI [of _ "sv_kernel s"]) simp
next
  case (Suc n)
  obtain e ep k1 where m: "mk_Epoll (se_sys en) (sv_kernel s) (sint (cf_maxFD (sv_cfg s))) = (e, ep, k1)"
    using prod_cases3 by blast
  let ?s = "s\<lparr>sv_kernel := k1, sv_ioWorkers := sv_ioWorkers s @ [mk_Worker ep]\<rparr>"
  from Suc.prems m have "worker_init_loop en n ?s = (SERVER_OK, s')" by (auto split: if_splits)
  from Suc.IH [OF this] obtain ws k where w: "s' = ?s\<lparr>sv_ioWorkers := sv_ioWorkers ?s @ ws, sv_kernel := k\<rparr>"
    "length ws = n" "list_all (new_worker (sint (cf_maxFD (sv_cfg s)))) ws" by auto
  with mk_Worker_new [OF m] show ?case by (intro exI [of _ "mk_Worker ep # ws"] exI [of _ k]) simp
qed

text \<open>Everything the workers rely on is there, and the listening socket is registered.\<close>

definition server_ready :: "('k, 'w) Server \<Rightarrow> bool" where
  "server_ready s =
     (sv_router s = Some mk_Router \<and> sv_accessor s \<noteq> None
      \<and> length (sv_ioWorkers s) = unat (cf_workerNum (sv_cfg s))
      \<and> lg_isRunning (sv_logger s) \<and> lg_logFileOn (sv_logger s) \<and> sv_listenFD s \<noteq> -1
      \<and> (case sv_listenWorker s of None \<Rightarrow> False
         | Some lw \<Rightarrow> (case map_of (ep_events (wk_poller lw)) (sv_listenFD s) of None \<Rightarrow> False
             | Some e \<Rightarrow> ev_fd (sv_heap s e) = sv_listenFD s
                 \<and> ev_worker (sv_heap s e) = Some (length (sv_ioWorkers s)))))"

lemma server_clean_simps [simp]:
  "sv_cfg (server_clean en s) = sv_cfg s" "sv_logger (server_clean en s) = sv_logger s"
  "sv_world (server_clean en s) = destroy_accessor (se_redis en) s" "sv_running (server_clean en s) = sv_running s"
  "sv_ioWorkers (server_clean en s) = []" "sv_listenWorker (server_clean en s) = None"
  "sv_router (server_clean en s) = None" "sv_accessor (server_clean en s) = None"
  "sv_listenFD (server_clean en s) = sv_listenFD s" "sv_heap (server_clean en s) = sv_heap s"
  by (simp_all add: server_clean_def Let_def)

lemma initLogger_OK:
  assumes "initLogger en s = (SERVER_OK, s')"
  shows "\<exists>l. s' = s\<lparr>sv_logger := l\<rparr> \<and> lg_isRunning l \<and> lg_logFileOn l"
proof (cases "lg_isRunning (sv_logger s) \<and> \<not> lg_logFileOn (sv_logger s)")
  case True
  obtain e l where l: "setLogFile (se_log en) DEFAULT_LOG (sv_logger s) = (e, l)" by fastforce
  with assms True have "e = SERVER_OK" "s' = s\<lparr>sv_logger := l\<rparr>" by (simp_all add: initLogger_def)
  with l True show ?thesis
    by (auto simp: setLogFile_def Let_def lg_isRunning_def lg_logFileOn_def split: if_splits)
next
  case False
  with assms show ?thesis by (intro exI [of _ "sv_logger s"]) (auto simp: initLogger_def split: if_splits prod.splits)
qed

lemma initResourceAccessor_frame:
  assumes "initResourceAccessor en s = (SERVER_OK, s')"
  shows "\<exists>acc w. s' = s\<lparr>sv_world := w, sv_accessor := Some acc\<rparr>"
proof (cases "cf_redisCacheEnable (sv_cfg s)")
  case True
  with assms show ?thesis by (auto simp: initResourceAccessor_def Let_def split: prod.splits if_splits)
next
  case False
  with assms show ?thesis
    by (intro exI [of _ FileAccessor] exI [of _ "sv_world s"]) (auto simp: initResourceAccessor_def Let_def)
qed

lemma initListenSocket_OK:
  assumes "initListenSocket en s = (SERVER_OK, s')"
  shows "\<exists>fd k. s' = s\<lparr>sv_listenFD := fd, sv_kernel := k\<rparr> \<and> fd \<noteq> -1"
  using assms by (auto simp: initListenSocket_def Let_def split: prod.splits if_splits)

lemma initListenWorker_OK:
  assumes "initListenWorker en s = (SERVER_OK, s')"
  shows "\<exists>lw k. s' = s\<lparr>sv_kernel := k, sv_listenWorker := Some lw, sv_next := Suc (sv_next s),
      sv_heap := (sv_heap s)(sv_next s := setWorker (Some (length (sv_ioWorkers s)))
        (mk_Event (sv_listenFD s) EPOLLIN_EPOLLET))\<rparr>
    \<and> \<not> wk_running lw \<and> map_of (ep_events (wk_poller lw)) (sv_listenFD s) = Some (sv_next s)"
proof -
  obtain e ep k1 where m: "mk_Epoll (se_sys en) (sv_kernel s) (sint (cf_maxFD (sv_cfg s))) = (e, ep, k1)"
    using prod_cases3 by blast
  let ?heap = "(sv_heap s)(sv_next s := mk_Event (sv_listenFD s) EPOLLIN_EPOLLET)"
  obtain e2 w2 heap2 k2 where a: "worker_addEvent (se_sys en) k1 ?heap (length (sv_ioWorkers s)) (sv_next s)
      (mk_Worker ep) = (e2, w2, heap2, k2)" using prod_cases4 by blast
  from assms m a have ok: "e = SERVER_OK" "e2 = SERVER_OK"
    by (auto simp: initListenWorker_def Let_def split: if_splits)
  note w = worker_addEvent_OK [OF a [unfolded ok]]
  from assms m a ok have "s' = s\<lparr>sv_kernel := k2, sv_listenWorker := Some w2, sv_next := Suc (sv_next s),
      sv_heap := heap2\<rparr>" by (auto simp: initListenWorker_def Let_def)
  with w show ?thesis by (intro exI [of _ w2] exI [of _ k2]) (simp add: mk_Event_def mk_Worker_def)
qed

lemma server_init_OK:
  assumes "server_init en s = (SERVER_OK, s')"
  shows "server_ready s'" and "sv_cfg s' = sv_cfg s" and "sv_running s' = sv_running s"
    and "list_all (new_worker (sint (cf_maxFD (sv_cfg s)))) (sv_ioWorkers s')"
    and "\<exists>lw. sv_listenWorker s' = Some lw \<and> \<not> wk_running lw"
proof -
  let ?s0 = "server_clean en s"
  obtain s1 where 1: "initLogger en ?s0 = (SERVER_OK, s1)"
    using assms by (auto simp: server_init_def split: prod.splits if_splits)
  obtain s2 where 2: "initRouter s1 = (SERVER_OK, s2)" by (simp add: initRouter_def)
  obtain s3 where 3: "initResourceAccessor en s2 = (SERVER_OK, s3)"
    using assms 1 2 by (auto simp: server_init_def split: prod.splits if_splits)
  obtain s4 where 4: "initIOWorker en s3 = (SERVER_OK, s4)"
    using assms 1 2 3 by (auto simp: server_init_def split: prod.splits if_splits)
  obtain s5 where 5: "initListenSocket en s4 = (SERVER_OK, s5)"
    using assms 1 2 3 4 by (auto simp: server_init_def split: prod.splits if_splits)
  have 6: "initListenWorker en s5 = (SERVER_OK, s')"
    using assms 1 2 3 4 5 by (simp add: server_init_def)
  from initLogger_OK [OF 1] initResourceAccessor_frame [OF 3]
    worker_init_loop_OK [OF 4 [unfolded initIOWorker_def]] initListenSocket_OK [OF 5] initListenWorker_OK [OF 6] 2
  show "server_ready s'" and "sv_cfg s' = sv_cfg s" and "sv_running s' = sv_running s"
    and "list_all (new_worker (sint (cf_maxFD (sv_cfg s)))) (sv_ioWorkers s')"
    and "\<exists>lw. sv_listenWorker s' = Some lw \<and> \<not> wk_running lw"
    by (auto simp: server_ready_def initRouter_def setWorker_def mk_Event_def)
qed

lemma run_workers_OK:
  "run_workers en i ws = (SERVER_OK, ws') \<Longrightarrow>
   length ws' = length ws \<and> list_all worker_isRunning ws' \<and> map wk_poller ws' = map wk_poller ws"
proof (induction ws arbitrary: i ws')
  case Nil
  then show ?case by simp
next
  case (Cons w ws)
  obtain e w1 where r: "worker_run (se_alive en i) w = (e, w1)" by fastforce
  obtain e2 ws2 where l: "run_workers en (Suc i) ws = (e2, ws2)" by fastforce
  from Cons.prems r l have "e = SERVER_OK" "e2 = SERVER_OK" "ws' = w1 # ws2"
    by (auto split: if_splits)
  with Cons.IH [of "Suc i" ws2] r l show ?case
    by (auto simp: worker_run_def worker_isRunning_def split: if_splits)
qed

lemma server_start_OK:
  assumes "server_start en s = (SERVER_OK, s')"
  obtains s0 ws lw lw' where "server_init en s = (SERVER_OK, s0)"
    and "run_workers en 0 (sv_ioWorkers s0) = (SERVER_OK, ws)" and "sv_listenWorker s0 = Some lw"
    and "worker_run (se_alive en (length ws)) lw = (SERVER_OK, lw')"
    and "s' = s0\<lparr>sv_ioWorkers := ws, sv_listenWorker := Some lw', sv_running := True\<rparr>"
proof -
  from assms obtain s0 where i: "server_init en s = (SERVER_OK, s0)"
    by (auto simp: server_start_def Let_def split: if_splits prod.splits)
  from server_init_OK(5) [OF i] obtain lw where lw: "sv_listenWorker s0 = Some lw" by blast
  obtain e ws where r: "run_workers en 0 (sv_ioWorkers s0) = (e, ws)" by fastforce
  obtain e2 lw' where r2: "worker_run (se_alive en (length ws)) lw = (e2, lw')" by fastforce
  from assms i r r2 lw have "e = SERVER_OK" "e2 = SERVER_OK"
    "s' = s0\<lparr>sv_ioWorkers := ws, sv_listenWorker := Some lw', sv_running := True\<rparr>"
    by (auto simp: server_start_def Let_def split: if_splits)
  with that i r r2 lw show thesis by blast
qed

lemma server_start_ready:
  assumes "server_start en s = (SERVER_OK, s')"
  shows "server_ready s'" and "sv_running s'" and "sv_cfg s' = sv_cfg s"
    and "list_all worker_isRunning (sv_ioWorkers s')" and "statusChecking s' = Inr SERVER_OK"
    and "list_all (\<lambda>w. ep_events (wk_poller w) = []
          \<and> ep_maxFDS (wk_poller w) = sint (cf_maxFD (sv_cfg s))) (sv_ioWorkers s')"
proof -
  from server_start_OK [OF assms] obtain s0 ws lw lw' where
    s0: "server_init en s = (SERVER_OK, s0)" "run_workers en 0 (sv_ioWorkers s0) = (SERVER_OK, ws)"
      "sv_listenWorker s0 = Some lw" "worker_run (se_alive en (length ws)) lw = (SERVER_OK, lw')"
      "s' = s0\<lparr>sv_ioWorkers := ws, sv_listenWorker := Some lw', sv_running := True\<rparr>" by blast
  note i = server_init_OK [OF s0(1)] and r = run_workers_OK [OF s0(2)]
  have l: "wk_running lw'" "wk_poller lw' = wk_poller lw"
    using s0(4) by (auto simp: worker_run_def split: if_splits)
  from i(4) have "list_all (\<lambda>p. ep_events p = [] \<and> ep_maxFDS p = sint (cf_maxFD (sv_cfg s)))
      (map wk_poller (sv_ioWorkers s0))"
    by (auto simp: list_all_iff new_worker_def)
  with r have "list_all (\<lambda>p. ep_events p = [] \<and> ep_maxFDS p = sint (cf_maxFD (sv_cfg s)))
      (map wk_poller ws)" by simp
  then show "list_all (\<lambda>w. ep_events (wk_poller w) = []
      \<and> ep_maxFDS (wk_poller w) = sint (cf_maxFD (sv_cfg s))) (sv_ioWorkers s')"
    by (simp add: s0(5) list_all_iff)
  from r have "length ws = length (sv_ioWorkers s0)" by simp
  with i(1) s0(3,5) l(2) show "server_ready s'"
    by (simp add: server_ready_def split: option.splits)
  show "sv_running s'" and "sv_cfg s' = sv_cfg s"
    and "list_all worker_isRunning (sv_ioWorkers s')" and "statusChecking s' = Inr SERVER_OK"
    using i r l s0(3,5)
    by (auto simp: server_ready_def statusChecking_def worker_isRunning_def list_all_iff)
qed

text \<open>
  (C21) A successful start leaves a complete, running server: the configured number of IO
  workers and the listening worker run, the listening socket is registered with the latter under
  an event that knows it, the routes, the accessor and the log file are there, and a status check
  reports no failure. A second start is refused and changes nothing.
\<close>

theorem server_start_complete:
  assumes "server_start en s = (SERVER_OK, s')"
  shows "server_ready s' \<and> sv_running s' \<and> list_all worker_isRunning (sv_ioWorkers s')
    \<and> length (sv_ioWorkers s') = unat (cf_workerNum (sv_cfg s))
    \<and> statusChecking s' = Inr SERVER_OK
    \<and> server_start en s' = (SERVER_ALREADY_RUNNING, s')"
  using server_start_ready [OF assms]
  by (simp add: server_ready_def server_start_def server_isRunning_def)

text \<open>An environment in which initialisation cannot fail, and one in which the threads also come up.\<close>

definition granting_init :: "('k, 'w) server_env \<Rightarrow> ServerConfig \<Rightarrow> bool" where
  "granting_init en cfg =
     ((\<forall>k. 3 \<le> fst (epoll_create1 (se_sys en) k)) \<and> granting (se_sys en)
      \<and> (\<forall>k. fst (sys_socket (se_sys en) k) \<noteq> -1)
      \<and> (\<forall>k fd a p. fst (sys_bind (se_sys en) k fd a p) \<noteq> -1)
      \<and> (\<forall>k fd n. fst (sys_listen (se_sys en) k fd n) \<noteq> -1)
      \<and> (\<forall>w. fst (contextInit (se_redis en) w (build_connection (se_port0 en) cfg)) = SERVER_OK)
      \<and> inj (se_addr en) \<and> can_open (se_log en) DEFAULT_LOG)"

definition granting_env :: "('k, 'w) server_env \<Rightarrow> ServerConfig \<Rightarrow> bool" where
  "granting_env en cfg = (granting_init en cfg \<and> (\<forall>i. se_alive en i))"

lemma connect_loop_granted:
  assumes "granting_init en cfg" and "pool_wf (ca_pool c)"
    and "length (pl_conns (ca_pool c)) + n \<le> unat (pl_maxConn (ca_pool c))"
    and "\<forall>j \<ge> i. ConnPtr (se_addr en j) \<notin> fst ` set (pl_conns (ca_pool c))"
  shows "\<exists>c'. connect_loop en cfg i n c = (SERVER_OK, c')"
  using assms(2-)
proof (induction n arbitrary: i c)
  case 0
  then show ?case by simp
next
  case (Suc n)
  obtain e1 conn w1 where x: "contextInit (se_redis en) (ca_world c) (build_connection (se_port0 en) cfg)
      = (e1, conn, w1)" using prod_cases3 by blast
  from assms(1) have "e1 = SERVER_OK" by (metis granting_init_def fst_conv x)
  let ?p = "ConnPtr (se_addr en i)"
  obtain e2 pool where q: "pushConnection ?p (ca_pool c) = (e2, pool)" by fastforce
  have "map_of (pl_conns (ca_pool c)) ?p = None" using Suc.prems(3) by (auto simp: map_of_eq_None_iff)
  with q Suc.prems(2) have e2: "e2 = SERVER_OK" "pl_conns pool = omap_put ?p 0 (pl_conns (ca_pool c))"
    by (auto simp: pushConnection_def)
  note p = pushConnection_OK [OF q [unfolded e2(1)] Suc.prems(1)]
  let ?c = "c\<lparr>ca_world := w1, ca_conn := (ca_conn c)(?p := conn), ca_pool := pool\<rparr>"
  have "\<forall>j \<ge> Suc i. ConnPtr (se_addr en j) \<notin> fst ` set (pl_conns pool)"
  proof (intro allI impI)
    fix j assume j: "Suc i \<le> j"
    with assms(1) have "se_addr en j \<noteq> se_addr en i" by (auto simp: granting_init_def inj_eq)
    with j Suc.prems(3) e2(2) show "ConnPtr (se_addr en j) \<notin> fst ` set (pl_conns pool)" by simp
  qed
  with Suc.IH [of ?c "Suc i"] p Suc.prems(2) have "\<exists>c'. connect_loop en cfg (Suc i) n ?c = (SERVER_OK, c')"
    by simp
  with x q \<open>e1 = SERVER_OK\<close> e2(1) show ?case by (simp add: Let_def)
qed

lemma initResourceAccessor_granted:
  assumes "granting_init en (sv_cfg s)"
  shows "\<exists>s'. initResourceAccessor en s = (SERVER_OK, s')"
proof -
  let ?c = "\<lparr>ca_pool = mk_RedisConnectionPool (cf_maxConn (sv_cfg s)) (cf_maxRef (sv_cfg s)),
      ca_conn = (\<lambda>p. mk_RedisConnection (se_port0 en)), ca_world = sv_world s\<rparr>"
  from connect_loop_granted [OF assms, of ?c "unat (cf_maxConn (sv_cfg s))" 0] obtain c' where
    "connect_loop en (sv_cfg s) 0 (unat (cf_maxConn (sv_cfg s))) ?c = (SERVER_OK, c')"
    using pool_wf_mk by (auto simp: mk_RedisConnectionPool_def)
  then show ?thesis by (simp add: initResourceAccessor_def Let_def)
qed

lemma mk_Epoll_granted:
  assumes "granting_init en cfg"
  shows "\<exists>ep k'. mk_Epoll (se_sys en) k n = (SERVER_OK, ep, k') \<and> validEpollFD ep"
proof -
  from assms have "3 \<le> fst (epoll_create1 (se_sys en) k)" by (simp add: granting_init_def)
  then show ?thesis by (auto simp: mk_Epoll_def validEpollFD_def split: prod.split)
qed

lemma worker_init_loop_granted:
  assumes "granting_init en cfg" and "list_all (validEpollFD \<circ> wk_poller) (sv_ioWorkers s)"
  shows "\<exists>s'. worker_init_loop en n s = (SERVER_OK, s')
    \<and> list_all (validEpollFD \<circ> wk_poller) (sv_ioWorkers s')"
  using assms(2)
proof (induction n arbitrary: s)
  case 0
  then show ?case by simp
next
  case (Suc n)
  from mk_Epoll_granted [OF assms(1)] obtain ep k' where
    m: "mk_Epoll (se_sys en) (sv_kernel s) (sint (cf_maxFD (sv_cfg s))) = (SERVER_OK, ep, k')"
      "validEpollFD ep" by blast
  with Suc.IH [of "s\<lparr>sv_kernel := k', sv_ioWorkers := sv_ioWorkers s @ [mk_Worker ep]\<rparr>"] Suc.prems
  show ?case by (simp add: mk_Worker_def)
qed

lemma initListenSocket_granted:
  assumes "granting_init en cfg"
  shows "\<exists>s'. initListenSocket en s = (SERVER_OK, s')"
  using assms by (auto simp: initListenSocket_def granting_init_def granting_def Let_def split: prod.splits)
    (metis fst_conv)+

lemma initListenWorker_granted:
  assumes "granting_init en (sv_cfg s)" and "0 < sint (cf_maxFD (sv_cfg s))"
  shows "\<exists>s'. initListenWorker en s = (SERVER_OK, s')"
proof -
  from mk_Epoll_granted [OF assms(1)] obtain ep k' where
    m: "mk_Epoll (se_sys en) (sv_kernel s) (sint (cf_maxFD (sv_cfg s))) = (SERVER_OK, ep, k')"
      "validEpollFD ep" by blast
  from m(1) have ep: "ep_events ep = []" "ep_maxFDS ep = sint (cf_maxFD (sv_cfg s))"
    by (auto simp: mk_Epoll_def split: prod.splits)
  have "fst (worker_addEvent (se_sys en) k' heap p e (mk_Worker ep)) = SERVER_OK" for heap p e
    using assms ep m(2)
    by (auto simp: worker_addEvent_def epollAddEvent_def mk_Worker_def activeFDS_def maxFDS_def
        granting_init_def granting_def Let_def split: prod.splits) (metis fst_conv)+
  then show ?thesis using m(1) by (auto simp: initListenWorker_def Let_def split: prod.splits) (metis fst_conv)+
qed

lemma initLogger_granted:
  assumes "granting_init en cfg" and "lg_isRunning (sv_logger s)"
  shows "\<exists>l. initLogger en s = (SERVER_OK, s\<lparr>sv_logger := l\<rparr>)"
proof (cases "lg_logFileOn (sv_logger s)")
  case True
  with assms(2) show ?thesis by (intro exI [of _ "sv_logger s"]) (simp add: initLogger_def)
next
  case False
  with assms show ?thesis
    by (auto simp: initLogger_def granting_init_def setLogFile_def lg_logFileOn_def of_is_open_def
        of_open_def Let_def)
qed

lemma run_workers_granted:
  assumes "\<And>i. se_alive en i" and "list_all (\<lambda>w. \<not> wk_running w) ws"
  shows "run_workers en i ws = (SERVER_OK, map (\<lambda>w. w\<lparr>wk_running := True\<rparr>) ws)"
  using assms(2) by (induction ws arbitrary: i) (simp_all add: worker_run_def assms(1))

lemma server_init_granted:
  assumes "granting_init en (sv_cfg s)" and "lg_isRunning (sv_logger s)" and "0 < sint (cf_maxFD (sv_cfg s))"
  shows "\<exists>s'. server_init en s = (SERVER_OK, s') \<and> list_all (validEpollFD \<circ> wk_poller) (sv_ioWorkers s')"
proof -
  let ?s0 = "server_clean en s"
  from initLogger_granted [OF assms(1), of ?s0] assms(2) obtain s1 where
    1: "initLogger en ?s0 = (SERVER_OK, s1)" "sv_cfg s1 = sv_cfg s" "sv_ioWorkers s1 = []" by auto
  let ?s2 = "s1\<lparr>sv_router := Some mk_Router\<rparr>"
  have 2: "initRouter s1 = (SERVER_OK, ?s2)" by (simp add: initRouter_def)
  from initResourceAccessor_granted [of en ?s2] assms(1) 1(2) obtain s3 where
    3: "initResourceAccessor en ?s2 = (SERVER_OK, s3)" by auto
  from initResourceAccessor_frame [OF 3] 1 have c3: "sv_cfg s3 = sv_cfg s" "sv_ioWorkers s3 = []" by auto
  from worker_init_loop_granted [OF assms(1), of s3] c3 obtain s4 where
    4: "initIOWorker en s3 = (SERVER_OK, s4)" "list_all (validEpollFD \<circ> wk_poller) (sv_ioWorkers s4)"
    by (auto simp: initIOWorker_def)
  from worker_init_loop_OK [OF 4(1) [unfolded initIOWorker_def]] c3 have c4: "sv_cfg s4 = sv_cfg s" by auto
  from initListenSocket_granted [OF assms(1), of s4] obtain s5 where 5: "initListenSocket en s4 = (SERVER_OK, s5)"
    by blast
  from initListenSocket_OK [OF 5] c4 have c5: "sv_cfg s5 = sv_cfg s" "sv_ioWorkers s5 = sv_ioWorkers s4" by auto
  from initListenWorker_granted [of en s5] assms(1,3) c5 obtain s6 where
    6: "initListenWorker en s5 = (SERVER_OK, s6)" by auto
  from initListenWorker_OK [OF 6] c5 have "sv_ioWorkers s6 = sv_ioWorkers s4" by auto
  with 1(1) 2 3 4 5 6 show ?thesis by (simp add: server_init_def)
qed

lemma server_start_granted:
  assumes "granting_env en (sv_cfg s)" and "\<not> sv_running s" and "lg_isRunning (sv_logger s)"
    and "0 < sint (cf_maxFD (sv_cfg s))"
  obtains s' where "server_start en s = (SERVER_OK, s')"
    and "list_all (validEpollFD \<circ> wk_poller) (sv_ioWorkers s')"
proof -
  from server_init_granted [OF _ assms(3,4)] assms(1) obtain s0 where
    i: "server_init en s = (SERVER_OK, s0)" "list_all (validEpollFD \<circ> wk_poller) (sv_ioWorkers s0)"
    by (auto simp: granting_env_def)
  have a: "\<And>i. se_alive en i" using assms(1) by (simp add: granting_env_def)
  have "list_all (\<lambda>w. \<not> wk_running w) (sv_ioWorkers s0)"
    using server_init_OK(4) [OF i(1)] by (auto simp: list_all_iff new_worker_def)
  note r = run_workers_granted [OF a this, of 0]
  from server_init_OK(5) [OF i(1)] obtain lw where lw: "sv_listenWorker s0 = Some lw" "\<not> wk_running lw" by blast
  let ?s' = "s0\<lparr>sv_ioWorkers := map (\<lambda>w. w\<lparr>wk_running := True\<rparr>) (sv_ioWorkers s0),
     sv_listenWorker := Some (lw\<lparr>wk_running := True\<rparr>), sv_running := True\<rparr>"
  have "server_start en s = (SERVER_OK, ?s')"
    using assms(2) i(1) r lw a by (simp add: server_start_def server_isRunning_def worker_run_def Let_def)
  moreover have "list_all (validEpollFD \<circ> wk_poller) (sv_ioWorkers ?s')"
    using i(2) by (simp add: list_all_iff)
  ultimately show thesis using that by blast
qed

text \<open>An environment of the kind, for the concrete runs: the in-memory Redis, a kernel with a queue.\<close>

definition quiet_env :: "(nat list, (string \<times> string) list) server_env" where
  "quiet_env = \<lparr>se_sys = queue_syscalls, se_redis = mem_hiredis,
     se_log = \<lparr>can_open = (\<lambda>p. True), write_ok = (\<lambda>n. True)\<rparr>, se_addr = id, se_port0 = 0,
     se_alive = (\<lambda>i. True)\<rparr>"

definition quiet_server :: "(nat list, (string \<times> string) list) Server" where
  "quiet_server = mk_Server None defaultCfg [] [] (mk_AsyncLogger (\<lambda>p. [])) (\<lambda>e. mk_Event 0 0)"

lemma quiet_server_simps [simp]:
  "sv_cfg quiet_server = defaultCfg" "\<not> sv_running quiet_server" "sv_world quiet_server = []"
  "lg_isRunning (sv_logger quiet_server)" "sv_listenFD quiet_server = -1"
  "sv_kernel quiet_server = []" "server_world quiet_server = []"
  by (simp_all add: server_world_def quiet_server_def mk_Server_def mk_AsyncLogger_def lg_isRunning_def Let_def)

lemma quiet_env_granting_init: "granting_init (quiet_env\<lparr>se_alive := alive\<rparr>) cfg"
proof -
  have "fst (contextInit mem_hiredis w c) = SERVER_OK" if "rc_context c = None" for w c
    using that by (simp add: contextInit_def mem_hiredis_def c_str_def Let_def)
  then show ?thesis using granting_queue
    by (simp add: granting_init_def quiet_env_def queue_syscalls_def build_connection_def cb_build_def
        cb_setPasswd_def conn_setPasswd_def cb_setLockTimeout_def conn_setLockTimeout_def
        cb_setReqTimeout_def conn_setReqTimeout_def cb_setPort_def conn_setPort_def cb_setIP_def
        conn_setIP_def mk_RedisConnectionBuilder_def mk_RedisConnection_def)
qed

lemma quiet_env_granting: "granting_env quiet_env cfg"
  using quiet_env_granting_init [of "\<lambda>i. True" cfg] by (simp add: granting_env_def quiet_env_def)

lemma defaultCfg_maxFD: "sint (cf_maxFD defaultCfg) = 100000"
  by (simp add: defaultCfg_def)

lemma quiet_start:
  obtains s' where "server_start quiet_env quiet_server = (SERVER_OK, s')"
    and "list_all (validEpollFD \<circ> wk_poller) (sv_ioWorkers s')"
  using server_start_granted [of quiet_env quiet_server] quiet_env_granting defaultCfg_maxFD by auto

theorem server_start_complete_witness:
  "\<exists>s'. server_start quiet_env quiet_server = (SERVER_OK, s') \<and> length (sv_ioWorkers s') = 5
     \<and> server_start quiet_env s' = (SERVER_ALREADY_RUNNING, s')"
proof -
  obtain s' where s': "server_start quiet_env quiet_server = (SERVER_OK, s')" by (rule quiet_start)
  from server_start_complete [OF s'] s' show ?thesis by (simp add: defaultCfg_def)
qed

text \<open>
  Starting succeeds when nothing fails: with a kernel that grants every call, a Redis server
  that accepts the connections, threads that come up and a log file that can be opened, a stopped
  server starts, and every worker has a usable poller.
\<close>

theorem server_start_succeeds:
  assumes "granting_env en (sv_cfg s)" and "\<not> sv_running s" and "lg_isRunning (sv_logger s)"
    and "0 < sint (cf_maxFD (sv_cfg s))"
  shows "\<exists>s'. server_start en s = (SERVER_OK, s') \<and> sv_running s'
    \<and> list_all (validEpollFD \<circ> wk_poller) (sv_ioWorkers s')"
  using server_start_granted [OF assms] server_start_ready(2) by metis

theorem server_start_succeeds_witness:
  "\<exists>s'. server_start quiet_env quiet_server = (SERVER_OK, s') \<and> sv_running s'"
  using server_start_succeeds [of quiet_env quiet_server] quiet_env_granting defaultCfg_maxFD by auto

section \<open>A start that fails\<close>

lemma server_init_running:
  assumes "server_init en s = (e, s')"
  shows "sv_running s' = sv_running s"
proof -
  have l: "sv_running (snd (initLogger en s)) = sv_running s" for s
    by (simp add: initLogger_def split: prod.split)
  have a: "sv_running (snd (initResourceAccessor en s)) = sv_running s" for s
    by (simp add: initResourceAccessor_def Let_def split: prod.split)
  have w: "sv_running (snd (worker_init_loop en n s)) = sv_running s" for n s
    by (induction n arbitrary: s) (simp_all split: prod.split)
  have k: "sv_running (snd (initListenSocket en s)) = sv_running s" for s
    by (simp add: initListenSocket_def Let_def split: prod.split)
  have m: "sv_running (snd (initListenWorker en s)) = sv_running s" for s
    by (simp add: initListenWorker_def Let_def split: prod.split)
  have "sv_running (snd (server_init en s)) = sv_running s"
    by (simp add: server_init_def case_prod_beta l a w k m initRouter_def initIOWorker_def)
  with assms show ?thesis by simp
qed

text \<open>
  A start that fails leaves a stopped server, whatever failed. When the initialisation
  succeeded and a thread did not come up, everything made so far is destroyed again.
\<close>

theorem server_start_failed:
  assumes "server_start en s = (e, s')" and "e \<noteq> SERVER_OK" and "\<not> sv_running s"
  shows "\<not> sv_running s'
    \<and> (fst (server_init en s) = SERVER_OK \<longrightarrow>
        sv_ioWorkers s' = [] \<and> sv_listenWorker s' = None \<and> sv_router s' = None \<and> sv_accessor s' = None)"
proof (cases "fst (server_init en s) = SERVER_OK")
  case False
  with assms have "server_init en s = (e, s')"
    by (auto simp: server_start_def server_isRunning_def split: prod.splits)
  with server_init_running [OF this] assms(3) False show ?thesis by simp
next
  case True
  then obtain s0 where i: "server_init en s = (SERVER_OK, s0)" by (cases "server_init en s") simp
  obtain e1 ws where r: "run_workers en 0 (sv_ioWorkers s0) = (e1, ws)" by fastforce
  obtain e2 lw where r2: "worker_run (se_alive en (length ws)) (the (sv_listenWorker s0)) = (e2, lw)"
    by fastforce
  from assms i r r2 obtain s1 where "s' = server_clean en (server_stop s1)"
    by (auto simp: server_start_def server_isRunning_def Let_def split: if_splits)
  then show ?thesis by (simp add: server_stop_def)
qed

theorem server_start_failed_witness:
  "\<exists>s'. server_start (quiet_env\<lparr>se_alive := (\<lambda>i. False)\<rparr>) quiet_server = (WORKER_START_FAILED, s')
     \<and> \<not> sv_running s' \<and> sv_ioWorkers s' = []"
proof -
  let ?en = "quiet_env\<lparr>se_alive := (\<lambda>i. False)\<rparr>"
  obtain s0 where i: "server_init ?en quiet_server = (SERVER_OK, s0)"
    using server_init_granted [of ?en quiet_server] quiet_env_granting_init defaultCfg_maxFD by auto
  have "length (sv_ioWorkers s0) = 5" "list_all (new_worker 100000) (sv_ioWorkers s0)"
    using server_init_OK [OF i] by (auto simp: server_ready_def defaultCfg_def)
  then obtain w ws where "sv_ioWorkers s0 = w # ws" "\<not> wk_running w"
    by (cases "sv_ioWorkers s0") (auto simp: new_worker_def)
  with i obtain s' where s': "server_start ?en quiet_server = (WORKER_START_FAILED, s')"
    by (simp add: server_start_def server_isRunning_def worker_run_def Let_def)
  from server_start_failed [OF s'] i s' show ?thesis by simp
qed

section \<open>The cache of a started server\<close>

lemma server_init_accessor:
  assumes "server_init en s = (SERVER_OK, s')"
  obtains s2 s3 where "initResourceAccessor en s2 = (SERVER_OK, s3)" and "sv_cfg s2 = sv_cfg s"
    and "sv_world s2 = destroy_accessor (se_redis en) s" and "sv_accessor s' = sv_accessor s3"
proof -
  obtain s1 where 1: "initLogger en (server_clean en s) = (SERVER_OK, s1)"
    using assms by (auto simp: server_init_def split: prod.splits if_splits)
  let ?s2 = "s1\<lparr>sv_router := Some mk_Router\<rparr>"
  obtain s3 where 3: "initResourceAccessor en ?s2 = (SERVER_OK, s3)"
    using assms 1 by (auto simp: server_init_def initRouter_def split: prod.splits if_splits)
  obtain s4 where 4: "initIOWorker en s3 = (SERVER_OK, s4)"
    using assms 1 3 by (auto simp: server_init_def initRouter_def split: prod.splits if_splits)
  obtain s5 where 5: "initListenSocket en s4 = (SERVER_OK, s5)"
    using assms 1 3 4 by (auto simp: server_init_def initRouter_def split: prod.splits if_splits)
  have 6: "initListenWorker en s5 = (SERVER_OK, s')"
    using assms 1 3 4 5 by (simp add: server_init_def initRouter_def)
  from worker_init_loop_OK [OF 4 [unfolded initIOWorker_def]] initListenSocket_OK [OF 5]
    initListenWorker_OK [OF 6] have "sv_accessor s' = sv_accessor s3" by auto
  with that [OF 3] initLogger_OK [OF 1] show thesis by auto
qed

lemma started_accessor:
  assumes "redis_startup (se_redis en) data" and "server_start en s = (SERVER_OK, s')"
    and "cf_maxRef (sv_cfg s) \<noteq> -1"
    and "\<And>k v. plain_key k \<Longrightarrow> data (server_world s) k = Some v \<Longrightarrow> files k = Some v"
  shows "\<exists>acc. sv_accessor s' = Some acc \<and> init_accessor_coherent data files (sv_cfg s) acc"
proof -
  obtain s0 where s0: "server_init en s = (SERVER_OK, s0)" "sv_accessor s' = sv_accessor s0"
    by (rule server_start_OK [OF assms(2)]) simp
  from server_init_accessor [OF s0(1)] obtain s2 s3 where
    i: "initResourceAccessor en s2 = (SERVER_OK, s3)" "sv_cfg s2 = sv_cfg s"
      "sv_world s2 = destroy_accessor (se_redis en) s" "sv_accessor s0 = sv_accessor s3" by blast
  have "files key = Some v" if "plain_key key" "data (sv_world s2) key = Some v" for key v
    using that assms(4) redis_startup.destroy_accessor_data [OF assms(1), of s] i(3)
    by (metis domI map_le_def)
  with initResourceAccessor_OK [OF assms(1) i(1), of files] assms(3) i s0(2) show ?thesis by simp
qed

text \<open>
  A started server has the accessor its configuration asks for. With the cache enabled, all
  the configured connections are in the pool, connected and unused, and as long as the entries
  already in Redis are the current files, the cache starts out coherent.
\<close>

theorem server_start_accessor:
  assumes "redis_startup (se_redis en) data" and "server_start en s = (SERVER_OK, s')"
    and "cf_maxRef (sv_cfg s) \<noteq> -1"
    and "\<And>k v. plain_key k \<Longrightarrow> data (server_world s) k = Some v \<Longrightarrow> files k = Some v"
  shows "\<exists>acc. sv_accessor s' = Some acc \<and> init_accessor_coherent data files (sv_cfg s) acc"
  using assms by (rule started_accessor)

theorem server_start_accessor_witness:
  "\<exists>s' c. server_start quiet_env quiet_server = (SERVER_OK, s')
     \<and> sv_accessor s' = Some (CachedResourceAccessor (Some c)) \<and> length (pl_conns (ca_pool c)) = 8"
proof -
  obtain s' where s': "server_start quiet_env quiet_server = (SERVER_OK, s')" by (rule quiet_start)
  have r: "redis_startup (se_redis quiet_env) map_of"
    by (simp add: quiet_env_def mem.redis_startup_axioms)
  have "cf_maxRef (sv_cfg quiet_server) \<noteq> -1" by (simp add: defaultCfg_def)
  from server_start_accessor [OF r s' this, of "\<lambda>p. None"] obtain acc where
    "sv_accessor s' = Some acc" "init_accessor_coherent map_of (\<lambda>p. None) defaultCfg acc" by auto
  with s' show ?thesis
    by (auto simp: init_accessor_coherent_def defaultCfg_def
        split: server_accessor.splits option.splits)
qed

section \<open>The listening socket after a failed start\<close>

definition bind_errors :: "server_err_t set" where
  "bind_errors = {SOCKET_BIND_FAILED, SOCKET_LISTEN_FAILED}"

lemma contextInit_not_bind: "contextInit hi w c = (e, c', w') \<Longrightarrow> e \<notin> bind_errors"
  by (auto simp: contextInit_def bind_errors_def Let_def split: if_splits prod.splits option.splits redisReply.splits)

lemma connect_loop_not_bind: "connect_loop en cfg i n c = (e, c') \<Longrightarrow> e \<notin> bind_errors"
proof (induction n arbitrary: i c)
  case 0
  then show ?case by (auto simp: bind_errors_def)
next
  case (Suc n)
  obtain e1 conn w1 where x: "contextInit (se_redis en) (ca_world c) (build_connection (se_port0 en) cfg)
      = (e1, conn, w1)" using prod_cases3 by blast
  from Suc contextInit_not_bind [OF x] x show ?case
    by (auto simp: pushConnection_def bind_errors_def Let_def split: if_splits prod.splits)
qed

lemma worker_init_loop_not_bind: "worker_init_loop en n s = (e, s') \<Longrightarrow> e \<notin> bind_errors"
  by (induction n arbitrary: s) (auto simp: mk_Epoll_def bind_errors_def split: prod.splits if_splits)

lemma initListenWorker_not_bind: "initListenWorker en s = (e, s') \<Longrightarrow> e \<notin> bind_errors"
  by (auto simp: initListenWorker_def mk_Epoll_def worker_addEvent_def epollAddEvent_def bind_errors_def Let_def
      split: prod.splits if_splits)

lemma run_workers_not_bind: "run_workers en i ws = (e, ws') \<Longrightarrow> e \<notin> bind_errors"
  by (induction ws arbitrary: i ws')
     (auto simp: worker_run_def bind_errors_def split: prod.splits if_splits)

lemma server_init_bind_failed:
  assumes "server_init en s = (e, s')" and "e \<in> bind_errors"
  shows "sv_listenFD s' \<noteq> -1" and "sv_listenWorker s' = None"
    and "list_all (new_worker (sint (cf_maxFD (sv_cfg s)))) (sv_ioWorkers s')"
proof -
  obtain s1 where 1: "initLogger en (server_clean en s) = (SERVER_OK, s1)"
    using assms by (auto simp: server_init_def initLogger_def setLogFile_def bind_errors_def Let_def
        split: prod.splits if_splits)
  let ?s2 = "s1\<lparr>sv_router := Some mk_Router\<rparr>"
  obtain e3 s3 where 3: "initResourceAccessor en ?s2 = (e3, s3)" by fastforce
  have "e3 \<notin> bind_errors"
    using 3
    by (auto simp: initResourceAccessor_def Let_def dest: connect_loop_not_bind split: prod.splits if_splits)
       (simp_all add: bind_errors_def)
  with assms 1 3 have e3: "e3 = SERVER_OK" by (auto simp: server_init_def initRouter_def split: if_splits)
  obtain e4 s4 where 4: "initIOWorker en s3 = (e4, s4)" by fastforce
  then have "e4 \<notin> bind_errors" by (auto simp: initIOWorker_def dest: worker_init_loop_not_bind)
  with assms 1 3 e3 4 have e4: "e4 = SERVER_OK" by (auto simp: server_init_def initRouter_def split: if_splits)
  obtain e5 s5 where 5: "initListenSocket en s4 = (e5, s5)" by fastforce
  with assms 1 3 e3 4 e4 initListenWorker_not_bind have e5: "e5 = e" "s5 = s'"
    by (auto simp: server_init_def initRouter_def split: if_splits)
  have f: "\<exists>fd k. s' = s4\<lparr>sv_listenFD := fd, sv_kernel := k\<rparr> \<and> fd \<noteq> -1"
    using 5 e5 assms(2) by (auto simp: initListenSocket_def bind_errors_def Let_def split: prod.splits if_splits)
  from initLogger_OK [OF 1] initResourceAccessor_frame [OF 3 [unfolded e3]]
    worker_init_loop_OK [OF 4 [unfolded e4 initIOWorker_def]] f
  show "sv_listenFD s' \<noteq> -1" and "sv_listenWorker s' = None"
    and "list_all (new_worker (sint (cf_maxFD (sv_cfg s)))) (sv_ioWorkers s')" by auto
qed

lemma destroy_new_workers:
  "list_all (new_worker n) ws \<Longrightarrow>
   foldl (\<lambda>k w. destroy_Worker sys heap w k) k (map stop_worker ws)
     = foldl (\<lambda>k w. sys_close sys k (ep_epfd (wk_poller w))) k ws"
  by (induction ws arbitrary: k)
     (simp_all add: new_worker_def destroy_Worker_def destroy_Epoll_def stop_worker_def worker_isRunning_def)

text \<open>
  (C38) A failed bind leaks the socket: when \<open>start\<close> fails because the address is taken or
  \<open>listen\<close> fails, the server keeps the open descriptor, and destroying it closes the descriptors of
  the pollers only. (The test of \<open>Server::clean\<close> closes the descriptor only when it is \<open>-1\<close>.)
\<close>

theorem failed_bind_leaks_socket:
  assumes "server_start en s = (e, s')" and "e = SOCKET_BIND_FAILED \<or> e = SOCKET_LISTEN_FAILED"
  shows "sv_listenFD s' \<noteq> -1
    \<and> sv_kernel (destroy_Server en s')
      = foldl (\<lambda>k w. sys_close (se_sys en) k (ep_epfd (wk_poller w))) (sv_kernel s') (sv_ioWorkers s')"
proof -
  have e: "e \<in> bind_errors" using assms(2) by (auto simp: bind_errors_def)
  have "server_init en s = (e, s')"
  proof (cases "fst (server_init en s) = SERVER_OK")
    case True
    then obtain s0 where i: "server_init en s = (SERVER_OK, s0)" by (cases "server_init en s") simp
    obtain e1 ws where r: "run_workers en 0 (sv_ioWorkers s0) = (e1, ws)" by fastforce
    with assms(1) i run_workers_not_bind [OF r] e show ?thesis
      by (auto simp: server_start_def worker_run_def bind_errors_def Let_def split: if_splits prod.splits)
  next
    case False
    with assms e show ?thesis
      by (auto simp: server_start_def bind_errors_def split: prod.splits if_splits)
  qed
  note b = server_init_bind_failed [OF this e]
  with destroy_new_workers [OF b(3)] show ?thesis
    by (simp add: destroy_Server_def server_clean_def server_stop_def Let_def)
qed


text \<open>A log of the closed descriptors makes the leak visible: the kernel state of this run.\<close>

definition closing_env :: "(nat list, (string \<times> string) list) server_env" where
  "closing_env = quiet_env\<lparr>se_sys := queue_syscalls\<lparr>sys_bind := (\<lambda>k fd a p. (-1, k)),
     sys_close := (\<lambda>k fd. k @ [nat fd])\<rparr>\<rparr>"

definition plain_server :: "(nat list, (string \<times> string) list) Server" where
  "plain_server = quiet_server\<lparr>sv_cfg := defaultCfg\<lparr>cf_redisCacheEnable := False, cf_workerNum := 2\<rparr>\<rparr>"

theorem failed_bind_leaks_socket_witness:
  "\<exists>s'. server_start closing_env plain_server = (SOCKET_BIND_FAILED, s') \<and> sv_listenFD s' = 4
     \<and> sv_kernel (destroy_Server closing_env s') = sv_kernel s' @ [3, 3]"
proof -
  have two: "worker_init_loop en 2 s = worker_init_loop en (Suc (Suc 0)) s"
    for en :: "(nat list, (string \<times> string) list) server_env" and s
    by (simp only: numeral_2_eq_2)
  obtain s' where s': "server_start closing_env plain_server = (SOCKET_BIND_FAILED, s')" "sv_listenFD s' = 4"
    "map (ep_epfd \<circ> wk_poller) (sv_ioWorkers s') = [3, 3]"
    by (simp add: closing_env_def plain_server_def quiet_env_def quiet_server_def mk_Server_def defaultCfg_def
        server_start_def server_isRunning_def server_init_def server_clean_def initLogger_def
        mk_AsyncLogger_def lg_isRunning_def lg_logFileOn_def setLogFile_def of_is_open_def of_open_def
        initRouter_def initResourceAccessor_def initIOWorker_def initListenSocket_def queue_syscalls_def
        mk_Epoll_def mk_Worker_def two Let_def)
  then obtain v w where "sv_ioWorkers s' = [v, w]" "ep_epfd (wk_poller v) = 3" "ep_epfd (wk_poller w) = 3"
    by (cases "sv_ioWorkers s'" rule: list.exhaust) (auto simp: Cons_eq_map_conv)
  with failed_bind_leaks_socket [OF s'(1)] s' show ?thesis
    by (simp add: closing_env_def)
qed

section \<open>The main thread\<close>

text \<open>What the main thread sees after \<open>m\<close> more sleeps.\<close>

fun observed ::
  "(nat \<Rightarrow> ('k, 'w) Server \<Rightarrow> ('k, 'w) Server) \<Rightarrow> nat \<Rightarrow> ('k, 'w) Server \<Rightarrow> nat \<Rightarrow> ('k, 'w) Server" where
  "observed sleep n s 0 = s"
| "observed sleep n s (Suc m) = observed sleep (Suc n) (sleep n s) m"

lemma main_loop_Some:
  assumes "main_loop sleep n s = Some r"
  shows "\<exists>m. statusChecking (observed sleep n s m) \<noteq> Inr SERVER_OK"
proof (rule main_loop.raw_induct
    [where P = "\<lambda>sleep n s r. \<exists>m. statusChecking (observed sleep n s m) \<noteq> Inr SERVER_OK", OF _ assms])
  fix f sleep n s r
  assume IH: "\<And>sleep n s r. f sleep n s = Some r \<Longrightarrow>
      \<exists>m. statusChecking (observed sleep n s m) \<noteq> Inr SERVER_OK"
    and eq: "(case statusChecking s of
        Inl x \<Rightarrow> Some (Inl x)
      | Inr error \<Rightarrow> if error = SERVER_OK then f sleep (Suc n) (sleep n s) else Some (Inr s)) = Some r"
  show "\<exists>m. statusChecking (observed sleep n s m) \<noteq> Inr SERVER_OK"
  proof (cases "statusChecking s = Inr SERVER_OK")
    case True
    with eq have "f sleep (Suc n) (sleep n s) = Some r" by simp
    from IH [OF this] obtain m where "statusChecking (observed sleep n s (Suc m)) \<noteq> Inr SERVER_OK" by auto
    then show ?thesis by blast
  next
    case False
    then show ?thesis by (intro exI [of _ 0]) simp
  qed
qed

lemma main_loop_first:
  assumes "statusChecking (observed sleep n s m) = Inr e" and "e \<noteq> SERVER_OK"
    and "\<forall>j < m. statusChecking (observed sleep n s j) = Inr SERVER_OK"
  shows "main_loop sleep n s = Some (Inr (observed sleep n s m))"
  using assms
proof (induction m arbitrary: n s)
  case 0
  then show ?case by (simp add: main_loop.simps)
next
  case (Suc m)
  have "statusChecking s = Inr SERVER_OK" using Suc.prems(3) by force
  moreover have "main_loop sleep (Suc n) (sleep n s) = Some (Inr (observed sleep (Suc n) (sleep n s) m))"
    using Suc.prems by (intro Suc.IH) force+
  ultimately show ?case by (simp add: main_loop.simps [of sleep n s])
qed

text \<open>
  (C29) After a successful start the program runs exactly as long as all workers do: it never ends
  while every status check passes, and the first check that reports a dead worker ends it with
  exit code 0 and destroys the server.
\<close>

theorem main_runs_until_dump:
  assumes "server_start en s = (SERVER_OK, s1)"
  shows "((\<forall>m. statusChecking (observed sleep 0 s1 m) = Inr SERVER_OK) \<longrightarrow> main_prog en sleep s = None)
    \<and> (\<forall>m e. statusChecking (observed sleep 0 s1 m) = Inr e \<and> e \<noteq> SERVER_OK
          \<and> (\<forall>j < m. statusChecking (observed sleep 0 s1 j) = Inr SERVER_OK) \<longrightarrow>
        main_prog en sleep s = Some (Inr (0, destroy_Server en (observed sleep 0 s1 m))))"
proof (intro conjI allI impI)
  assume "\<forall>m. statusChecking (observed sleep 0 s1 m) = Inr SERVER_OK"
  with main_loop_Some have "main_loop sleep 0 s1 = None" by (metis option.exhaust)
  with assms show "main_prog en sleep s = None" by (simp add: main_prog_def)
next
  fix m e
  assume "statusChecking (observed sleep 0 s1 m) = Inr e \<and> e \<noteq> SERVER_OK
    \<and> (\<forall>j < m. statusChecking (observed sleep 0 s1 j) = Inr SERVER_OK)"
  with main_loop_first [of sleep 0 s1 m e] assms
  show "main_prog en sleep s = Some (Inr (0, destroy_Server en (observed sleep 0 s1 m)))"
    by (simp add: main_prog_def)
qed

lemma stopped_listener:
  assumes "sv_listenWorker s = Some w"
  shows "sv_listenWorker (server_stop s) = Some (stop_worker w)" and "\<not> worker_isRunning (stop_worker w)"
  using assms by (simp_all add: server_stop_def stop_worker_def worker_stop_def worker_isRunning_def)

theorem main_runs_until_dump_witness:
  "main_prog quiet_env (\<lambda>n s. s) quiet_server = None
   \<and> (\<exists>s'. main_prog quiet_env (\<lambda>n. server_stop) quiet_server = Some (Inr (0, s')))"
proof -
  obtain s1 where s1: "server_start quiet_env quiet_server = (SERVER_OK, s1)" by (rule quiet_start)
  note ok = server_start_ready(5) [OF s1]
  have "observed (\<lambda>n s. s) n s1 m = s1" for n m by (induction m arbitrary: n) simp_all
  with ok have "\<forall>m. statusChecking (observed (\<lambda>n s. s) 0 s1 m) = Inr SERVER_OK" by simp
  with main_runs_until_dump [OF s1, of "\<lambda>n s. s"] have "main_prog quiet_env (\<lambda>n s. s) quiet_server = None"
    by blast
  moreover from server_start_ready(1) [OF s1] obtain lw where lw: "sv_listenWorker s1 = Some lw"
    by (cases "sv_listenWorker s1") (simp_all add: server_ready_def)
  have "statusChecking (observed (\<lambda>n. server_stop) 0 s1 (Suc 0)) = Inr LISTEN_WORKER_DUMP"
    by (simp add: statusChecking_def stopped_listener [OF lw])
  moreover have "\<forall>j < Suc 0. statusChecking (observed (\<lambda>n. server_stop) 0 s1 j) = Inr SERVER_OK"
    using ok by simp
  ultimately show ?thesis
    using main_runs_until_dump [OF s1, of "\<lambda>n. server_stop"] by blast
qed

section \<open>The first clients of a started server\<close>

text \<open>The state the listening handler starts from: the workers of the server, in their order.\<close>

definition listen_state_of :: "('k, 'w) Server \<Rightarrow> 'k listen_state" where
  "listen_state_of s = \<lparr>li_kernel = sv_kernel s, li_heap = sv_heap s, li_next = sv_next s,
     li_workers = (\<lambda>p. if p < length (sv_ioWorkers s) then Some (sv_ioWorkers s ! p) else None),
     li_ioWorkers = mk_ListenEventHandler [0..<length (sv_ioWorkers s)]\<rparr>"

lemma started_workers_ready:
  assumes "server_start en s = (SERVER_OK, s')" and "list_all (validEpollFD \<circ> wk_poller) (sv_ioWorkers s')"
    and "0 < sint (cf_maxFD (sv_cfg s))" and "p < length (sv_ioWorkers s')"
  shows "ready_worker (listen_state_of s') p"
  using server_start_ready(4,6) [OF assms(1)] assms(2-4)
  by (simp add: list_all_length ready_worker_def listen_state_of_def worker_activeFDS_def worker_maxFDS_def
      activeFDS_def maxFDS_def)

text \<open>
  (C20) A started server spreads its first clients: when nothing fails the server starts, and when
  then as many clients wait at the listening socket as there are configured workers, one call of
  the listening handler registers each of them with a worker of its own, whatever else the kernel
  has done in between.
\<close>

theorem started_server_distributes:
  assumes "granting_env en (sv_cfg s)" and "\<not> sv_running s" and "lg_isRunning (sv_logger s)"
    and "0 < sint (cf_maxFD (sv_cfg s))" and "accept_reliable (se_sys en) backlog"
    and "length (backlog k) = unat (cf_workerNum (sv_cfg s))"
  shows "\<exists>s' t. server_start en s = (SERVER_OK, s')
    \<and> listen_handle (se_sys en) e ((listen_state_of s')\<lparr>li_kernel := k\<rparr>) = Some (Inr t)
    \<and> list_all2 (served t) [0..<length (backlog k)] (backlog k)"
proof -
  from server_start_granted [OF assms(1-4)] obtain s' where
    s': "server_start en s = (SERVER_OK, s')" "list_all (validEpollFD \<circ> wk_poller) (sv_ioWorkers s')" by blast
  let ?t = "(listen_state_of s')\<lparr>li_kernel := k\<rparr>"
  have n: "length (sv_ioWorkers s') = length (backlog k)" "li_ioWorkers ?t = [0..<length (backlog k)]"
    using server_start_ready(1,3) [OF s'(1)] assms(6) by (simp_all add: server_ready_def listen_state_of_def)
  have g: "granting (se_sys en)" using assms(1) by (simp add: granting_env_def granting_init_def)
  have "ready_worker ?t p" if "p < length (backlog k)" for p
    using started_workers_ready [OF s' assms(4), of p] n(1) that by (simp add: ready_worker_def)
  then have "\<forall>p \<in> set (li_ioWorkers ?t). ready_worker ?t p" using n(2) by simp
  from accept_reliable.listen_handle_round_robin [OF assms(5) g _ this, of e] n s'(1) show ?thesis by auto
qed

theorem started_server_distributes_witness:
  "\<exists>s' t. server_start quiet_env quiet_server = (SERVER_OK, s')
     \<and> listen_handle queue_syscalls 0 ((listen_state_of s')\<lparr>li_kernel := [11, 12, 13, 14, 15]\<rparr>) = Some (Inr t)
     \<and> list_all2 (served t) [0..<5] [11, 12, 13, 14, 15]"
proof -
  have q: "accept_reliable (se_sys quiet_env) (map int)"
    by (simp add: quiet_env_def qk.accept_reliable_axioms)
  have n: "length (map int [11, 12, 13, 14, 15]) = unat (cf_workerNum (sv_cfg quiet_server))"
    by (simp add: defaultCfg_def)
  have m: "0 < sint (cf_maxFD (sv_cfg quiet_server))" by (simp add: defaultCfg_maxFD)
  have l: "length [11, 12, 13, 14, 15 :: int] = 5" "map int [11, 12, 13, 14, 15] = [11, 12, 13, 14, 15]"
    "se_sys quiet_env = queue_syscalls"
    by (simp_all add: quiet_env_def)
  show ?thesis
    by (rule started_server_distributes [where e = 0,
        OF quiet_env_granting quiet_server_simps(2,4) m q n, unfolded l])
qed

end
