(* ===== verification/Server_Threads.thy ===== *)
theory Server_Threads
  imports IO_Handler
begin

text \<open>
  The threads of a running server and the descriptors they share: the listening thread inside
  \<open>ListenEventHandler::handle\<close> and the IO workers inside the loop of \<open>Worker::run\<close>, cut into the
  statements that touch the kernel, the pollers or the events (one poller operation is one step:
  it holds the poller's lock), in any interleaving.
\<close>

section \<open>The threads\<close>

text \<open>
  Where the listening thread is with the descriptor it has accepted: before the flags are set,
  before the search for a worker, before the registration with the worker found, before the
  destruction of an event that could not be registered, before the \<open>close\<close> that follows it.
\<close>

datatype listen_pc =
    L_Accept
  | L_Flags int
  | L_Find int
  | L_Add int nat
  | L_Destroy int
  | L_Close int

text \<open>
  A worker polls, handles the events of its batch one after the other, drops the references of the
  batch, and polls again until it is stopped or polling fails.
\<close>

datatype work_pc =
    W_Poll
  | W_Handle "event_sptr list"
  | W_Clear
  | W_Exited

text \<open>
  The state of all threads: that of the listening handler, the positions, the batch of every worker
  (the vector \<open>events\<close>), and the descriptors the handlers have opened for themselves.
\<close>

record 'k threads = "'k listen_state" +
  th_files :: "int set"
  th_listen :: listen_pc
  th_work :: "worker_ptr \<Rightarrow> work_pc"
  th_batch :: "worker_ptr \<Rightarrow> event_sptr list"

definition listen_turn :: "'k syscalls \<Rightarrow> int \<Rightarrow> 'k threads \<Rightarrow> cpp_exception + 'k threads" where
  "listen_turn sys listenedFD s =
     (case th_listen s of
        L_Accept \<Rightarrow>
          (case sys_accept sys (li_kernel s) listenedFD of
             (c, k1) \<Rightarrow> Inr (s\<lparr>li_kernel := k1, th_listen := (if c = -1 then L_Accept else L_Flags c)\<rparr>))
      | L_Flags c \<Rightarrow>
          (case sys_getfl sys (li_kernel s) c of
             (flags, k1) \<Rightarrow>
               if flags = -1 then Inr (s\<lparr>li_kernel := sys_close sys k1 c, th_listen := L_Accept\<rparr>)
               else Inr (s\<lparr>li_kernel := sys_setfl sys k1 c (or flags O_NONBLOCK), th_listen := L_Find c\<rparr>))
      | L_Find c \<Rightarrow>
          (case find_worker (li_workers s) (li_ioWorkers s) of
             Inl x \<Rightarrow> Inl x
           | Inr i \<Rightarrow>
               if i = length (li_ioWorkers s)
               then Inr (s\<lparr>li_kernel := sys_close sys (li_kernel s) c, th_listen := L_Accept\<rparr>)
               else Inr (s\<lparr>th_listen := L_Add c i\<rparr>))
      | L_Add c i \<Rightarrow>
          (let p = li_ioWorkers s ! i;
               e = li_next s;
               heap = (li_heap s)(e := mk_Event c EPOLLIN_EPOLLET)
           in case worker_addEvent sys (li_kernel s) heap p e (the (li_workers s p)) of
                (err, w, heap1, k1) \<Rightarrow>
                  let s1 = s\<lparr>li_kernel := k1, li_heap := heap1, li_workers := (li_workers s)(p \<mapsto> w)\<rparr>
                  in if err \<noteq> SERVER_OK then Inr (s1\<lparr>th_listen := L_Destroy c\<rparr>)
                     else Inr (s1\<lparr>li_next := Suc e,
                            li_ioWorkers := take i (li_ioWorkers s) @ drop (Suc i) (li_ioWorkers s) @ [p],
                            th_listen := L_Accept\<rparr>))
      | L_Destroy c \<Rightarrow>
          Inr (s\<lparr>li_kernel := destroy_Event sys (li_kernel s) (li_heap s (li_next s)), th_listen := L_Close c\<rparr>)
      | L_Close c \<Rightarrow>
          Inr (s\<lparr>li_kernel := sys_close sys (li_kernel s) c, th_listen := L_Accept\<rparr>))"

text \<open>
  The end of \<open>IOEventHandler::handle\<close>: two assertions and the removal of the event from the worker
  the event itself points to.
\<close>

definition release_event ::
  "'k syscalls \<Rightarrow> event_sptr \<Rightarrow> 'k threads \<Rightarrow> cpp_exception + 'k threads" where
  "release_event sys e s =
     (case ev_worker (li_heap s e) of
        None \<Rightarrow> Inl null_pointer
      | Some q \<Rightarrow>
          (case li_workers s q of
             None \<Rightarrow> Inl null_pointer
           | Some w \<Rightarrow>
               (case worker_delEvent sys (li_kernel s) (li_heap s) e w of
                  (err, w1, k1) \<Rightarrow> Inr (s\<lparr>li_kernel := k1, li_workers := (li_workers s)(q \<mapsto> w1)\<rparr>))))"

definition work_turn :: "'k syscalls \<Rightarrow> worker_ptr \<Rightarrow> 'k threads \<Rightarrow> cpp_exception + 'k threads" where
  "work_turn sys p s =
     (case li_workers s p of
        None \<Rightarrow> Inr s
      | Some w \<Rightarrow>
          (case th_work s p of
             W_Poll \<Rightarrow>
               if \<not> worker_isRunning w
               then Inr (s\<lparr>li_workers := (li_workers s)(p \<mapsto> worker_stop w), th_work := (th_work s)(p := W_Exited)\<rparr>)
               else (case worker_eventPoll sys (li_kernel s) (li_heap s) (- 1) w of
                       (err, es, heap1, k1) \<Rightarrow>
                         if err \<noteq> SERVER_OK
                         then Inr (s\<lparr>li_kernel := k1, li_heap := heap1,
                                li_workers := (li_workers s)(p \<mapsto> worker_stop w),
                                th_work := (th_work s)(p := W_Exited)\<rparr>)
                         else Inr (s\<lparr>li_kernel := k1, li_heap := heap1,
                                th_batch := (th_batch s)(p := es), th_work := (th_work s)(p := W_Handle es)\<rparr>))
           | W_Handle [] \<Rightarrow> Inr (s\<lparr>th_work := (th_work s)(p := W_Clear)\<rparr>)
           | W_Handle (e # es) \<Rightarrow> release_event sys e (s\<lparr>th_work := (th_work s)(p := W_Handle es)\<rparr>)
           | W_Clear \<Rightarrow>
               (case th_batch s p of
                  [] \<Rightarrow> Inr (s\<lparr>th_work := (th_work s)(p := W_Poll)\<rparr>)
                | e # es \<Rightarrow>
                    Inr (s\<lparr>li_kernel :=
                             (if e \<in> set es \<or> e \<in> snd ` set (ep_events (wk_poller w)) then li_kernel s
                              else destroy_Event sys (li_kernel s) (li_heap s e)),
                           th_batch := (th_batch s)(p := es)\<rparr>))
           | W_Exited \<Rightarrow> Inr s))"

section \<open>The contract of the kernel\<close>

text \<open>
  \<open>opened\<close> are the open descriptors of the process. \<open>accept\<close> returns a descriptor that was not open;
  \<open>close\<close> closes it and takes it out of every interest list; a registered descriptor can be removed;
  waiting reports a descriptor once.
\<close>

locale descriptor_kernel = epoll_kernel sys interest
  for sys :: "'k syscalls" and interest :: "'k \<Rightarrow> int \<Rightarrow> int set" +
  fixes opened :: "'k \<Rightarrow> int set"
  assumes accept_fresh: "sys_accept sys k fd = (c, k') \<Longrightarrow> c \<noteq> -1 \<Longrightarrow>
        c \<notin> opened k \<and> opened k' = insert c (opened k)"
    and accept_none: "sys_accept sys k fd = (-1, k') \<Longrightarrow> opened k' = opened k"
    and accept_interest: "sys_accept sys k fd = (c, k') \<Longrightarrow> interest k' = interest k"
    and getfl_frame: "sys_getfl sys k fd = (r, k') \<Longrightarrow> opened k' = opened k \<and> interest k' = interest k"
    and setfl_opened: "opened (sys_setfl sys k fd fl) = opened k"
    and setfl_interest: "interest (sys_setfl sys k fd fl) = interest k"
    and close_opened: "opened (sys_close sys k fd) = opened k - {fd}"
    and close_interest: "epfd \<noteq> fd \<Longrightarrow> interest (sys_close sys k fd) epfd = interest k epfd - {fd}"
    and ctl_opened: "epoll_ctl sys k epfd op fd ev = (r, k') \<Longrightarrow> opened k' = opened k"
    and ctl_del_ok: "fd \<in> interest k epfd \<Longrightarrow> epoll_ctl sys k epfd EPOLL_CTL_DEL fd ev = (r, k') \<Longrightarrow> r \<noteq> -1"
    and wait_opened: "epoll_wait sys k epfd n t = ((num, xs), k') \<Longrightarrow> opened k' = opened k"
    and wait_distinct: "epoll_wait sys k epfd n t = ((num, xs), k') \<Longrightarrow> num \<noteq> -1 \<Longrightarrow> distinct (map fst xs)"

text \<open>A kernel with memory left: an open descriptor that is not registered yet can be added.\<close>

locale ample_kernel = descriptor_kernel sys interest opened
  for sys :: "'k syscalls" and interest :: "'k \<Rightarrow> int \<Rightarrow> int set" and opened :: "'k \<Rightarrow> int set" +
  assumes ctl_add_ok: "fd \<in> opened k \<Longrightarrow> epfd \<in> opened k \<Longrightarrow> fd \<notin> interest k epfd \<Longrightarrow>
        epoll_ctl sys k epfd EPOLL_CTL_ADD fd ev = (r, k') \<Longrightarrow> r \<noteq> -1"

text \<open>
  A step is a turn of the listening thread or of a worker, or a handler opens a descriptor of its
  own (a file it serves) or closes one.
\<close>

inductive thread_step ::
  "'k syscalls \<Rightarrow> ('k \<Rightarrow> int \<Rightarrow> int set) \<Rightarrow> ('k \<Rightarrow> int set) \<Rightarrow> int \<Rightarrow> 'k threads \<Rightarrow> 'k threads \<Rightarrow> bool"
  for sys interest opened lfd where
  listener: "listen_turn sys lfd s = Inr s' \<Longrightarrow> thread_step sys interest opened lfd s s'"
| worker: "work_turn sys p s = Inr s' \<Longrightarrow> thread_step sys interest opened lfd s s'"
| file_open: "d \<notin> opened (li_kernel s) \<Longrightarrow> opened k = insert d (opened (li_kernel s)) \<Longrightarrow>
    interest k = interest (li_kernel s) \<Longrightarrow>
    thread_step sys interest opened lfd s (s\<lparr>li_kernel := k, th_files := insert d (th_files s)\<rparr>)"
| file_close: "d \<in> th_files s \<Longrightarrow>
    thread_step sys interest opened lfd s
      (s\<lparr>li_kernel := sys_close sys (li_kernel s) d, th_files := th_files s - {d}\<rparr>)"

section \<open>Who owns which descriptor\<close>

definition table_events :: "Worker \<Rightarrow> event_sptr set" where
  "table_events w = snd ` set (ep_events (wk_poller w))"

text \<open>The events of a worker: those in the table of its poller and those of its batch.\<close>

definition client_events :: "'k threads \<Rightarrow> worker_ptr \<Rightarrow> event_sptr set" where
  "client_events s p =
     (case li_workers s p of None \<Rightarrow> {} | Some w \<Rightarrow> table_events w \<union> set (th_batch s p))"

definition client_fds :: "'k threads \<Rightarrow> int set" where
  "client_fds s = (\<Union>p. (\<lambda>e. ev_fd (li_heap s e)) ` client_events s p)"

fun in_hand :: "listen_pc \<Rightarrow> int set" where
  "in_hand (L_Flags c) = {c}"
| "in_hand (L_Find c) = {c}"
| "in_hand (L_Add c i) = {c}"
| "in_hand (L_Destroy c) = {c}"
| "in_hand _ = {}"

text \<open>Of a batch, the events already handled are out of the table and the others are in it.\<close>

definition batch_ok :: "Worker \<Rightarrow> work_pc \<Rightarrow> event_sptr list \<Rightarrow> bool" where
  "batch_ok w pc batch =
     (distinct batch
      \<and> (case pc of
           W_Handle es \<Rightarrow> \<exists>hs. batch = hs @ es \<and> set hs \<inter> table_events w = {} \<and> set es \<subseteq> table_events w
         | W_Clear \<Rightarrow> set batch \<inter> table_events w = {}
         | _ \<Rightarrow> batch = []))"

definition worker_ok :: "('k \<Rightarrow> int \<Rightarrow> int set) \<Rightarrow> int set \<Rightarrow> 'k threads \<Rightarrow> worker_ptr \<Rightarrow> Worker \<Rightarrow> bool" where
  "worker_ok interest base s p w =
     (epoll_inv interest (li_heap s) (li_kernel s, wk_poller w)
      \<and> validEpollFD (wk_poller w) \<and> ep_epfd (wk_poller w) \<in> base
      \<and> batch_ok w (th_work s p) (th_batch s p)
      \<and> (\<forall>e \<in> client_events s p. e < li_next s \<and> ev_worker (li_heap s e) = Some p))"

definition listener_ok :: "'k threads \<Rightarrow> bool" where
  "listener_ok s =
     (set (li_ioWorkers s) \<subseteq> dom (li_workers s)
      \<and> (case th_listen s of
           L_Add c i \<Rightarrow> i < length (li_ioWorkers s)
             \<and> (\<exists>w. li_workers s (li_ioWorkers s ! i) = Some w \<and> worker_activeFDS w < worker_maxFDS w)
         | L_Destroy c \<Rightarrow> False
         | L_Close c \<Rightarrow> False
         | _ \<Rightarrow> True))"

text \<open>
  The open descriptors are, without overlap, those of the server itself (\<open>base\<close>), those of the
  handlers, the one in the hand of the listening thread and those of the clients; no two events
  have the same descriptor.
\<close>

definition owners_ok :: "('k \<Rightarrow> int set) \<Rightarrow> int set \<Rightarrow> 'k threads \<Rightarrow> bool" where
  "owners_ok opened base s =
     (opened (li_kernel s) = base \<union> th_files s \<union> in_hand (th_listen s) \<union> client_fds s
      \<and> base \<inter> th_files s = {} \<and> base \<inter> in_hand (th_listen s) = {} \<and> base \<inter> client_fds s = {}
      \<and> th_files s \<inter> in_hand (th_listen s) = {} \<and> th_files s \<inter> client_fds s = {}
      \<and> in_hand (th_listen s) \<inter> client_fds s = {}
      \<and> (\<forall>p q. \<forall>e \<in> client_events s p. \<forall>f \<in> client_events s q.
           ev_fd (li_heap s e) = ev_fd (li_heap s f) \<longrightarrow> e = f))"

definition threads_inv ::
  "('k \<Rightarrow> int \<Rightarrow> int set) \<Rightarrow> ('k \<Rightarrow> int set) \<Rightarrow> int set \<Rightarrow> 'k threads \<Rightarrow> bool" where
  "threads_inv interest opened base s =
     ((\<forall>p w. li_workers s p = Some w \<longrightarrow> worker_ok interest base s p w)
      \<and> (\<forall>p q w v. li_workers s p = Some w \<longrightarrow> li_workers s q = Some v \<longrightarrow> p \<noteq> q \<longrightarrow>
           ep_epfd (wk_poller w) \<noteq> ep_epfd (wk_poller v))
      \<and> listener_ok s \<and> owners_ok opened base s)"

section \<open>Steps that keep the workers\<close>

lemma client_events_simps [simp]:
  "client_events (s\<lparr>li_kernel := k\<rparr>) = client_events s"
  "client_events (s\<lparr>li_heap := h\<rparr>) = client_events s"
  "client_events (s\<lparr>li_next := n\<rparr>) = client_events s"
  "client_events (s\<lparr>li_ioWorkers := ps\<rparr>) = client_events s"
  "client_events (s\<lparr>th_files := fs\<rparr>) = client_events s"
  "client_events (s\<lparr>th_listen := pc\<rparr>) = client_events s"
  "client_events (s\<lparr>th_work := ws\<rparr>) = client_events s"
  by (simp_all add: fun_eq_iff client_events_def split: option.split)

lemma client_fds_simps [simp]:
  "client_fds (s\<lparr>li_kernel := k\<rparr>) = client_fds s"
  "client_fds (s\<lparr>li_next := n\<rparr>) = client_fds s"
  "client_fds (s\<lparr>li_ioWorkers := ps\<rparr>) = client_fds s"
  "client_fds (s\<lparr>th_files := fs\<rparr>) = client_fds s"
  "client_fds (s\<lparr>th_listen := pc\<rparr>) = client_fds s"
  "client_fds (s\<lparr>th_work := ws\<rparr>) = client_fds s"
  by (simp_all add: client_fds_def)

lemma client_fdsI: "e \<in> client_events s p \<Longrightarrow> ev_fd (li_heap s e) \<in> client_fds s"
  by (auto simp: client_fds_def)

lemma table_client: "li_workers s p = Some w \<Longrightarrow> e \<in> table_events w \<Longrightarrow> e \<in> client_events s p"
  by (simp add: client_events_def)

lemma batch_client: "li_workers s p = Some w \<Longrightarrow> e \<in> set (th_batch s p) \<Longrightarrow> e \<in> client_events s p"
  by (simp add: client_events_def)

lemma threads_invD:
  assumes "threads_inv interest opened base s"
  shows "li_workers s p = Some w \<Longrightarrow> worker_ok interest base s p w"
    and "li_workers s p = Some w \<Longrightarrow> li_workers s q = Some v \<Longrightarrow> p \<noteq> q \<Longrightarrow>
      ep_epfd (wk_poller w) \<noteq> ep_epfd (wk_poller v)"
    and "listener_ok s" and "owners_ok opened base s"
  using assms unfolding threads_inv_def by blast+

lemma client_event:
  assumes "threads_inv interest opened base s" and "e \<in> client_events s p"
  shows "e < li_next s" and "ev_worker (li_heap s e) = Some p"
proof -
  obtain w where "li_workers s p = Some w" using assms(2) by (cases "li_workers s p") (auto simp: client_events_def)
  from threads_invD(1) [OF assms(1) this] assms(2) show "e < li_next s" "ev_worker (li_heap s e) = Some p"
    by (auto simp: worker_ok_def)
qed

lemma interest_clients:
  assumes "threads_inv interest opened base s" and "li_workers s p = Some w"
  shows "interest (li_kernel s) (ep_epfd (wk_poller w)) \<subseteq> client_fds s"
proof
  fix d
  assume "d \<in> interest (li_kernel s) (ep_epfd (wk_poller w))"
  with threads_invD(1) [OF assms] obtain e where "(d, e) \<in> set (ep_events (wk_poller w))" "ev_fd (li_heap s e) = d"
    by (fastforce simp: worker_ok_def epoll_inv_def)
  with client_fdsI [OF table_client [OF assms(2), of e]] show "d \<in> client_fds s"
    by (force simp: table_events_def)
qed

text \<open>Only the kernel, the listening thread and the private descriptors change.\<close>

lemma kernel_step:
  assumes "threads_inv interest opened base s"
    and "\<And>p w. li_workers s p = Some w \<Longrightarrow>
      interest k (ep_epfd (wk_poller w)) = interest (li_kernel s) (ep_epfd (wk_poller w))"
    and "listener_ok (s\<lparr>th_listen := pc\<rparr>)"
    and "owners_ok opened base (s\<lparr>li_kernel := k, th_files := fs, th_listen := pc\<rparr>)"
  shows "threads_inv interest opened base (s\<lparr>li_kernel := k, th_files := fs, th_listen := pc\<rparr>)"
proof -
  have "worker_ok interest base (s\<lparr>li_kernel := k, th_files := fs, th_listen := pc\<rparr>) p w"
    if "li_workers s p = Some w" for p w
    using threads_invD(1) [OF assms(1) that] assms(2) [OF that] by (simp add: worker_ok_def epoll_inv_def)
  moreover have "listener_ok (s\<lparr>li_kernel := k, th_files := fs, th_listen := pc\<rparr>)"
    using assms(3) by (simp add: listener_ok_def split: listen_pc.splits)
  ultimately show ?thesis
    using assms(4) threads_invD(2) [OF assms(1)] by (auto simp: threads_inv_def)
qed

context descriptor_kernel
begin

lemma close_others:
  assumes "threads_inv interest opened base s" and "li_workers s p = Some w"
    and "d \<notin> base" and "d \<notin> client_fds s"
  shows "interest (sys_close sys (li_kernel s) d) (ep_epfd (wk_poller w)) = interest (li_kernel s) (ep_epfd (wk_poller w))"
proof -
  have "ep_epfd (wk_poller w) \<in> base" using threads_invD(1) [OF assms(1,2)] by (simp add: worker_ok_def)
  with assms(3) have "interest (sys_close sys (li_kernel s) d) (ep_epfd (wk_poller w))
      = interest (li_kernel s) (ep_epfd (wk_poller w)) - {d}" by (intro close_interest) auto
  with interest_clients [OF assms(1,2)] assms(4) show ?thesis by auto
qed

text \<open>The listening thread gives the descriptor in its hand up.\<close>

lemma drop_hand_inv:
  assumes "threads_inv interest opened base s" and "in_hand (th_listen s) = {c}"
  shows "threads_inv interest opened base (s\<lparr>li_kernel := sys_close sys (li_kernel s) c, th_listen := L_Accept\<rparr>)"
proof -
  note o = threads_invD(4) [OF assms(1)]
  from o assms(2) have c: "c \<notin> base" "c \<notin> client_fds s" by (auto simp: owners_ok_def)
  have "owners_ok opened base (s\<lparr>li_kernel := sys_close sys (li_kernel s) c, th_files := th_files s, th_listen := L_Accept\<rparr>)"
    using o assms(2) by (auto simp: owners_ok_def close_opened)
  moreover have "listener_ok (s\<lparr>th_listen := L_Accept\<rparr>)"
    using threads_invD(3) [OF assms(1)] by (simp add: listener_ok_def)
  ultimately show ?thesis
    using kernel_step [OF assms(1), of "sys_close sys (li_kernel s) c" L_Accept "th_files s"]
      close_others [OF assms(1) _ c] by simp
qed

lemma file_open_inv:
  assumes "threads_inv interest opened base s" and "d \<notin> opened (li_kernel s)"
    and "opened k = insert d (opened (li_kernel s))" and "interest k = interest (li_kernel s)"
  shows "threads_inv interest opened base (s\<lparr>li_kernel := k, th_files := insert d (th_files s)\<rparr>)"
proof -
  note o = threads_invD(4) [OF assms(1)]
  have "owners_ok opened base (s\<lparr>li_kernel := k, th_files := insert d (th_files s), th_listen := th_listen s\<rparr>)"
    using o assms(2,3) by (auto simp: owners_ok_def)
  with kernel_step [OF assms(1), of k "th_listen s" "insert d (th_files s)"] threads_invD(3) [OF assms(1)] assms(4)
  show ?thesis by simp
qed

lemma file_close_inv:
  assumes "threads_inv interest opened base s" and "d \<in> th_files s"
  shows "threads_inv interest opened base (s\<lparr>li_kernel := sys_close sys (li_kernel s) d, th_files := th_files s - {d}\<rparr>)"
proof -
  note o = threads_invD(4) [OF assms(1)]
  from o assms(2) have c: "d \<notin> base" "d \<notin> client_fds s" by (auto simp: owners_ok_def)
  have "owners_ok opened base
      (s\<lparr>li_kernel := sys_close sys (li_kernel s) d, th_files := th_files s - {d}, th_listen := th_listen s\<rparr>)"
    using o assms(2) by (auto simp: owners_ok_def close_opened)
  with kernel_step [OF assms(1), of "sys_close sys (li_kernel s) d" "th_listen s" "th_files s - {d}"]
    close_others [OF assms(1) _ c] threads_invD(3) [OF assms(1)] show ?thesis by simp
qed

lemma accept_inv:
  assumes "threads_inv interest opened base s" and "th_listen s = L_Accept"
    and "sys_accept sys (li_kernel s) lfd = (c, k)"
  shows "threads_inv interest opened base (s\<lparr>li_kernel := k, th_listen := (if c = -1 then L_Accept else L_Flags c)\<rparr>)"
proof -
  let ?pc = "if c = -1 then L_Accept else L_Flags c"
  note o = threads_invD(4) [OF assms(1)]
  have "opened k = opened (li_kernel s) \<union> in_hand ?pc \<and> in_hand ?pc \<inter> opened (li_kernel s) = {}"
    using accept_fresh [OF assms(3)] accept_none [of "li_kernel s" lfd k] assms(3) by auto
  with o assms(2) have "owners_ok opened base (s\<lparr>li_kernel := k, th_files := th_files s, th_listen := ?pc\<rparr>)"
    by (auto simp: owners_ok_def)
  with kernel_step [OF assms(1), of k ?pc "th_files s"] threads_invD(3) [OF assms(1)] accept_interest [OF assms(3)]
  show ?thesis by (simp add: listener_ok_def)
qed

lemma flags_inv:
  assumes "threads_inv interest opened base s" and "th_listen s = L_Flags c"
    and "sys_getfl sys (li_kernel s) c = (flags, k)"
  shows "threads_inv interest opened base (s\<lparr>li_kernel := sys_close sys k c, th_listen := L_Accept\<rparr>)"
    and "threads_inv interest opened base (s\<lparr>li_kernel := sys_setfl sys k c fl, th_listen := L_Find c\<rparr>)"
proof -
  note o = threads_invD(4) [OF assms(1)] and g = getfl_frame [OF assms(3)]
  have k: "threads_inv interest opened base (s\<lparr>li_kernel := k', th_listen := pc\<rparr>)"
    if "opened k' = opened k" "interest k' = interest k" "pc = L_Flags c \<or> pc = L_Find c" for k' pc
  proof -
    have "owners_ok opened base (s\<lparr>li_kernel := k', th_files := th_files s, th_listen := pc\<rparr>)"
      using o assms(2) that g by (auto simp: owners_ok_def)
    with kernel_step [OF assms(1), of k' pc "th_files s"] threads_invD(3) [OF assms(1)] g that show ?thesis
      by (auto simp: listener_ok_def)
  qed
  from drop_hand_inv [OF k [of k "L_Flags c"], of c]
  show "threads_inv interest opened base (s\<lparr>li_kernel := sys_close sys k c, th_listen := L_Accept\<rparr>)" by simp
  show "threads_inv interest opened base (s\<lparr>li_kernel := sys_setfl sys k c fl, th_listen := L_Find c\<rparr>)"
    by (rule k) (simp_all add: setfl_opened setfl_interest)
qed

end

section \<open>Steps of a worker\<close>

text \<open>The state after a turn of worker \<open>p\<close>.\<close>

definition put_worker ::
  "worker_ptr \<Rightarrow> 'k \<Rightarrow> Worker \<Rightarrow> event_sptr list \<Rightarrow> work_pc \<Rightarrow> 'k threads \<Rightarrow> 'k threads" where
  "put_worker p k w batch pc s =
     s\<lparr>li_kernel := k, li_workers := (li_workers s)(p \<mapsto> w), th_batch := (th_batch s)(p := batch),
       th_work := (th_work s)(p := pc)\<rparr>"

lemma put_worker_simps [simp]:
  "li_kernel (put_worker p k w b pc s) = k" "li_heap (put_worker p k w b pc s) = li_heap s"
  "li_next (put_worker p k w b pc s) = li_next s" "li_ioWorkers (put_worker p k w b pc s) = li_ioWorkers s"
  "li_workers (put_worker p k w b pc s) = (li_workers s)(p \<mapsto> w)"
  "th_batch (put_worker p k w b pc s) = (th_batch s)(p := b)"
  "th_work (put_worker p k w b pc s) = (th_work s)(p := pc)"
  "th_files (put_worker p k w b pc s) = th_files s" "th_listen (put_worker p k w b pc s) = th_listen s"
  by (simp_all add: put_worker_def)

lemma client_events_put:
  "client_events (put_worker p k w b pc s) q = (if q = p then table_events w \<union> set b else client_events s q)"
  by (simp add: client_events_def split: option.split)

lemma worker_step:
  assumes "threads_inv interest opened base s" and "li_workers s p = Some w"
    and "ep_epfd (wk_poller w') = ep_epfd (wk_poller w)"
    and "\<And>q v. q \<noteq> p \<Longrightarrow> li_workers s q = Some v \<Longrightarrow>
      interest k (ep_epfd (wk_poller v)) = interest (li_kernel s) (ep_epfd (wk_poller v))"
    and "worker_ok interest base (put_worker p k w' b pc s) p w'"
    and "owners_ok opened base (put_worker p k w' b pc s)"
    and "worker_activeFDS w' \<le> worker_activeFDS w" and "worker_maxFDS w' = worker_maxFDS w"
  shows "threads_inv interest opened base (put_worker p k w' b pc s)"
proof -
  let ?s = "put_worker p k w' b pc s"
  have "worker_ok interest base ?s q v" if "li_workers ?s q = Some v" for q v
  proof (cases "q = p")
    case True
    with that assms(5) show ?thesis by simp
  next
    case False
    with that threads_invD(1) [OF assms(1), of q v] assms(4) [of q v] show ?thesis
      by (simp add: worker_ok_def epoll_inv_def client_events_put)
  qed
  moreover have "listener_ok ?s"
    using threads_invD(3) [OF assms(1)] assms(2,7,8)
    by (auto simp: listener_ok_def split: listen_pc.splits)
  moreover have "ep_epfd (wk_poller v) \<noteq> ep_epfd (wk_poller v')"
    if "li_workers ?s q = Some v" "li_workers ?s r = Some v'" "q \<noteq> r" for q r v v'
    using that threads_invD(2) [OF assms(1)] assms(2,3) by (auto split: if_splits)
  ultimately show ?thesis using assms(6) unfolding threads_inv_def by blast
qed

text \<open>A worker changes the positions of its events, not which events it has.\<close>

lemma owners_put:
  assumes "owners_ok opened base s" and "opened k = opened (li_kernel s)"
    and "table_events w' \<union> set b = client_events s p"
  shows "owners_ok opened base (put_worker p k w' b pc s)"
proof -
  have "client_events (put_worker p k w' b pc s) = client_events s"
    using assms(3) by (auto simp: client_events_put fun_eq_iff)
  moreover from this have "client_fds (put_worker p k w' b pc s) = client_fds s" by (simp add: client_fds_def)
  ultimately show ?thesis using assms(1,2) by (simp add: owners_ok_def)
qed

lemma worker_ok_put:
  assumes "worker_ok interest base s p w" and "ep_epfd (wk_poller w') = ep_epfd (wk_poller w)"
    and "epoll_inv interest (li_heap s) (k, wk_poller w')" and "batch_ok w' pc b"
    and "table_events w' \<union> set b \<subseteq> client_events s p"
  shows "worker_ok interest base (put_worker p k w' b pc s) p w'"
  using assms by (auto simp: worker_ok_def client_events_put validEpollFD_def)

lemma put_self: "li_workers s p = Some w \<Longrightarrow> put_worker p (li_kernel s) w (th_batch s p) pc s
    = s\<lparr>th_work := (th_work s)(p := pc)\<rparr>"
  by (simp add: put_worker_def fun_upd_idem)

lemma exit_inv:
  assumes "threads_inv interest opened base s" and "li_workers s p = Some w" and "th_work s p = W_Poll"
    and "opened k = opened (li_kernel s)" and "interest k = interest (li_kernel s)"
  shows "threads_inv interest opened base (put_worker p k (worker_stop w) (th_batch s p) W_Exited s)"
proof (rule worker_step [OF assms(1,2)])
  have t: "table_events (worker_stop w) = table_events w" "wk_poller (worker_stop w) = wk_poller w"
    by (simp_all add: table_events_def worker_stop_def)
  note ok = threads_invD(1) [OF assms(1,2)]
  have b: "th_batch s p = []" using ok assms(3) by (simp add: worker_ok_def batch_ok_def)
  have c: "table_events w = client_events s p" using assms(2) b by (simp add: client_events_def)
  show "owners_ok opened base (put_worker p k (worker_stop w) (th_batch s p) W_Exited s)"
    using threads_invD(4) [OF assms(1)] assms(4) c by (intro owners_put) (simp_all add: t b)
  show "worker_ok interest base (put_worker p k (worker_stop w) (th_batch s p) W_Exited s) p (worker_stop w)"
    using ok c assms(5) by (intro worker_ok_put [OF ok]) (simp_all add: t b worker_ok_def epoll_inv_def batch_ok_def)
qed (simp_all add: worker_stop_def assms(5) worker_activeFDS_def worker_maxFDS_def)

lemma handled_inv:
  assumes "threads_inv interest opened base s" and "li_workers s p = Some w" and "th_work s p = W_Handle []"
  shows "threads_inv interest opened base (s\<lparr>th_work := (th_work s)(p := W_Clear)\<rparr>)"
proof -
  note ok = threads_invD(1) [OF assms(1,2)]
  have c: "table_events w \<union> set (th_batch s p) = client_events s p" using assms(2) by (simp add: client_events_def)
  have b: "batch_ok w W_Clear (th_batch s p)" using ok assms(3) by (auto simp: worker_ok_def batch_ok_def)
  have "worker_ok interest base (put_worker p (li_kernel s) w (th_batch s p) W_Clear s) p w"
    using ok b c by (intro worker_ok_put [OF ok]) (simp_all add: worker_ok_def)
  moreover have "owners_ok opened base (put_worker p (li_kernel s) w (th_batch s p) W_Clear s)"
    using threads_invD(4) [OF assms(1)] c by (intro owners_put) simp_all
  ultimately show ?thesis
    using worker_step [OF assms(1,2), of w "li_kernel s" "th_batch s p" W_Clear] put_self [OF assms(2)] by simp
qed

lemma cleared_inv:
  assumes "threads_inv interest opened base s" and "li_workers s p = Some w" and "th_work s p = W_Clear"
    and "th_batch s p = []"
  shows "threads_inv interest opened base (s\<lparr>th_work := (th_work s)(p := W_Poll)\<rparr>)"
proof -
  note ok = threads_invD(1) [OF assms(1,2)]
  have c: "table_events w \<union> set (th_batch s p) = client_events s p" using assms(2) by (simp add: client_events_def)
  have "worker_ok interest base (put_worker p (li_kernel s) w (th_batch s p) W_Poll s) p w"
    using ok assms(4) c by (intro worker_ok_put [OF ok]) (simp_all add: worker_ok_def batch_ok_def)
  moreover have "owners_ok opened base (put_worker p (li_kernel s) w (th_batch s p) W_Poll s)"
    using threads_invD(4) [OF assms(1)] c by (intro owners_put) simp_all
  ultimately show ?thesis
    using worker_step [OF assms(1,2), of w "li_kernel s" "th_batch s p" W_Poll] put_self [OF assms(2)] by simp
qed

text \<open>Waiting changes the response masks of events only.\<close>

lemma heap_step:
  assumes "threads_inv interest opened base s"
    and "\<And>e. ev_fd (heap e) = ev_fd (li_heap s e)" and "\<And>e. ev_worker (heap e) = ev_worker (li_heap s e)"
  shows "threads_inv interest opened base (s\<lparr>li_heap := heap\<rparr>)"
  using assms
  by (auto simp: threads_inv_def worker_ok_def epoll_inv_def listener_ok_def owners_ok_def client_fds_def
      split: listen_pc.splits)

lemma map_of_table:
  assumes "epoll_inv interest heap (k, ep)" and "fd \<in> interest k (ep_epfd ep)"
  obtains e where "map_of (ep_events ep) fd = Some e" and "e \<in> snd ` set (ep_events ep)" and "ev_fd (heap e) = fd"
proof -
  from assms have "fd \<in> fst ` set (ep_events ep)" by (simp add: epoll_inv_def)
  then obtain e where "(fd, e) \<in> set (ep_events ep)" by force
  with assms(1) have "map_of (ep_events ep) fd = Some e" "ev_fd (heap e) = fd" by (auto simp: epoll_inv_def)
  with \<open>(fd, e) \<in> set (ep_events ep)\<close> that show thesis by force
qed

text \<open>The events behind the reports of the kernel are distinct events of the table.\<close>

lemma reported_events:
  assumes "epoll_inv interest heap (k, ep)" and "distinct (map fst xs)" and "fst ` set xs \<subseteq> interest k (ep_epfd ep)"
  defines "es \<equiv> map (\<lambda>(fd, evs). the (map_of (ep_events ep) fd)) xs"
  shows "distinct es" and "set es \<subseteq> snd ` set (ep_events ep)"
proof -
  have m: "the (map_of (ep_events ep) fd) \<in> snd ` set (ep_events ep)"
    "ev_fd (heap (the (map_of (ep_events ep) fd))) = fd" if "fd \<in> fst ` set xs" for fd
  proof -
    from that assms(3) have "fd \<in> interest k (ep_epfd ep)" by blast
    from map_of_table [OF assms(1) this] obtain e where
      "map_of (ep_events ep) fd = Some e" "e \<in> snd ` set (ep_events ep)" "ev_fd (heap e) = fd" by blast
    then show "the (map_of (ep_events ep) fd) \<in> snd ` set (ep_events ep)"
      "ev_fd (heap (the (map_of (ep_events ep) fd))) = fd" by simp_all
  qed
  have es: "es = map (\<lambda>fd. the (map_of (ep_events ep) fd)) (map fst xs)"
    by (simp add: es_def case_prod_unfold)
  have "inj_on (\<lambda>fd. the (map_of (ep_events ep) fd)) (set (map fst xs))"
    by (rule inj_on_inverseI [where g = "\<lambda>e. ev_fd (heap e)"]) (simp add: m(2))
  with assms(2) show "distinct es" unfolding es by (simp add: distinct_map del: map_map)
  show "set es \<subseteq> snd ` set (ep_events ep)" unfolding es using m(1) by auto
qed

context descriptor_kernel
begin

text \<open>What polling delivers.\<close>

lemma poll_batch:
  assumes "epoll_inv interest heap (k, wk_poller w)"
    and "worker_eventPoll sys k heap t w = (err, es, heap1, k1)"
  shows "distinct es \<and> set es \<subseteq> table_events w \<and> opened k1 = opened k \<and> interest k1 = interest k
    \<and> (\<forall>e. ev_fd (heap1 e) = ev_fd (heap e) \<and> ev_worker (heap1 e) = ev_worker (heap e))"
proof -
  let ?ep = "wk_poller w"
  obtain num xs k2 where x: "epoll_wait sys k (ep_epfd ?ep) (maxFDS ?ep) t = ((num, xs), k2)"
    by (metis surj_pair)
  note o = wait_opened [OF x] wait_interest [OF x]
  show ?thesis
  proof (cases "validEpollFD ?ep \<and> num \<noteq> -1")
    case False
    with assms(2) x o show ?thesis by (auto simp: worker_eventPoll_def epollWait_def split: if_splits)
  next
    case True
    obtain es1 heap2 where l: "wait_loop (ep_events ?ep) xs heap = (es1, heap2)" by fastforce
    from wait_reports [OF x] True have
      n: "length xs = nat num" "fst ` set xs \<subseteq> interest k (ep_epfd ?ep)" by auto
    with assms(1) have "fst ` set xs \<subseteq> fst ` set (ep_events ?ep)" by (auto simp: epoll_inv_def)
    note w = wait_loop_spec [OF l this]
    have r: "es = es1" "heap1 = heap2" "k1 = k2"
      using assms(2) x True l n(1) by (auto simp: worker_eventPoll_def epollWait_def)
    have "ev_fd (heap1 e) = ev_fd (heap e) \<and> ev_worker (heap1 e) = ev_worker (heap e)" for e
      using arg_cong [OF conjunct2 [OF w, THEN spec, of e], of ev_fd]
        arg_cong [OF conjunct2 [OF w, THEN spec, of e], of ev_worker] r(2) by (simp add: setResponseEvent_def)
    with reported_events [OF assms(1) wait_distinct [OF x] n(2)] True w o r show ?thesis
      by (simp add: table_events_def)
  qed
qed

lemma poll_inv:
  assumes "threads_inv interest opened base s" and "li_workers s p = Some w" and "th_work s p = W_Poll"
    and "worker_eventPoll sys (li_kernel s) (li_heap s) t w = (err, es, heap1, k1)"
  shows "threads_inv interest opened base (put_worker p k1 w es (W_Handle es) (s\<lparr>li_heap := heap1\<rparr>))"
    and "threads_inv interest opened base
      (put_worker p k1 (worker_stop w) (th_batch s p) W_Exited (s\<lparr>li_heap := heap1\<rparr>))"
proof -
  let ?s = "s\<lparr>li_heap := heap1\<rparr>"
  note ok = threads_invD(1) [OF assms(1,2)]
  from ok have "epoll_inv interest (li_heap s) (li_kernel s, wk_poller w)" by (simp add: worker_ok_def)
  note b = poll_batch [OF this assms(4)]
  have inv: "threads_inv interest opened base ?s" using heap_step [OF assms(1)] b by simp
  note ok' = threads_invD(1) [OF inv, of p w, simplified, OF assms(2)]
  have e: "th_batch s p = []" using ok assms(3) by (simp add: worker_ok_def batch_ok_def)
  have c: "table_events w = client_events s p" using assms(2) e by (simp add: client_events_def)
  from exit_inv [OF inv, of p w k1] assms(2,3) b
  show "threads_inv interest opened base (put_worker p k1 (worker_stop w) (th_batch s p) W_Exited ?s)" by simp
  show "threads_inv interest opened base (put_worker p k1 w es (W_Handle es) ?s)"
  proof (rule worker_step [OF inv])
    show "worker_ok interest base (put_worker p k1 w es (W_Handle es) ?s) p w"
      using ok' b c
      by (intro worker_ok_put [OF ok']) (auto simp: worker_ok_def epoll_inv_def batch_ok_def)
    show "owners_ok opened base (put_worker p k1 w es (W_Handle es) ?s)"
      using threads_invD(4) [OF inv] b c by (intro owners_put) auto
  qed (use assms(2) b in simp_all)
qed

text \<open>The removal of an event by the handler.\<close>

lemma del_event:
  assumes "epoll_inv interest heap (k, wk_poller w)" and "validEpollFD (wk_poller w)"
    and "e \<in> table_events w" and "worker_delEvent sys k heap e w = (err, w', k')"
  shows "err = SERVER_OK" and "table_events w' = table_events w - {e}"
    and "epoll_inv interest heap (k', wk_poller w')"
    and "ep_epfd (wk_poller w') = ep_epfd (wk_poller w)" and "opened k' = opened k"
    and "\<And>epfd. epfd \<noteq> ep_epfd (wk_poller w) \<Longrightarrow> interest k' epfd = interest k epfd"
    and "worker_activeFDS w' \<le> worker_activeFDS w" and "worker_maxFDS w' = worker_maxFDS w"
proof -
  let ?ep = "wk_poller w" and ?fd = "ev_fd (heap e)"
  from assms(3) obtain fd where fd: "(fd, e) \<in> set (ep_events ?ep)" by (auto simp: table_events_def)
  with assms(1) have "fd = ?fd" "fst (fd, e) \<in> interest k (ep_epfd ?ep)"
    by (fastforce simp: epoll_inv_def simp del: fst_conv)+
  then have i: "fd = ?fd" "?fd \<in> interest k (ep_epfd ?ep)" by simp_all
  obtain r k1 where c: "epoll_ctl sys k (ep_epfd ?ep) EPOLL_CTL_DEL ?fd (ev_ev (heap e)) = (r, k1)" by fastforce
  note r = ctl_del_ok [OF i(2) c]
  have d: "epollDelEvent sys k heap e ?ep
      = (SERVER_OK, ?ep\<lparr>ep_events := AList.delete ?fd (ep_events ?ep)\<rparr>, k1)"
    using c r assms(2) by (simp add: epollDelEvent_def)
  with assms(4) have s: "err = SERVER_OK" "k' = k1" "w' = w\<lparr>wk_poller := ?ep\<lparr>ep_events := AList.delete ?fd (ep_events ?ep)\<rparr>\<rparr>"
    by (auto simp: worker_delEvent_def)
  show "err = SERVER_OK" by (rule s(1))
  show "epoll_inv interest heap (k', wk_poller w')" using del_inv [OF assms(1) d] s by simp
  show "ep_epfd (wk_poller w') = ep_epfd ?ep" by (simp add: s(3))
  show "opened k' = opened k" using ctl_opened [OF c] s(2) by simp
  show "interest k' epfd = interest k epfd" if "epfd \<noteq> ep_epfd ?ep" for epfd
    using ctl_del [OF c r] that s(2) by simp
  show "worker_activeFDS w' \<le> worker_activeFDS w" "worker_maxFDS w' = worker_maxFDS w"
    using length_delete_le [of ?fd "ep_events ?ep"]
    by (simp_all add: s(3) worker_activeFDS_def worker_maxFDS_def activeFDS_def maxFDS_def)
  have "f = e" if "(?fd, f) \<in> set (ep_events ?ep)" for f
    using assms(1) fd i(1) that by (auto simp: epoll_inv_def dest: eq_key_imp_eq_value)
  moreover have "ev_fd (heap f) = x" if "(x, f) \<in> set (ep_events ?ep)" for x f
    using assms(1) that by (auto simp: epoll_inv_def)
  ultimately have "(x, f) \<in> set (AList.delete ?fd (ep_events ?ep)) \<longleftrightarrow> (x, f) \<in> set (ep_events ?ep) \<and> f \<noteq> e" for x f
    by (auto simp: AList.delete_eq)
  then show "table_events w' = table_events w - {e}"
    unfolding table_events_def by (simp add: s(3)) (safe; force)
qed

lemma release_inv:
  assumes "threads_inv interest opened base s" and "li_workers s p = Some w" and "th_work s p = W_Handle (e # es)"
  obtains s' where "release_event sys e (s\<lparr>th_work := (th_work s)(p := W_Handle es)\<rparr>) = Inr s'"
    and "threads_inv interest opened base s'"
proof -
  note ok = threads_invD(1) [OF assms(1,2)]
  from ok assms(3) obtain hs where
    hs: "distinct (th_batch s p)" "th_batch s p = hs @ e # es" "set hs \<inter> table_events w = {}"
      "e \<in> table_events w" "set es \<subseteq> table_events w"
    by (auto simp: worker_ok_def batch_ok_def)
  have own: "ev_worker (li_heap s e) = Some p"
    using ok table_client [OF assms(2) hs(4)] by (simp add: worker_ok_def)
  obtain err w1 k1 where d: "worker_delEvent sys (li_kernel s) (li_heap s) e w = (err, w1, k1)"
    using prod_cases3 by blast
  from ok have ep: "epoll_inv interest (li_heap s) (li_kernel s, wk_poller w)" "validEpollFD (wk_poller w)"
    by (simp_all add: worker_ok_def)
  note del = del_event [OF ep hs(4) d]
  let ?s = "put_worker p k1 w1 (th_batch s p) (W_Handle es) s"
  have c: "table_events w1 \<union> set (th_batch s p) = client_events s p"
    using assms(2) hs(2) del(2) by (auto simp: client_events_def)
  have "threads_inv interest opened base ?s"
  proof (rule worker_step [OF assms(1,2) del(4)])
    show "interest k1 (ep_epfd (wk_poller v)) = interest (li_kernel s) (ep_epfd (wk_poller v))"
      if "q \<noteq> p" "li_workers s q = Some v" for q v
      using del(6) threads_invD(2) [OF assms(1) that(2) assms(2) that(1)] by simp
    have "batch_ok w1 (W_Handle es) (th_batch s p)"
      using hs del(2) unfolding batch_ok_def by (auto intro!: exI [of _ "hs @ [e]"])
    then show "worker_ok interest base ?s p w1"
      using del(3) c by (intro worker_ok_put [OF ok del(4)]) simp_all
    show "owners_ok opened base ?s"
      using threads_invD(4) [OF assms(1)] del(5) c by (intro owners_put) simp_all
  qed (simp_all add: del(7,8))
  moreover have "release_event sys e (s\<lparr>th_work := (th_work s)(p := W_Handle es)\<rparr>) = Inr ?s"
    using own assms(2) d by (simp add: release_event_def put_worker_def fun_upd_idem)
  ultimately show thesis using that by blast
qed

end

lemma event_owner:
  assumes "threads_inv interest opened base s" and "e \<in> client_events s p" and "e \<in> client_events s q"
  shows "p = q"
  using client_event(2) [OF assms(1,2)] client_event(2) [OF assms(1,3)] by simp

lemma interest_event:
  assumes "threads_inv interest opened base s" and "li_workers s q = Some v"
    and "d \<in> interest (li_kernel s) (ep_epfd (wk_poller v))"
  obtains f where "f \<in> table_events v" and "f \<in> client_events s q" and "ev_fd (li_heap s f) = d"
proof -
  have "epoll_inv interest (li_heap s) (li_kernel s, wk_poller v)"
    using threads_invD(1) [OF assms(1,2)] by (simp add: worker_ok_def)
  from map_of_table [OF this assms(3)] obtain f where "f \<in> table_events v" "ev_fd (li_heap s f) = d"
    unfolding table_events_def by blast
  with that table_client [OF assms(2)] show thesis by blast
qed

context descriptor_kernel
begin

text \<open>The last reference to a handled event goes, which closes its descriptor.\<close>

lemma drop_inv:
  assumes "threads_inv interest opened base s" and "li_workers s p = Some w" and "th_work s p = W_Clear"
    and "th_batch s p = e # es"
  shows "e \<notin> set es" and "e \<notin> table_events w"
    and "threads_inv interest opened base
      (put_worker p (sys_close sys (li_kernel s) (ev_fd (li_heap s e))) w es W_Clear s)"
proof -
  let ?d = "ev_fd (li_heap s e)"
  let ?k = "sys_close sys (li_kernel s) ?d"
  let ?s = "put_worker p ?k w es W_Clear s"
  note ok = threads_invD(1) [OF assms(1,2)] and own = threads_invD(4) [OF assms(1)]
  from ok assms(3,4) have b: "distinct (e # es)" "set (e # es) \<inter> table_events w = {}"
    by (auto simp: worker_ok_def batch_ok_def)
  then show n: "e \<notin> set es" "e \<notin> table_events w" by simp_all
  have e: "e \<in> client_events s p" using assms(2,4) by (simp add: client_events_def)
  have cp: "table_events w \<union> set es = client_events s p - {e}"
    using assms(2,4) n by (auto simp: client_events_def)
  have uniq: "f = e" if "f \<in> client_events s q" "ev_fd (li_heap s f) = ?d" for f q
    using own e that by (auto simp: owners_ok_def)
  have pq: "e \<notin> client_events s q" if "q \<noteq> p" for q
    using event_owner [OF assms(1) e] that by blast
  have ce: "client_events ?s q = client_events s q - {e}" for q
    using cp pq by (auto simp: client_events_put)
  have fds: "client_fds ?s = client_fds s - {?d}"
    using uniq by (auto simp: client_fds_def ce)
  have d: "?d \<notin> base" "?d \<notin> th_files s" "?d \<notin> in_hand (th_listen s)" "?d \<in> client_fds s"
    using own client_fdsI [OF e] by (auto simp: owners_ok_def)
  show "threads_inv interest opened base ?s"
  proof (rule worker_step [OF assms(1,2)])
    have i: "interest ?k (ep_epfd (wk_poller v)) = interest (li_kernel s) (ep_epfd (wk_poller v))"
      if "li_workers s q = Some v" for q v
    proof -
      note okq = threads_invD(1) [OF assms(1) that]
      then have "ep_epfd (wk_poller v) \<noteq> ?d" using d(1) by (auto simp: worker_ok_def)
      moreover have "?d \<notin> interest (li_kernel s) (ep_epfd (wk_poller v))"
      proof
        assume "?d \<in> interest (li_kernel s) (ep_epfd (wk_poller v))"
        from interest_event [OF assms(1) that this] obtain f where
          f: "f \<in> table_events v" "f \<in> client_events s q" "ev_fd (li_heap s f) = ?d" by blast
        from uniq [OF f(2,3)] f pq n(2) assms(2) that show False by (cases "q = p") auto
      qed
      ultimately show ?thesis using close_interest by simp
    qed
    then show "interest ?k (ep_epfd (wk_poller v)) = interest (li_kernel s) (ep_epfd (wk_poller v))"
      if "q \<noteq> p" "li_workers s q = Some v" for q v using that by blast
    show "worker_ok interest base ?s p w"
      using ok i [OF assms(2)] cp b
      by (intro worker_ok_put [OF ok]) (auto simp: worker_ok_def epoll_inv_def batch_ok_def)
    show "owners_ok opened base ?s"
      using own d fds by (auto simp: owners_ok_def close_opened ce)
  qed simp_all
qed

end

context ample_kernel
begin

text \<open>The registration of an accepted client.\<close>

lemma add_event:
  assumes "epoll_inv interest heap (k, wk_poller w)" and "validEpollFD (wk_poller w)"
    and "worker_activeFDS w < worker_maxFDS w" and "ev_fd (heap e) \<notin> interest k (ep_epfd (wk_poller w))"
    and "ev_fd (heap e) \<in> opened k" and "ep_epfd (wk_poller w) \<in> opened k"
    and "worker_addEvent sys k heap p e w = (err, w', heap', k')"
  shows "err = SERVER_OK" and "table_events w' = insert e (table_events w)"
    and "epoll_inv interest heap' (k', wk_poller w')"
    and "ep_epfd (wk_poller w') = ep_epfd (wk_poller w)" and "opened k' = opened k"
    and "\<And>epfd. epfd \<noteq> ep_epfd (wk_poller w) \<Longrightarrow> interest k' epfd = interest k epfd"
    and "heap' = heap(e := setWorker (Some p) (heap e))"
proof -
  let ?ep = "wk_poller w" and ?fd = "ev_fd (heap e)"
  let ?heap = "heap(e := setWorker (Some p) (heap e))"
  have f: "ev_fd (?heap e) = ?fd" by (simp add: setWorker_def)
  obtain r k1 where c: "epoll_ctl sys k (ep_epfd ?ep) EPOLL_CTL_ADD ?fd (ev_ev (?heap e)) = (r, k1)" by fastforce
  note r = ctl_add_ok [OF assms(5,6,4) c]
  have a: "epollAddEvent sys k ?heap e ?ep
      = (SERVER_OK, ?ep\<lparr>ep_events := AList.update ?fd e (ep_events ?ep)\<rparr>, k1)"
    using c r assms(2,3) f
    by (simp add: epollAddEvent_def worker_activeFDS_def worker_maxFDS_def)
  with assms(7) have s: "err = SERVER_OK" "k' = k1" "heap' = ?heap"
    "w' = w\<lparr>wk_poller := ?ep\<lparr>ep_events := AList.update ?fd e (ep_events ?ep)\<rparr>\<rparr>"
    by (auto simp: worker_addEvent_def Let_def)
  have "epoll_inv interest ?heap (k, ?ep)" using assms(1) by (auto simp: epoll_inv_def setWorker_def)
  from add_inv [OF this a] s show "epoll_inv interest heap' (k', wk_poller w')" by simp
  show "err = SERVER_OK" "heap' = ?heap" by (rule s)+
  show "ep_epfd (wk_poller w') = ep_epfd ?ep" by (simp add: s(4))
  show "opened k' = opened k" using ctl_opened [OF c] s(2) by simp
  show "interest k' epfd = interest k epfd" if "epfd \<noteq> ep_epfd ?ep" for epfd
    using ctl_add [OF c r] that s(2) by simp
  have "?fd \<notin> fst ` set (ep_events ?ep)" using assms(1,4) by (simp add: epoll_inv_def)
  then show "table_events w' = insert e (table_events w)"
    by (simp add: s(4) table_events_def update_fresh)
qed

end

text \<open>The state after a successful registration of descriptor \<open>c\<close> with worker \<open>p\<close>.\<close>

definition put_client ::
  "worker_ptr \<Rightarrow> int \<Rightarrow> 'k \<Rightarrow> Worker \<Rightarrow> worker_ptr list \<Rightarrow> 'k threads \<Rightarrow> 'k threads" where
  "put_client p c k w ps s =
     s\<lparr>li_kernel := k, li_heap := (li_heap s)(li_next s := setWorker (Some p) (mk_Event c EPOLLIN_EPOLLET)),
       li_workers := (li_workers s)(p \<mapsto> w), li_next := Suc (li_next s), li_ioWorkers := ps,
       th_listen := L_Accept\<rparr>"

lemma put_client_simps [simp]:
  "li_kernel (put_client p c k w ps s) = k" "li_next (put_client p c k w ps s) = Suc (li_next s)"
  "li_heap (put_client p c k w ps s)
    = (li_heap s)(li_next s := setWorker (Some p) (mk_Event c EPOLLIN_EPOLLET))"
  "li_workers (put_client p c k w ps s) = (li_workers s)(p \<mapsto> w)" "li_ioWorkers (put_client p c k w ps s) = ps"
  "th_files (put_client p c k w ps s) = th_files s" "th_listen (put_client p c k w ps s) = L_Accept"
  "th_batch (put_client p c k w ps s) = th_batch s" "th_work (put_client p c k w ps s) = th_work s"
  by (simp_all add: put_client_def)

lemma client_events_client:
  assumes "li_workers s p = Some w" and "table_events w' = insert (li_next s) (table_events w)"
  shows "client_events (put_client p c k w' ps s) q
    = (if q = p then insert (li_next s) (client_events s q) else client_events s q)"
  using assms by (auto simp: client_events_def split: option.split)

lemma owners_client:
  assumes "threads_inv interest opened base s" and "in_hand (th_listen s) = {c}" and "li_workers s p = Some w"
    and "table_events w' = insert (li_next s) (table_events w)" and "opened k = opened (li_kernel s)"
  shows "owners_ok opened base (put_client p c k w' ps s)"
proof -
  let ?s = "put_client p c k w' ps s"
  note ce = client_events_client [OF assms(3,4), of c k ps] and own = threads_invD(4) [OF assms(1)]
  have fd: "ev_fd (li_heap ?s e) = (if e = li_next s then c else ev_fd (li_heap s e))" for e
    by (simp add: setWorker_def mk_Event_def)
  have new: "li_next s \<notin> client_events s q" for q using client_event(1) [OF assms(1)] by blast
  have "client_fds ?s = insert c (client_fds s)"
  proof
    show "client_fds ?s \<subseteq> insert c (client_fds s)"
      unfolding client_fds_def fd using ce by (auto split: if_splits)
    have "c \<in> client_fds ?s" using client_fdsI [of "li_next s" ?s p] by (simp add: ce fd setWorker_def mk_Event_def)
    moreover have "ev_fd (li_heap s e) \<in> client_fds ?s" if "e \<in> client_events s q" for e q
    proof -
      from that new [of q] have "e \<in> client_events ?s q" "e \<noteq> li_next s" by (auto simp: ce)
      with client_fdsI [of e ?s q] fd [of e] show ?thesis by simp
    qed
    ultimately show "insert c (client_fds s) \<subseteq> client_fds ?s" by (auto simp: client_fds_def [of s])
  qed
  moreover have "c \<notin> client_fds s" using own assms(2) by (auto simp: owners_ok_def)
  moreover have "e = f" if "e \<in> client_events ?s q" "f \<in> client_events ?s r"
    "ev_fd (li_heap ?s e) = ev_fd (li_heap ?s f)" for e f q r
    using that own client_fdsI [of e s q] client_fdsI [of f s r] \<open>c \<notin> client_fds s\<close>
    unfolding ce fd owners_ok_def by (auto split: if_splits)
  ultimately show ?thesis using own assms(2,5) unfolding owners_ok_def by auto
qed

lemma epoll_inv_heap:
  assumes "epoll_inv interest heap (k, ep)" and "\<And>fd e. (fd, e) \<in> set (ep_events ep) \<Longrightarrow> ev_fd (heap' e) = ev_fd (heap e)"
  shows "epoll_inv interest heap' (k, ep)"
proof -
  have "ev_fd (heap' e) = fd" if "(fd, e) \<in> set (ep_events ep)" for fd e
    using assms(1) assms(2) [OF that] that by (auto simp: epoll_inv_def)
  with assms(1) show ?thesis by (auto simp: epoll_inv_def)
qed

lemma worker_ok_client:
  assumes "threads_inv interest opened base s" and "li_workers s p = Some w"
    and "table_events w' = insert (li_next s) (table_events w)"
    and "epoll_inv interest (li_heap (put_client p c k w' ps s)) (k, wk_poller w')"
    and "ep_epfd (wk_poller w') = ep_epfd (wk_poller w)"
    and "\<And>epfd. epfd \<noteq> ep_epfd (wk_poller w) \<Longrightarrow> interest k epfd = interest (li_kernel s) epfd"
    and "li_workers (put_client p c k w' ps s) q = Some v"
  shows "worker_ok interest base (put_client p c k w' ps s) q v"
proof (cases "q = p")
  case True
  let ?s = "put_client p c k w' ps s"
  have v: "v = w'" using assms(7) True by simp
  note ok = threads_invD(1) [OF assms(1,2)]
  have new: "li_next s \<notin> set (th_batch s p)"
    using client_event(1) [OF assms(1), of _ p] batch_client [OF assms(2)] by blast
  from ok have "batch_ok w (th_work s p) (th_batch s p)" by (simp add: worker_ok_def)
  with new assms(3) have "batch_ok w' (th_work s p) (th_batch s p)"
    by (fastforce simp: batch_ok_def split: work_pc.splits)
  with ok v True assms(4,5) client_event(1) [OF assms(1), of _ p] client_events_client [OF assms(2,3), of c k ps p]
  show ?thesis by (auto simp: worker_ok_def validEpollFD_def setWorker_def less_SucI)
next
  case False
  with assms(7) have q: "li_workers s q = Some v" by simp
  note ok = threads_invD(1) [OF assms(1) q]
  have i: "interest k (ep_epfd (wk_poller v)) = interest (li_kernel s) (ep_epfd (wk_poller v))"
    using assms(6) threads_invD(2) [OF assms(1) q assms(2) False] by simp
  have "e < li_next s" if "e \<in> client_events s q" for e using client_event(1) [OF assms(1) that] .
  moreover have "e \<in> client_events s q" if "(x, e) \<in> set (ep_events (wk_poller v))" for x e
    using table_client [OF q, of e] that by (force simp: table_events_def)
  ultimately have new: "e \<noteq> li_next s" if "(x, e) \<in> set (ep_events (wk_poller v))" for x e using that by blast
  from ok have "epoll_inv interest (li_heap s) (li_kernel s, wk_poller v)" by (simp add: worker_ok_def)
  then have "epoll_inv interest (li_heap (put_client p c k w' ps s)) (li_kernel s, wk_poller v)"
    by (rule epoll_inv_heap) (use new in auto)
  then have "epoll_inv interest (li_heap (put_client p c k w' ps s)) (k, wk_poller v)"
    using i by (simp add: epoll_inv_def)
  moreover have "e < li_next s \<and> ev_worker (li_heap (put_client p c k w' ps s) e) = Some q"
    if "e \<in> client_events (put_client p c k w' ps s) q" for e
    using client_event [OF assms(1), of e q] that False client_events_client [OF assms(2,3), of c k ps q] by auto
  ultimately show ?thesis using ok by (simp add: worker_ok_def less_SucI)
qed

context ample_kernel
begin

lemma listen_add_inv:
  assumes "threads_inv interest opened base s" and "th_listen s = L_Add c i"
  obtains s' where "listen_turn sys lfd s = Inr s'" and "threads_inv interest opened base s'"
    and "li_next s' = Suc (li_next s)"
proof -
  let ?p = "li_ioWorkers s ! i" and ?e = "li_next s"
  let ?heap = "(li_heap s)(?e := mk_Event c EPOLLIN_EPOLLET)"
  let ?ps = "take i (li_ioWorkers s) @ drop (Suc i) (li_ioWorkers s) @ [?p]"
  from threads_invD(3) [OF assms(1)] assms(2) obtain w where
    w: "i < length (li_ioWorkers s)" "li_workers s ?p = Some w" "worker_activeFDS w < worker_maxFDS w"
    by (auto simp: listener_ok_def)
  note ok = threads_invD(1) [OF assms(1) w(2)] and own = threads_invD(4) [OF assms(1)]
  have fd: "ev_fd (?heap ?e) = c" by (simp add: mk_Event_def)
  have c: "c \<in> opened (li_kernel s)" "c \<notin> client_fds s" "ep_epfd (wk_poller w) \<in> opened (li_kernel s)"
    using own ok assms(2) by (auto simp: owners_ok_def worker_ok_def)
  then have ni: "c \<notin> interest (li_kernel s) (ep_epfd (wk_poller w))"
    using interest_clients [OF assms(1) w(2)] by blast
  have "?e \<notin> table_events w" using client_event(1) [OF assms(1) table_client [OF w(2)]] by blast
  then have "e \<noteq> ?e" if "(x, e) \<in> set (ep_events (wk_poller w))" for x e
    using that by (force simp: table_events_def)
  then have ep: "epoll_inv interest ?heap (li_kernel s, wk_poller w)" "validEpollFD (wk_poller w)"
    using ok by (auto simp: worker_ok_def intro!: epoll_inv_heap [of interest "li_heap s"])
  obtain err w' heap' k' where a: "worker_addEvent sys (li_kernel s) ?heap ?p ?e w = (err, w', heap', k')"
    using prod_cases4 by blast
  note add = add_event [where e = ?e, OF ep w(3), unfolded fd, OF ni c(1,3) a]
  let ?s = "put_client ?p c k' w' ?ps s"
  have h: "heap' = li_heap ?s" using add(7) by simp
  have "listen_turn sys lfd s = Inr ?s"
    using assms(2) a w(2) add(1) h by (simp add: listen_turn_def Let_def put_client_def)
  moreover have "threads_inv interest opened base ?s"
    unfolding threads_inv_def
  proof (intro conjI allI impI)
    show "worker_ok interest base ?s q v" if "li_workers ?s q = Some v" for q v
      using worker_ok_client [OF assms(1) w(2) add(2) _ add(4,6), of c ?ps] add(3) h that by simp
    show "ep_epfd (wk_poller v) \<noteq> ep_epfd (wk_poller v')"
      if "li_workers ?s q = Some v" "li_workers ?s r = Some v'" "q \<noteq> r" for q r v v'
      using that threads_invD(2) [OF assms(1)] w(2) add(4) by (auto split: if_splits)
    show "listener_ok ?s"
      using threads_invD(3) [OF assms(1)] w(1) by (auto simp: listener_ok_def dest: in_set_takeD in_set_dropD)
    show "owners_ok opened base ?s"
      using owners_client [OF assms(1) _ w(2) add(2)] assms(2) add(5) by simp
  qed
  ultimately show thesis using that by simp
qed

end

end
