(* ===== verification/Thread_Safety.thy ===== *)
theory Thread_Safety
  imports Server_Threads
begin

text \<open>
  What holds of the threads of \<open>Server_Threads\<close> under every interleaving: every turn returns and keeps
  the ownership of descriptors, the turns of a thread left alone are the handlers of the sequential
  model, and the one race the event layer has.
\<close>

section \<open>Every turn keeps the invariant\<close>

lemma find_worker_live:
  "set ps \<subseteq> dom workers \<Longrightarrow> \<exists>i. find_worker workers ps = Inr i"
proof (induction ps)
  case Nil
  then show ?case by simp
next
  case (Cons p ps)
  then obtain w i where "workers p = Some w" "find_worker workers ps = Inr i" by auto
  then show ?case by simp
qed

lemma put_worker_heap:
  "put_worker p k w b pc (s\<lparr>li_heap := h\<rparr>)
    = s\<lparr>li_kernel := k, li_heap := h, li_workers := (li_workers s)(p \<mapsto> w), th_batch := (th_batch s)(p := b),
        th_work := (th_work s)(p := pc)\<rparr>"
  by (cases s) (simp add: put_worker_def)

context descriptor_kernel
begin

lemma listen_find_inv:
  assumes "threads_inv interest opened base s" and "th_listen s = L_Find c"
  shows "\<exists>s'. listen_turn sys lfd s = Inr s' \<and> threads_inv interest opened base s'"
proof -
  note lo = threads_invD(3) [OF assms(1)] and own = threads_invD(4) [OF assms(1)]
  from lo find_worker_live [of "li_ioWorkers s" "li_workers s"] obtain i where
    i: "find_worker (li_workers s) (li_ioWorkers s) = Inr i" by (auto simp: listener_ok_def)
  show ?thesis
  proof (cases "i = length (li_ioWorkers s)")
    case True
    with i assms(2) drop_hand_inv [OF assms(1), of c] show ?thesis by (simp add: listen_turn_def)
  next
    case False
    let ?s = "s\<lparr>li_kernel := li_kernel s, th_files := th_files s, th_listen := L_Add c i\<rparr>"
    from find_worker_spec [OF i] False lo have "listener_ok (s\<lparr>th_listen := L_Add c i\<rparr>)"
      by (auto simp: listener_ok_def)
    moreover have "owners_ok opened base ?s" using own assms(2) by (simp add: owners_ok_def)
    ultimately have "threads_inv interest opened base ?s" 
      using kernel_step [OF assms(1), of "li_kernel s" "L_Add c i" "th_files s"] by simp
    with i False assms(2) show ?thesis by (simp add: listen_turn_def)
  qed
qed

lemma work_turn_inv:
  assumes "threads_inv interest opened base s"
  shows "\<exists>s'. work_turn sys p s = Inr s' \<and> threads_inv interest opened base s'"
proof (cases "li_workers s p")
  case None
  with assms show ?thesis by (simp add: work_turn_def)
next
  case (Some w)
  show ?thesis
  proof (cases "th_work s p")
    case W_Poll
    obtain err es heap1 k1 where
      p: "worker_eventPoll sys (li_kernel s) (li_heap s) (- 1) w = (err, es, heap1, k1)" using prod_cases4 by blast
    have x: "threads_inv interest opened base (put_worker p (li_kernel s) (worker_stop w) (th_batch s p) W_Exited s)"
      using exit_inv [OF assms Some W_Poll] by simp
    from x poll_inv [OF assms Some W_Poll p] Some W_Poll p show ?thesis
      by (auto simp: work_turn_def put_worker_heap fun_upd_idem) (auto simp: put_worker_def)
  next
    case (W_Handle es)
    show ?thesis
    proof (cases es)
      case Nil
      with handled_inv [OF assms Some] Some W_Handle show ?thesis by (simp add: work_turn_def)
    next
      case (Cons e es')
      with W_Handle have "th_work s p = W_Handle (e # es')" by simp
      from release_inv [OF assms Some this] obtain s' where
        "release_event sys e (s\<lparr>th_work := (th_work s)(p := W_Handle es')\<rparr>) = Inr s'"
        "threads_inv interest opened base s'" by blast
      with Some W_Handle Cons show ?thesis by (simp add: work_turn_def)
    qed
  next
    case W_Clear
    show ?thesis
    proof (cases "th_batch s p")
      case Nil
      with cleared_inv [OF assms Some W_Clear] Some W_Clear show ?thesis by (simp add: work_turn_def)
    next
      case (Cons e es)
      note d = drop_inv [OF assms Some W_Clear Cons]
      from d Some W_Clear Cons show ?thesis
        by (simp add: work_turn_def put_worker_def destroy_Event_def table_events_def fun_upd_idem)
    qed
  next
    case W_Exited
    with Some assms show ?thesis by (simp add: work_turn_def)
  qed
qed

end

context ample_kernel
begin

lemma listen_turn_inv:
  assumes "threads_inv interest opened base s"
  shows "\<exists>s'. listen_turn sys lfd s = Inr s' \<and> threads_inv interest opened base s'"
proof (cases "th_listen s")
  case L_Accept
  obtain c k where a: "sys_accept sys (li_kernel s) lfd = (c, k)" by fastforce
  from accept_inv [OF assms L_Accept a] a L_Accept show ?thesis by (simp add: listen_turn_def)
next
  case (L_Flags c)
  obtain flags k where g: "sys_getfl sys (li_kernel s) c = (flags, k)" by fastforce
  from flags_inv [OF assms L_Flags g] g L_Flags show ?thesis by (simp add: listen_turn_def)
next
  case (L_Find c)
  from listen_find_inv [OF assms this] show ?thesis .
next
  case (L_Add c i)
  from listen_add_inv [OF assms this, of lfd] show ?thesis by blast
qed (use threads_invD(3) [OF assms] in \<open>simp_all add: listener_ok_def\<close>)

end

sublocale ample_kernel \<subseteq> threads: invariant_system "thread_step sys interest opened lfd"
  "threads_inv interest opened base" for lfd base
proof
  fix s t
  assume "threads_inv interest opened base s" and "thread_step sys interest opened lfd s t"
  from this(2,1) show "threads_inv interest opened base t"
  proof (induction rule: thread_step.induct)
    case (listener s s')
    with listen_turn_inv [of base s lfd] show ?case by auto
  next
    case (worker p s s')
    with work_turn_inv [of base s p] show ?case by auto
  next
    case (file_open d s k)
    then show ?case by (intro file_open_inv)
  next
    case (file_close d s)
    then show ?case by (intro file_close_inv)
  qed
qed

section \<open>A server that has just started its threads\<close>

definition threads_start :: "('k \<Rightarrow> int \<Rightarrow> int set) \<Rightarrow> ('k \<Rightarrow> int set) \<Rightarrow> 'k threads \<Rightarrow> bool" where
  "threads_start interest opened s =
     (th_listen s = L_Accept \<and> th_files s = {} \<and> set (li_ioWorkers s) \<subseteq> dom (li_workers s)
      \<and> (\<forall>p w. li_workers s p = Some w \<longrightarrow>
           validEpollFD (wk_poller w) \<and> ep_events (wk_poller w) = [] \<and> 0 \<le> maxFDS (wk_poller w)
           \<and> ep_epfd (wk_poller w) \<in> opened (li_kernel s)
           \<and> interest (li_kernel s) (ep_epfd (wk_poller w)) = {}
           \<and> th_work s p = W_Poll \<and> th_batch s p = [])
      \<and> (\<forall>p q w v. li_workers s p = Some w \<longrightarrow> li_workers s q = Some v \<longrightarrow> p \<noteq> q \<longrightarrow>
           ep_epfd (wk_poller w) \<noteq> ep_epfd (wk_poller v)))"

lemma threads_start_inv:
  assumes "threads_start interest opened s"
  shows "threads_inv interest opened (opened (li_kernel s)) s"
proof -
  have c: "client_events s p = {}" for p
    using assms by (auto simp: client_events_def threads_start_def table_events_def split: option.split)
  then have "client_fds s = {}" by (simp add: client_fds_def)
  with assms c show ?thesis
    by (simp add: threads_inv_def threads_start_def worker_ok_def epoll_inv_def batch_ok_def table_events_def
        listener_ok_def owners_ok_def activeFDS_def)
qed

section \<open>A kernel with descriptors\<close>

text \<open>
  The laws are satisfiable: the state is the list of open descriptors, the interest list of every
  epoll instance and the number of clients that wait; a new descriptor is the successor of the
  largest one.
\<close>

type_synonym fd_kernel = "int list \<times> (int \<Rightarrow> int list) \<times> nat"

definition new_fd :: "int list \<Rightarrow> int" where
  "new_fd ds = foldr max ds 2 + 1"

definition fd_ctl :: "fd_kernel \<Rightarrow> int \<Rightarrow> ctl_op \<Rightarrow> int \<Rightarrow> int \<times> fd_kernel" where
  "fd_ctl k epfd op fd =
     (case k of (ds, il, n) \<Rightarrow>
       (case op of
          EPOLL_CTL_ADD \<Rightarrow> if fd \<in> set ds \<and> epfd \<in> set ds \<and> fd \<notin> set (il epfd)
                          then (0, (ds, il(epfd := il epfd @ [fd]), n)) else (-1, k)
        | EPOLL_CTL_DEL \<Rightarrow> if fd \<in> set (il epfd) then (0, (ds, il(epfd := removeAll fd (il epfd)), n)) else (-1, k)
        | EPOLL_CTL_MOD \<Rightarrow> if fd \<in> set (il epfd) then (0, k) else (-1, k)))"

definition fd_open :: "fd_kernel \<Rightarrow> int \<times> fd_kernel" where
  "fd_open k = (case k of (ds, il, n) \<Rightarrow> (new_fd ds, (new_fd ds # ds, il(new_fd ds := []), n)))"

definition fd_syscalls :: "fd_kernel syscalls" where
  "fd_syscalls = \<lparr>
     epoll_create1 = fd_open,
     epoll_ctl = (\<lambda>k epfd op fd ev. fd_ctl k epfd op fd),
     epoll_wait = (\<lambda>k epfd n t. case k of (ds, il, m) \<Rightarrow>
        if n \<le> 0 then ((-1, []), k)
        else (let xs = take (nat n) (remdups (il epfd)) in ((int (length xs), map (\<lambda>fd. (fd, 1)) xs), k))),
     sys_accept = (\<lambda>k fd. case k of (ds, il, n) \<Rightarrow>
        if n = 0 then (-1, k) else (new_fd ds, (new_fd ds # ds, il, n - 1))),
     sys_getfl = (\<lambda>k fd. (0, k)),
     sys_setfl = (\<lambda>k fd fl. k),
     sys_close = (\<lambda>k fd. case k of (ds, il, n) \<Rightarrow> (removeAll fd ds, \<lambda>epfd. removeAll fd (il epfd), n)),
     sys_socket = fd_open,
     sys_bind = (\<lambda>k fd a p. (0, k)),
     sys_listen = (\<lambda>k fd n. (0, k))\<rparr>"

definition fd_interest :: "fd_kernel \<Rightarrow> int \<Rightarrow> int set" where
  "fd_interest k epfd = set (fst (snd k) epfd)"

definition fd_opened :: "fd_kernel \<Rightarrow> int set" where
  "fd_opened k = set (fst k)"

lemma new_fd: "d \<in> set ds \<Longrightarrow> d < new_fd ds" "3 \<le> new_fd ds"
proof -
  have "(\<forall>d \<in> set ds. d \<le> foldr max ds 2) \<and> 2 \<le> foldr max ds 2" by (induction ds) (auto simp: max_def)
  then show "d \<in> set ds \<Longrightarrow> d < new_fd ds" "3 \<le> new_fd ds" by (auto simp: new_fd_def)
qed

lemma new_fd_fresh [simp]: "new_fd ds \<notin> set ds" "new_fd ds \<noteq> -1"
  using new_fd(1) [of "new_fd ds" ds] new_fd(2) [of ds] by auto

lemmas fd_defs = fd_syscalls_def fd_interest_def fd_opened_def fd_ctl_def fd_open_def

interpretation fdk: ample_kernel fd_syscalls fd_interest fd_opened
proof unfold_locales
  fix k epfd n t num xs k'
  assume w: "epoll_wait fd_syscalls k epfd n t = ((num, xs), k')" "num \<noteq> -1"
  then have xs: "0 < n" "xs = map (\<lambda>fd. (fd, 1)) (take (nat n) (remdups (fst (snd k) epfd)))" "num = int (length xs)"
    by (auto simp: fd_defs Let_def split: if_splits prod.splits)
  then show "distinct (map fst xs)" by (simp add: comp_def distinct_map)
  have "fst ` set xs \<subseteq> fd_interest k epfd"
    unfolding xs(2) fd_interest_def by (auto dest: in_set_takeD)
  with xs show "0 \<le> num \<and> num \<le> n \<and> length xs = nat num \<and> fst ` set xs \<subseteq> fd_interest k epfd" by auto
qed (auto simp: fd_defs Let_def fun_eq_iff split: ctl_op.splits if_splits prod.splits)

section \<open>What every interleaving keeps\<close>

context ample_kernel
begin

lemma run_inv_threads:
  "threads_start interest opened s0 \<Longrightarrow> (thread_step sys interest opened lfd)\<^sup>*\<^sup>* s0 s \<Longrightarrow>
     threads_inv interest opened (opened (li_kernel s0)) s"
  using threads.steps_inv threads_start_inv by blast

text \<open>No turn ends in a null pointer or a failed assertion.\<close>

lemma turns_return:
  assumes "threads_start interest opened s0" and "(thread_step sys interest opened lfd)\<^sup>*\<^sup>* s0 s"
  shows "\<exists>s'. listen_turn sys lfd s = Inr s'" and "\<exists>s'. work_turn sys p s = Inr s'"
  using listen_turn_inv work_turn_inv run_inv_threads [OF assms] by blast+

text \<open>Every open descriptor has one owner.\<close>

lemma owned_once:
  assumes "threads_start interest opened s0" and "(thread_step sys interest opened lfd)\<^sup>*\<^sup>* s0 s"
  shows "opened (li_kernel s) = opened (li_kernel s0) \<union> th_files s \<union> in_hand (th_listen s) \<union> client_fds s"
    and "opened (li_kernel s0) \<inter> (th_files s \<union> in_hand (th_listen s) \<union> client_fds s) = {}"
    and "th_files s \<inter> (in_hand (th_listen s) \<union> client_fds s) = {}"
    and "in_hand (th_listen s) \<inter> client_fds s = {}"
    and "e \<in> client_events s p \<Longrightarrow> f \<in> client_events s q \<Longrightarrow>
      ev_fd (li_heap s e) = ev_fd (li_heap s f) \<Longrightarrow> p = q \<and> e = f"
    and "li_workers s p = Some w \<Longrightarrow>
      fst ` set (ep_events (wk_poller w)) = interest (li_kernel s) (ep_epfd (wk_poller w))"
proof -
  note inv = run_inv_threads [OF assms]
  note own = threads_invD(4) [OF inv]
  show "opened (li_kernel s) = opened (li_kernel s0) \<union> th_files s \<union> in_hand (th_listen s) \<union> client_fds s"
    "opened (li_kernel s0) \<inter> (th_files s \<union> in_hand (th_listen s) \<union> client_fds s) = {}"
    "th_files s \<inter> (in_hand (th_listen s) \<union> client_fds s) = {}" "in_hand (th_listen s) \<inter> client_fds s = {}"
    using own by (auto simp: owners_ok_def)
  show "p = q \<and> e = f" if "e \<in> client_events s p" "f \<in> client_events s q"
    "ev_fd (li_heap s e) = ev_fd (li_heap s f)"
    using own event_owner [OF inv] that unfolding owners_ok_def by blast
  show "fst ` set (ep_events (wk_poller w)) = interest (li_kernel s) (ep_epfd (wk_poller w))"
    if "li_workers s p = Some w"
    using threads_invD(1) [OF inv that] by (auto simp: worker_ok_def epoll_inv_def)
qed

end

text \<open>Two idle workers with the descriptors 3 and 4, the listening socket 5, and two clients that wait.\<close>

definition demo_threads :: "fd_kernel threads" where
  "demo_threads = \<lparr>li_kernel = ([3, 4, 5], \<lambda>_. [], 2), li_heap = (\<lambda>_. mk_Event 0 0), li_next = 0,
     li_workers = [0 \<mapsto> \<lparr>wk_running = True, wk_poller = \<lparr>ep_epfd = 3, ep_maxFDS = 2, ep_events = []\<rparr>\<rparr>,
                   1 \<mapsto> \<lparr>wk_running = True, wk_poller = \<lparr>ep_epfd = 4, ep_maxFDS = 2, ep_events = []\<rparr>\<rparr>],
     li_ioWorkers = [0, 1], th_files = {}, th_listen = L_Accept, th_work = (\<lambda>_. W_Poll),
     th_batch = (\<lambda>_. [])\<rparr>"

text \<open>The first client has been accepted.\<close>

definition demo_hand :: "fd_kernel threads" where
  "demo_hand = demo_threads\<lparr>li_kernel := ([6, 3, 4, 5], \<lambda>_. [], 1), th_listen := L_Flags 6\<rparr>"

text \<open>
  (C35) The two closings of a client that could not be registered are a race: when a handler opens
  a file between them, the kernel may give it the descriptor just freed, and the second \<open>close\<close>
  then closes the file under the handler's hands.
\<close>

theorem failed_add_closes_stranger:
  assumes "descriptor_kernel sys interest opened" and "th_listen s = L_Destroy c"
    and "ev_fd (li_heap s (li_next s)) = c"
    and "opened k = insert c (opened (sys_close sys (li_kernel s) c))"
    and "interest k = interest (sys_close sys (li_kernel s) c)"
  shows "\<exists>s1 s2 s3. thread_step sys interest opened lfd s s1
    \<and> thread_step sys interest opened lfd s1 s2 \<and> c \<in> th_files s2 \<and> c \<in> opened (li_kernel s2)
    \<and> thread_step sys interest opened lfd s2 s3 \<and> c \<in> th_files s3 \<and> c \<notin> opened (li_kernel s3)"
proof -
  let ?s1 = "s\<lparr>li_kernel := sys_close sys (li_kernel s) c, th_listen := L_Close c\<rparr>"
  let ?s2 = "?s1\<lparr>li_kernel := k, th_files := insert c (th_files ?s1)\<rparr>"
  let ?s3 = "?s2\<lparr>li_kernel := sys_close sys k c, th_listen := L_Accept\<rparr>"
  have 1: "thread_step sys interest opened lfd s ?s1"
    using assms(2,3) by (intro listener) (simp add: listen_turn_def destroy_Event_def)
  have "c \<notin> opened (li_kernel ?s1)" using descriptor_kernel.close_opened [OF assms(1)] by simp
  then have 2: "thread_step sys interest opened lfd ?s1 ?s2"
    using assms(4,5) by (intro file_open) simp_all
  have 3: "thread_step sys interest opened lfd ?s2 ?s3"
    by (intro listener) (simp add: listen_turn_def)
  have "c \<notin> opened (li_kernel ?s3)" using descriptor_kernel.close_opened [OF assms(1)] by simp
  moreover have "c \<in> th_files ?s2" "c \<in> opened (li_kernel ?s2)" "c \<in> th_files ?s3" using assms(4) by simp_all
  ultimately show ?thesis using 1 2 3 by blast
qed

theorem failed_add_closes_stranger_witness:
  "\<exists>s1 s2 s3. thread_step fd_syscalls fd_interest fd_opened 5
       (demo_threads\<lparr>li_kernel := ([0, 3, 4, 5], \<lambda>_. [], 1), th_listen := L_Destroy 0\<rparr>) s1
    \<and> thread_step fd_syscalls fd_interest fd_opened 5 s1 s2 \<and> 0 \<in> fd_opened (li_kernel s2)
    \<and> thread_step fd_syscalls fd_interest fd_opened 5 s2 s3 \<and> 0 \<in> th_files s3 \<and> 0 \<notin> fd_opened (li_kernel s3)"
proof -
  let ?s = "demo_threads\<lparr>li_kernel := ([0, 3, 4, 5], \<lambda>_. [], 1), th_listen := L_Destroy 0\<rparr>"
  let ?k = "([0, 3, 4, 5], \<lambda>_. [], 1) :: fd_kernel"
  have "ev_fd (li_heap ?s (li_next ?s)) = 0" "th_listen ?s = L_Destroy 0"
    by (simp_all add: demo_threads_def mk_Event_def)
  moreover have "fd_opened ?k = insert 0 (fd_opened (sys_close fd_syscalls (li_kernel ?s) 0))"
    "fd_interest ?k = fd_interest (sys_close fd_syscalls (li_kernel ?s) 0)"
    by (auto simp: fd_syscalls_def fd_opened_def fd_interest_def fun_eq_iff)
  ultimately show ?thesis
    using failed_add_closes_stranger [OF fdk.descriptor_kernel_axioms, of ?s 0 ?k 5] by blast
qed

section \<open>The turns are the handlers\<close>

text \<open>The listening thread runs on until it accepts again, for at most \<open>n\<close> turns.\<close>

fun listen_finish :: "'k syscalls \<Rightarrow> int \<Rightarrow> nat \<Rightarrow> 'k threads \<Rightarrow> cpp_exception + 'k threads" where
  "listen_finish sys lfd 0 s = Inr s"
| "listen_finish sys lfd (Suc n) s =
     (if th_listen s = L_Accept then Inr s
      else (case listen_turn sys lfd s of Inl x \<Rightarrow> Inl x | Inr s1 \<Rightarrow> listen_finish sys lfd n s1))"

lemma listen_finish_idle [simp]: "th_listen s = L_Accept \<Longrightarrow> listen_finish sys lfd n s = Inr s"
  by (cases n) simp_all

lemma listen_truncate [simp]:
  "listen_state.truncate (s\<lparr>li_kernel := k\<rparr>) = (listen_state.truncate s)\<lparr>li_kernel := k\<rparr>"
  "listen_state.truncate (s\<lparr>li_heap := h\<rparr>) = (listen_state.truncate s)\<lparr>li_heap := h\<rparr>"
  "listen_state.truncate (s\<lparr>li_next := n\<rparr>) = (listen_state.truncate s)\<lparr>li_next := n\<rparr>"
  "listen_state.truncate (s\<lparr>li_workers := ws\<rparr>) = (listen_state.truncate s)\<lparr>li_workers := ws\<rparr>"
  "listen_state.truncate (s\<lparr>li_ioWorkers := ps\<rparr>) = (listen_state.truncate s)\<lparr>li_ioWorkers := ps\<rparr>"
  by (simp_all add: listen_state.truncate_def)

lemma threads_truncate [simp]:
  "listen_state.truncate (s\<lparr>th_listen := pc\<rparr>) = listen_state.truncate (s :: 'k threads)"
  "li_kernel (listen_state.truncate s) = li_kernel s" "li_heap (listen_state.truncate s) = li_heap s"
  "li_next (listen_state.truncate s) = li_next s" "li_workers (listen_state.truncate s) = li_workers s"
  "li_ioWorkers (listen_state.truncate s) = li_ioWorkers s"
  by (simp_all add: listen_state.truncate_def)

text \<open>
  The turns of the listening thread are the body of its loop: left alone with an accepted
  descriptor, its turns, at most five, do exactly what \<open>accept_client\<close> does with it.
\<close>

theorem accept_client_by_turns:
  assumes "th_listen s = L_Flags c"
  shows "accept_client sys c (listen_state.truncate s)
    = map_sum id listen_state.truncate (listen_finish sys lfd 5 s)"
proof -
  obtain flags k1 where g: "sys_getfl sys (li_kernel s) c = (flags, k1)" by fastforce
  show ?thesis
  proof (cases "flags = -1")
    case True
    with g assms show ?thesis by (simp add: accept_client_def listen_turn_def eval_nat_numeral)
  next
    case False
    let ?k2 = "sys_setfl sys k1 c (or flags O_NONBLOCK)"
    show ?thesis
    proof (cases "find_worker (li_workers s) (li_ioWorkers s)")
      case (Inl x)
      with g False assms show ?thesis by (simp add: accept_client_def listen_turn_def eval_nat_numeral)
    next
      case (Inr i)
      let ?heap = "(li_heap s)(li_next s := mk_Event c EPOLLIN_EPOLLET)"
      obtain err w heap1 k3 where a: "worker_addEvent sys ?k2 ?heap (li_ioWorkers s ! i) (li_next s)
          (the (li_workers s (li_ioWorkers s ! i))) = (err, w, heap1, k3)" using prod_cases4 by blast
      consider "i = length (li_ioWorkers s)" | "i \<noteq> length (li_ioWorkers s)" "err = SERVER_OK"
        | "i \<noteq> length (li_ioWorkers s)" "err \<noteq> SERVER_OK" by blast
      then show ?thesis
        using g False Inr a assms
        by cases (simp_all add: accept_client_def listen_turn_def eval_nat_numeral Let_def)
    qed
  qed
qed

theorem accept_client_by_turns_witness:
  "accept_client fd_syscalls 6 (listen_state.truncate demo_hand)
    = map_sum id listen_state.truncate (listen_finish fd_syscalls 5 5 demo_hand)"
  by (rule accept_client_by_turns) (simp add: demo_hand_def)

text \<open>
  The rest of \<open>IOEventHandler::handle\<close> concerns the sockets, the accessor and the static array only:
  on the kernel, the events and the workers a call of it is the release of its event.
\<close>

lemma io_handle_releases:
  assumes "io_handle sys raw un ord rt access e (li_kernel s, li_heap s, w, x) = Some (Inr (k1, heap1, w1, x1))"
    and "ev_worker (li_heap s e) = Some p" and "li_workers s p = Some w"
  shows "heap1 = li_heap s" and "release_event sys e s = Inr (s\<lparr>li_kernel := k1, li_workers := (li_workers s)(p \<mapsto> w1)\<rparr>)"
  using assms by (auto simp: io_handle_def release_event_def Let_def split: option.splits sum.splits prod.splits)

end
