(* ===== verification/Running_Server.thy ===== *)
theory Running_Server
  imports Server_Lifecycle Thread_Safety
begin

text \<open>
  The threads of a server that \<open>Server::start\<close> has started (\<open>Server.cc\<close>): the start makes the state
  the interleavings of \<open>Server_Threads\<close> begin in, so what they keep holds of the running server.
\<close>

section \<open>The kernel while the server starts\<close>

text \<open>
  What starting relies on: a new epoll instance has a descriptor of its own above the standard ones
  and an empty interest list, and neither it nor the making of the listening socket touches the
  interest lists of others.
\<close>

locale server_kernel = ample_kernel sys interest opened
  for sys :: "'k syscalls" and interest :: "'k \<Rightarrow> int \<Rightarrow> int set" and opened :: "'k \<Rightarrow> int set" +
  assumes create_opened: "epoll_create1 sys k = (fd, k') \<Longrightarrow> fd \<noteq> -1 \<Longrightarrow>
        fd \<notin> opened k \<and> 3 \<le> fd \<and> opened k' = insert fd (opened k)"
    and create_interest: "epoll_create1 sys k = (fd, k') \<Longrightarrow> e \<in> opened k \<Longrightarrow> interest k' e = interest k e"
    and socket_frame: "sys_socket sys k = (fd, k') \<Longrightarrow> opened k \<subseteq> opened k'
        \<and> (\<forall>e \<in> opened k. interest k' e = interest k e)"
    and bind_frame: "sys_bind sys k fd a p = (r, k') \<Longrightarrow> opened k' = opened k \<and> interest k' = interest k"
    and listen_frame: "sys_listen sys k fd n = (r, k') \<Longrightarrow> opened k' = opened k \<and> interest k' = interest k"

text \<open>The pollers of the workers are open, empty and different.\<close>

definition pollers_ready :: "('k \<Rightarrow> int \<Rightarrow> int set) \<Rightarrow> ('k \<Rightarrow> int set) \<Rightarrow> 'k \<Rightarrow> Worker list \<Rightarrow> bool" where
  "pollers_ready interest opened k ws =
     (distinct (map (ep_epfd \<circ> wk_poller) ws)
      \<and> (\<forall>w \<in> set ws. validEpollFD (wk_poller w) \<and> ep_epfd (wk_poller w) \<in> opened k
          \<and> interest k (ep_epfd (wk_poller w)) = {}))"

lemma pollers_ready_frame:
  assumes "pollers_ready interest opened k ws" and "opened k \<subseteq> opened k'"
    and "\<And>e. e \<in> opened k \<Longrightarrow> interest k' e = interest k e"
  shows "pollers_ready interest opened k' ws"
  using assms by (auto simp: pollers_ready_def)

context server_kernel
begin

lemma mk_Epoll_opened:
  assumes "mk_Epoll sys k n = (SERVER_OK, ep, k')"
  shows "ep_epfd ep \<notin> opened k" and "validEpollFD ep" and "opened k' = insert (ep_epfd ep) (opened k)"
    and "interest k' (ep_epfd ep) = {}" and "\<And>e. e \<in> opened k \<Longrightarrow> interest k' e = interest k e"
proof -
  from assms have c: "epoll_create1 sys k = (ep_epfd ep, k')" "ep_epfd ep \<noteq> -1"
    by (auto simp: mk_Epoll_def split: prod.splits if_splits)
  from create_opened [OF c] show "ep_epfd ep \<notin> opened k" "validEpollFD ep"
    "opened k' = insert (ep_epfd ep) (opened k)" by (simp_all add: validEpollFD_def)
  show "interest k' (ep_epfd ep) = {}" by (rule create_fresh [OF c])
  show "interest k' e = interest k e" if "e \<in> opened k" for e by (rule create_interest [OF c(1) that])
qed

lemma worker_init_loop_pollers:
  assumes "worker_init_loop en n s = (SERVER_OK, s')" and "se_sys en = sys"
    and "pollers_ready interest opened (sv_kernel s) (sv_ioWorkers s)"
  shows "pollers_ready interest opened (sv_kernel s') (sv_ioWorkers s')"
  using assms(1,3)
proof (induction n arbitrary: s)
  case 0
  then show ?case by simp
next
  case (Suc n)
  obtain e ep k1 where m: "mk_Epoll sys (sv_kernel s) (sint (cf_maxFD (sv_cfg s))) = (e, ep, k1)"
    using prod_cases3 by blast
  let ?s = "s\<lparr>sv_kernel := k1, sv_ioWorkers := sv_ioWorkers s @ [mk_Worker ep]\<rparr>"
  from Suc.prems(1) m assms(2) have ok: "e = SERVER_OK" "worker_init_loop en n ?s = (SERVER_OK, s')"
    by (auto split: if_splits)
  note o = mk_Epoll_opened [OF m [unfolded ok(1)]]
  have "pollers_ready interest opened k1 (sv_ioWorkers s)"
    using pollers_ready_frame [OF Suc.prems(2)] o(3,5) by blast
  with o(1-4) Suc.prems(2) have "pollers_ready interest opened (sv_kernel ?s) (sv_ioWorkers ?s)"
    by (auto simp: pollers_ready_def mk_Worker_def)
  from Suc.IH [OF ok(2) this] show ?case .
qed

lemma initListenSocket_pollers:
  assumes "initListenSocket en s = (SERVER_OK, s')" and "se_sys en = sys"
    and "pollers_ready interest opened (sv_kernel s) ws"
  shows "pollers_ready interest opened (sv_kernel s') ws"
proof -
  obtain fd k1 where 1: "sys_socket sys (sv_kernel s) = (fd, k1)" by fastforce
  obtain flags k2 where 2: "sys_getfl sys k1 fd = (flags, k2)" by fastforce
  let ?k2 = "sys_setfl sys k2 fd (or flags O_NONBLOCK)"
  obtain r3 k3 where 3: "sys_bind sys ?k2 fd (cf_serverAddr (sv_cfg s)) (cf_serverPort (sv_cfg s)) = (r3, k3)"
    by fastforce
  obtain r4 k4 where 4: "sys_listen sys k3 fd (cf_listenQueue (sv_cfg s)) = (r4, k4)" by fastforce
  have k: "sv_kernel s' = k4"
    using assms(1,2) 1 2 3 4 by (auto simp: initListenSocket_def Let_def split: if_splits)
  have "opened k4 = opened k1" "interest k4 = interest k1"
    using getfl_frame [OF 2] setfl_opened [of k2 fd] setfl_interest [of k2 fd] bind_frame [OF 3] listen_frame [OF 4]
    by simp_all
  with socket_frame [OF 1] show ?thesis unfolding k by (intro pollers_ready_frame [OF assms(3)]) auto
qed

lemma initListenWorker_pollers:
  assumes "initListenWorker en s = (SERVER_OK, s')" and "se_sys en = sys"
    and "pollers_ready interest opened (sv_kernel s) ws"
  shows "pollers_ready interest opened (sv_kernel s') ws"
proof -
  obtain e ep k1 where m: "mk_Epoll sys (sv_kernel s) (sint (cf_maxFD (sv_cfg s))) = (e, ep, k1)"
    using prod_cases3 by blast
  let ?heap = "(sv_heap s)(sv_next s := mk_Event (sv_listenFD s) EPOLLIN_EPOLLET)"
  let ?lp = "length (sv_ioWorkers s)"
  obtain e2 w2 heap2 k2 where a: "worker_addEvent sys k1 ?heap ?lp (sv_next s) (mk_Worker ep) = (e2, w2, heap2, k2)"
    using prod_cases4 by blast
  from assms(1,2) m a have ok: "e = SERVER_OK" "e2 = SERVER_OK" "sv_kernel s' = k2"
    by (auto simp: initListenWorker_def Let_def split: if_splits)
  note o = mk_Epoll_opened [OF m [unfolded ok(1)]]
  from a ok(2) obtain fd ev r where
    c: "epoll_ctl sys k1 (ep_epfd ep) EPOLL_CTL_ADD fd ev = (r, k2)" "r \<noteq> -1"
    by (auto simp: worker_addEvent_def epollAddEvent_def mk_Worker_def Let_def split: prod.splits if_splits)
  have "interest k2 d = interest (sv_kernel s) d" if "d \<in> opened (sv_kernel s)" for d
  proof -
    from that o(1) have "d \<noteq> ep_epfd ep" by blast
    with ctl_add [OF c] o(5) [OF that] show ?thesis by simp
  qed
  then show ?thesis
    unfolding ok(3) using ctl_opened [OF c(1)] o(3) by (intro pollers_ready_frame [OF assms(3)]) auto
qed

lemma server_init_pollers:
  assumes "server_init en s = (SERVER_OK, s')" and "se_sys en = sys"
  shows "pollers_ready interest opened (sv_kernel s') (sv_ioWorkers s')"
proof -
  obtain s1 where 1: "initLogger en (server_clean en s) = (SERVER_OK, s1)"
    using assms by (auto simp: server_init_def split: prod.splits if_splits)
  obtain s2 where 2: "initRouter s1 = (SERVER_OK, s2)" by (simp add: initRouter_def)
  obtain s3 where 3: "initResourceAccessor en s2 = (SERVER_OK, s3)"
    using assms 1 2 by (auto simp: server_init_def split: prod.splits if_splits)
  obtain s4 where 4: "initIOWorker en s3 = (SERVER_OK, s4)"
    using assms 1 2 3 by (auto simp: server_init_def split: prod.splits if_splits)
  obtain s5 where 5: "initListenSocket en s4 = (SERVER_OK, s5)"
    using assms 1 2 3 4 by (auto simp: server_init_def split: prod.splits if_splits)
  have 6: "initListenWorker en s5 = (SERVER_OK, s')"
    using assms 1 2 3 4 5 by (simp add: server_init_def)
  have w: "sv_ioWorkers s3 = []"
    using initLogger_OK [OF 1] initResourceAccessor_frame [OF 3] 2 by (auto simp: initRouter_def)
  have "sv_ioWorkers s' = sv_ioWorkers s4"
    using initListenSocket_OK [OF 5] initListenWorker_OK [OF 6] by auto
  moreover have "pollers_ready interest opened (sv_kernel s4) (sv_ioWorkers s4)"
    using worker_init_loop_pollers [OF 4 [unfolded initIOWorker_def] assms(2)] w by (simp add: pollers_ready_def)
  ultimately show ?thesis
    using initListenWorker_pollers [OF 6 assms(2)] initListenSocket_pollers [OF 5 assms(2)] by simp
qed

end

section \<open>The threads of a started server\<close>

text \<open>The listening thread is about to accept, the IO workers are about to poll.\<close>

definition threads_of :: "('k, 'w) Server \<Rightarrow> 'k threads" where
  "threads_of s = listen_state.extend (listen_state_of s)
     \<lparr>th_files = {}, th_listen = L_Accept, th_work = (\<lambda>_. W_Poll), th_batch = (\<lambda>_. [])\<rparr>"

lemma threads_of_simps [simp]:
  "li_kernel (threads_of s) = sv_kernel s" "th_listen (threads_of s) = L_Accept" "th_files (threads_of s) = {}"
  "li_workers (threads_of s) = (\<lambda>p. if p < length (sv_ioWorkers s) then Some (sv_ioWorkers s ! p) else None)"
  "li_ioWorkers (threads_of s) = [0..<length (sv_ioWorkers s)]"
  "th_work (threads_of s) p = W_Poll" "th_batch (threads_of s) p = []"
  by (simp_all add: threads_of_def listen_state.extend_def listen_state_of_def)

lemma started_threads:
  assumes "server_kernel (se_sys en) interest opened" and "server_start en s = (SERVER_OK, s')"
    and "0 \<le> sint (cf_maxFD (sv_cfg s))"
  shows "threads_start interest opened (threads_of s')"
proof -
  from server_start_OK [OF assms(2)] obtain s0 ws lw lw' where
    s0: "server_init en s = (SERVER_OK, s0)" "run_workers en 0 (sv_ioWorkers s0) = (SERVER_OK, ws)"
      "s' = s0\<lparr>sv_ioWorkers := ws, sv_listenWorker := Some lw', sv_running := True\<rparr>" by blast
  have m: "map wk_poller ws = map wk_poller (sv_ioWorkers s0)" using run_workers_OK [OF s0(2)] by simp
  then have "map (ep_epfd \<circ> wk_poller) ws = map (ep_epfd \<circ> wk_poller) (sv_ioWorkers s0)"
    by (metis map_map)
  moreover have "wk_poller ` set ws = wk_poller ` set (sv_ioWorkers s0)" using m by (metis list.set_map)
  moreover note server_kernel.server_init_pollers [OF assms(1) s0(1) refl]
  ultimately have p: "pollers_ready interest opened (sv_kernel s') (sv_ioWorkers s')"
    unfolding pollers_ready_def s0(3) by simp (metis image_iff)
  have e: "ep_events (wk_poller w) = [] \<and> ep_maxFDS (wk_poller w) = sint (cf_maxFD (sv_cfg s))"
    if "w \<in> set (sv_ioWorkers s')" for w
    using server_start_ready(6) [OF assms(2)] that by (simp add: list_all_iff)
  show ?thesis
    using p e assms(3)
    by (auto simp: threads_start_def pollers_ready_def maxFDS_def distinct_conv_nth split: if_splits)
qed

section \<open>A concrete start\<close>

interpretation fdk: server_kernel fd_syscalls fd_interest fd_opened
  by unfold_locales (auto simp: fd_defs new_fd(2) split: prod.splits)

definition fd_env :: "(fd_kernel, (string \<times> string) list) server_env" where
  "fd_env = \<lparr>se_sys = fd_syscalls, se_redis = mem_hiredis,
     se_log = \<lparr>can_open = (\<lambda>p. True), write_ok = (\<lambda>n. True)\<rparr>, se_addr = id, se_port0 = 0,
     se_alive = (\<lambda>i. True)\<rparr>"

definition fd_server :: "(fd_kernel, (string \<times> string) list) Server" where
  "fd_server = (mk_Server None defaultCfg ([0, 1, 2], \<lambda>_. [], 2) [] (mk_AsyncLogger (\<lambda>p. [])) (\<lambda>e. mk_Event 0 0))
     \<lparr>sv_cfg := defaultCfg\<lparr>cf_redisCacheEnable := False, cf_workerNum := 2\<rparr>\<rparr>"

lemma fd_started:
  obtains s' il where "server_start fd_env fd_server = (SERVER_OK, s')" and "sv_accessor s' = Some FileAccessor"
    and "sv_kernel s' = ([6, 5, 4, 3, 0, 1, 2], il, 2)" and "il 3 = []"
    and "sv_ioWorkers s' = [\<lparr>wk_running = True, wk_poller = \<lparr>ep_epfd = 3, ep_maxFDS = 100000, ep_events = []\<rparr>\<rparr>,
      \<lparr>wk_running = True, wk_poller = \<lparr>ep_epfd = 4, ep_maxFDS = 100000, ep_events = []\<rparr>\<rparr>]"
proof -
  have two: "worker_init_loop en 2 s = worker_init_loop en (Suc (Suc 0)) s"
    for en :: "(fd_kernel, (string \<times> string) list) server_env" and s
    by (simp only: numeral_2_eq_2)
  define s' where "s' = snd (server_start fd_env fd_server)"
  have "fst (server_start fd_env fd_server) = SERVER_OK \<and> sv_accessor s' = Some FileAccessor
      \<and> fst (sv_kernel s') = [6, 5, 4, 3, 0, 1, 2] \<and> snd (snd (sv_kernel s')) = 2
      \<and> fst (snd (sv_kernel s')) 3 = []
      \<and> sv_ioWorkers s' = [\<lparr>wk_running = True, wk_poller = \<lparr>ep_epfd = 3, ep_maxFDS = 100000, ep_events = []\<rparr>\<rparr>,
      \<lparr>wk_running = True, wk_poller = \<lparr>ep_epfd = 4, ep_maxFDS = 100000, ep_events = []\<rparr>\<rparr>]"
    by (simp add: s'_def fd_env_def fd_server_def mk_Server_def defaultCfg_def
        server_start_def server_isRunning_def server_init_def server_clean_def initLogger_def
        mk_AsyncLogger_def lg_isRunning_def lg_logFileOn_def setLogFile_def of_is_open_def of_open_def
        initRouter_def initResourceAccessor_def initIOWorker_def initListenSocket_def fd_syscalls_def
        fd_open_def fd_ctl_def new_fd_def initListenWorker_def worker_addEvent_def epollAddEvent_def
        validEpollFD_def activeFDS_def maxFDS_def worker_run_def mk_Event_def setWorker_def
        mk_Epoll_def mk_Worker_def two Let_def)
  with that show thesis unfolding s'_def by (metis prod.collapse)
qed

section \<open>The threads of a started server\<close>



text \<open>One turn after the start: the first client is in the hand of the listening thread.\<close>

lemma fd_first_turn:
  obtains s' t where "server_start fd_env fd_server = (SERVER_OK, s')"
    and "(thread_step (se_sys fd_env) fd_interest fd_opened (sv_listenFD s'))\<^sup>*\<^sup>* (threads_of s') t"
    and "th_listen t = L_Flags 7" and "th_files t = {}" and "fd_opened (sv_kernel s') = {0, 1, 2, 3, 4, 5, 6}"
proof -
  obtain s' il where s': "server_start fd_env fd_server = (SERVER_OK, s')"
    "sv_kernel s' = ([6, 5, 4, 3, 0, 1, 2], il, 2)" by (rule fd_started)
  note k = s'(2)
  let ?t = "(threads_of s')\<lparr>li_kernel := ([7, 6, 5, 4, 3, 0, 1, 2], il, 1), th_listen := L_Flags 7\<rparr>"
  have l: "listen_turn (se_sys fd_env) (sv_listenFD s') (threads_of s') = Inr ?t"
    by (simp add: listen_turn_def fd_env_def fd_syscalls_def k new_fd_def)
  have "(thread_step (se_sys fd_env) fd_interest fd_opened (sv_listenFD s'))\<^sup>*\<^sup>* (threads_of s') ?t"
    by (rule r_into_rtranclp) (rule listener [OF l])
  from that [OF s'(1) this] show thesis by (auto simp: k fd_opened_def)
qed

lemma fd_server_facts:
  "server_kernel (se_sys fd_env) fd_interest fd_opened" "0 \<le> sint (cf_maxFD (sv_cfg fd_server))"
  by (simp_all add: fd_env_def fdk.server_kernel_axioms fd_server_def defaultCfg_def)



end
