(* ===== verification/Concurrent_Server.thy ===== *)
theory Concurrent_Server
  imports Running_Server
begin

text \<open>
  The running server with its clients: the threads of \<open>Server_Threads\<close> whose workers run the whole
  of \<open>IOEventHandler::handle\<close> on the sockets of their clients, with the router and the accessor the
  server has made, while the network delivers further bytes. A call of the handler is one step;
  what threads do to each other inside it is the subject of \<open>Shared_Response\<close> and \<open>Shared_Request\<close>.
\<close>

section \<open>The accessor of the server\<close>

text \<open>The virtual call of \<open>access\<close> on the accessor the server holds.\<close>

definition server_access :: "'w hiredis \<Rightarrow> file_system \<Rightarrow> 'w server_accessor accessor" where
  "server_access hi fs acc sr =
     (case acc of
        FileAccessor \<Rightarrow> (case file_access fs sr of (r, e) \<Rightarrow> Some (Inr (r, e, FileAccessor)))
      | CachedResourceAccessor cache \<Rightarrow>
          map_option (map_sum id (\<lambda>(r, e, c). (r, e, CachedResourceAccessor c)))
            (cached_access (RedisCache_ops hi) fs cache sr))"

definition accessor_ok ::
  "('w \<Rightarrow> string \<rightharpoonup> string) \<Rightarrow> (string \<Rightarrow> string option) \<Rightarrow> 'w server_accessor \<Rightarrow> bool" where
  "accessor_ok data files acc =
     (case acc of
        FileAccessor \<Rightarrow> True
      | CachedResourceAccessor cache \<Rightarrow> cache_coherent (cached_data data) plain_key cache_inv files cache)"

lemma server_access_accessor:
  assumes "redis_server hi data" and "fs_sound fs"
  shows "resource_accessor (server_access hi fs) (fs_files fs) plain_key (accessor_ok data (fs_files fs))"
proof -
  note f = resource_accessor_FileAccessor [OF assms(2)] and c = redis_server.accessor [OF assms]
  show ?thesis
  proof
    fix a :: "'a server_accessor" and sr bytes
    assume p: "accessor_ok data (fs_files fs) a" "plain_key (getPath sr)"
    {
      assume "fs_files fs (getPath sr) = Some bytes"
      with resource_accessor.access_found [OF f _ _ this, of "()"] resource_accessor.access_found [OF c _ p(2) this] p(1)
      show "\<exists>r a'. server_access hi fs a sr = Some (Inr (Some r, SERVER_OK, a'))
          \<and> accessor_ok data (fs_files fs) a' \<and> rd_sound r \<and> rd_data r = bytes"
        by (cases a) (fastforce simp: server_access_def accessor_ok_def FileAccessor_access_def split: prod.splits)+
    next
      assume "fs_files fs (getPath sr) = None"
      with resource_accessor.access_missing [OF f _ _ this, of "()"] resource_accessor.access_missing [OF c _ p(2) this] p(1)
      show "\<exists>e a'. server_access hi fs a sr = Some (Inr (None, e, a'))
          \<and> accessor_ok data (fs_files fs) a' \<and> e \<noteq> SERVER_OK"
        by (cases a) (fastforce simp: server_access_def accessor_ok_def FileAccessor_access_def split: prod.splits)+
    }
  qed
qed

lemma router_paths_plain:
  "plain_key (getPath (ir_uri (as_IRouter mk_Router) uri))"
  "plain_key (getPath (ir_code (as_IRouter mk_Router) code))"
  by (auto simp: as_IRouter_def router_at_uri_mk router_at_code_mk plain_key_def)

lemma server_responder:
  assumes "redis_server hi data" and "fs_sound fs"
  shows "responder (as_IRouter mk_Router) (server_access hi fs) (fs_files fs) plain_key
    (accessor_ok data (fs_files fs))"
  by (intro responder.intro responder_axioms.intro static_router_Router [OF mk_Router_wf]
      server_access_accessor [OF assms] router_paths_plain)

section \<open>The steps\<close>

text \<open>
  A turn of a worker: the handler runs on the next event of the batch, on everything else the
  worker moves as in \<open>work_turn\<close>. \<open>None\<close> is a handler that does not return.
\<close>

definition serve_turn ::
  "'k syscalls \<Rightarrow> carray \<Rightarrow> indeterminate \<Rightarrow> (header_t \<Rightarrow> header_t) \<Rightarrow> IRouter \<Rightarrow> 'a accessor \<Rightarrow> worker_ptr
    \<Rightarrow> 'k threads \<times> 'a io_env \<Rightarrow> ('k threads \<times> 'a io_env) run" where
  "serve_turn sys raw un ord rt access p sx =
     (case sx of (s, x) \<Rightarrow>
       (case (li_workers s p, th_work s p) of
          (Some w, W_Handle (e # es)) \<Rightarrow>
            (case io_handle sys raw un ord rt access e (li_kernel s, li_heap s, w, x) of
               None \<Rightarrow> None
             | Some (Inl z) \<Rightarrow> Some (Inl z)
             | Some (Inr (k1, heap1, w1, x1)) \<Rightarrow>
                 Some (Inr (s\<lparr>li_kernel := k1, li_heap := heap1, li_workers := (li_workers s)(p \<mapsto> w1),
                              th_work := (th_work s)(p := W_Handle es)\<rparr>, x1)))
        | _ \<Rightarrow> Some (map_sum id (\<lambda>s'. (s', x)) (work_turn sys p s))))"

text \<open>An accepted descriptor is a new connection on which nothing has been sent.\<close>

definition connected :: "'k threads \<Rightarrow> 'k threads \<Rightarrow> socket \<Rightarrow> 'a io_env \<Rightarrow> 'a io_env" where
  "connected s s' sk x = x\<lparr>io_sockets := (\<lambda>fd. if th_listen s = L_Accept \<and> fd \<in> in_hand (th_listen s')
     then sk\<lparr>sk_tx := []\<rparr> else io_sockets x fd)\<rparr>"

inductive serving_step ::
  "'k syscalls \<Rightarrow> ('k \<Rightarrow> int \<Rightarrow> int set) \<Rightarrow> ('k \<Rightarrow> int set) \<Rightarrow> int \<Rightarrow> (header_t \<Rightarrow> header_t) \<Rightarrow> IRouter \<Rightarrow> 'a accessor
    \<Rightarrow> 'k threads \<times> 'a io_env \<Rightarrow> 'k threads \<times> 'a io_env \<Rightarrow> bool"
  for sys interest opened lfd ord rt access where
  accepting: "listen_turn sys lfd s = Inr s' \<Longrightarrow>
    serving_step sys interest opened lfd ord rt access (s, x) (s', connected s s' sk x)"
| serving: "serve_turn sys raw un ord rt access p (s, x) = Some (Inr sx) \<Longrightarrow>
    serving_step sys interest opened lfd ord rt access (s, x) sx"
| arriving: "serving_step sys interest opened lfd ord rt access (s, x)
    (s, x\<lparr>io_sockets := (io_sockets x)(fd := (io_sockets x fd)\<lparr>sk_rx := sk_rx (io_sockets x fd) @ [seg]\<rparr>)\<rparr>)"
| file_opened: "d \<notin> opened (li_kernel s) \<Longrightarrow> opened k = insert d (opened (li_kernel s)) \<Longrightarrow>
    interest k = interest (li_kernel s) \<Longrightarrow>
    serving_step sys interest opened lfd ord rt access (s, x) (s\<lparr>li_kernel := k, th_files := insert d (th_files s)\<rparr>, x)"
| file_closed: "d \<in> th_files s \<Longrightarrow>
    serving_step sys interest opened lfd ord rt access (s, x)
      (s\<lparr>li_kernel := sys_close sys (li_kernel s) d, th_files := th_files s - {d}\<rparr>, x)"

section \<open>The serving threads are the threads\<close>

lemma io_handle_frame:
  assumes "io_handle sys raw un ord rt access e (k, heap, w, x) = Some (Inr (k1, heap1, w1, x1))"
  obtains inp out a buf err where
    "io_loop un ord rt access (mk_SocketInputStream (mk_SocketStreamBuffer raw (io_sockets x (ev_fd (heap e)))),
       mk_SocketOutputStream (mk_SocketStreamBuffer raw (io_sockets x (ev_fd (heap e)))), io_accessor x, io_buf x)
     = Some (Inr (inp, out, a, buf))"
    and "io_accessor x1 = a" and "worker_delEvent sys k heap e w = (err, w1, k1)" and "heap1 = heap"
    and "\<And>fd. fd \<noteq> ev_fd (heap e) \<Longrightarrow> io_sockets x1 fd = io_sockets x fd"
  using assms by (auto simp: io_handle_def Let_def split: option.splits sum.splits prod.splits if_splits)

text \<open>The worker of the next event is the one that handles it, and the event is in its table.\<close>

lemma handled_event:
  assumes "threads_inv interest opened base s" and "li_workers s p = Some w" and "th_work s p = W_Handle (e # es)"
  shows "ev_worker (li_heap s e) = Some p" and "e \<in> table_events w" and "e \<in> client_events s p"
    and "(ev_fd (li_heap s e), e) \<in> set (ep_events (wk_poller w))"
proof -
  note ok = threads_invD(1) [OF assms(1,2)]
  then show t: "e \<in> table_events w" using assms(3) by (auto simp: worker_ok_def batch_ok_def)
  then show c: "e \<in> client_events s p" by (rule table_client [OF assms(2)])
  then show "ev_worker (li_heap s e) = Some p" by (rule client_event(2) [OF assms(1)])
  from t ok show "(ev_fd (li_heap s e), e) \<in> set (ep_events (wk_poller w))"
    by (force simp: table_events_def worker_ok_def epoll_inv_def)
qed

lemma serve_turn_simulates:
  assumes "threads_inv interest opened base s"
    and "serve_turn sys raw un ord rt access p (s, x) = Some (Inr (s', x'))"
  shows "work_turn sys p s = Inr s'"
proof (cases "\<exists>w e es. li_workers s p = Some w \<and> th_work s p = W_Handle (e # es)")
  case True
  then obtain w e es where w: "li_workers s p = Some w" "th_work s p = W_Handle (e # es)" by blast
  with assms(2) obtain k1 heap1 w1 where
    h: "io_handle sys raw un ord rt access e (li_kernel s, li_heap s, w, x) = Some (Inr (k1, heap1, w1, x'))"
      "s' = s\<lparr>li_kernel := k1, li_heap := heap1, li_workers := (li_workers s)(p \<mapsto> w1),
              th_work := (th_work s)(p := W_Handle es)\<rparr>"
    by (auto simp: serve_turn_def split: option.splits sum.splits)
  note e = handled_event(1) [OF assms(1) w]
  from io_handle_frame [OF h(1)] obtain err where "worker_delEvent sys (li_kernel s) (li_heap s) e w = (err, w1, k1)"
    "heap1 = li_heap s" by metis
  with w e h(2) show ?thesis by (cases s) (simp add: work_turn_def release_event_def)
next
  case False
  then have "serve_turn sys raw un ord rt access p (s, x) = Some (map_sum id (\<lambda>s'. (s', x)) (work_turn sys p s))"
    by (auto simp: serve_turn_def split: option.split work_pc.split list.split)
  with assms(2) show ?thesis by (cases "work_turn sys p s") auto
qed

lemma serving_step_simulates:
  assumes "serving_step sys interest opened lfd ord rt access (s, x) (s', x')"
    and "threads_inv interest opened base s"
  shows "s' = s \<or> thread_step sys interest opened lfd s s'"
  using assms(1)
proof cases
  case (serving raw un p)
  with serve_turn_simulates [OF assms(2)] show ?thesis by (blast intro: thread_step.worker)
qed (auto intro: thread_step.intros)

section \<open>Nobody writes to a client before its handler\<close>

text \<open>The descriptors of the clients no handler has seen: in the listening thread's hand or in a table.\<close>

definition poller_fds :: "Worker \<Rightarrow> int set" where
  "poller_fds w = fst ` set (ep_events (wk_poller w))"

definition unserved :: "'k threads \<Rightarrow> int set" where
  "unserved s = in_hand (th_listen s) \<union> (\<Union>p. case li_workers s p of None \<Rightarrow> {} | Some w \<Rightarrow> poller_fds w)"

lemma unserved_mono:
  assumes "in_hand (th_listen s') \<subseteq> in_hand (th_listen s) \<union> D"
    and "\<And>p w'. li_workers s' p = Some w' \<Longrightarrow>
      \<exists>w. li_workers s p = Some w \<and> poller_fds w' \<subseteq> poller_fds w \<union> in_hand (th_listen s)"
  shows "unserved s' \<subseteq> unserved s \<union> D"
proof
  fix d
  assume "d \<in> unserved s'"
  then consider "d \<in> in_hand (th_listen s')" | p w' where "li_workers s' p = Some w'" "d \<in> poller_fds w'"
    by (auto simp: unserved_def split: option.splits)
  then show "d \<in> unserved s \<union> D"
  proof cases
    case 1
    with assms(1) show ?thesis by (auto simp: unserved_def)
  next
    case 2
    from assms(2) [OF 2(1)] 2(2) obtain w where "li_workers s p = Some w"
      "d \<in> poller_fds w \<or> d \<in> in_hand (th_listen s)" by blast
    then show ?thesis by (auto simp: unserved_def intro!: exI [of _ p])
  qed
qed

lemma unserved_same:
  assumes "th_listen s' = th_listen s" and "li_workers s' = li_workers s"
  shows "unserved s' = unserved s"
  using assms by (simp add: unserved_def)

lemma poller_fds_keys: "poller_fds w = set (map fst (ep_events (wk_poller w)))"
  by (simp add: poller_fds_def)

lemma add_poller_fds:
  "worker_addEvent sys k heap p e w = (err, w1, heap1, k1) \<Longrightarrow> poller_fds w1 \<subseteq> insert (ev_fd (heap e)) (poller_fds w)"
  by (auto simp: worker_addEvent_def epollAddEvent_def poller_fds_keys setWorker_def Let_def AList.update_keys
      simp del: set_map list.set_map split: prod.splits if_splits)

lemma stop_poller_fds [simp]: "poller_fds (worker_stop w) = poller_fds w"
  by (simp add: poller_fds_def worker_stop_def)

lemma del_poller_fds:
  assumes "worker_delEvent sys k heap e w = (err, w1, k1)"
  shows "poller_fds w1 \<subseteq> poller_fds w"
  using assms
  by (auto simp: worker_delEvent_def epollDelEvent_def poller_fds_keys Let_def AList.delete_keys
      simp del: set_map list.set_map split: prod.splits if_splits)

lemma listen_turn_unserved:
  assumes "threads_inv interest opened base s" and "listen_turn sys lfd s = Inr s'"
  shows "unserved s' \<subseteq> unserved s \<union> (if th_listen s = L_Accept then in_hand (th_listen s') else {})"
proof (cases "\<exists>c i. th_listen s = L_Add c i")
  case True
  then obtain c i where c: "th_listen s = L_Add c i" by blast
  with threads_invD(3) [OF assms(1)] obtain w where w: "li_workers s (li_ioWorkers s ! i) = Some w"
    by (auto simp: listener_ok_def)
  let ?heap = "(li_heap s)(li_next s := mk_Event c EPOLLIN_EPOLLET)"
  obtain err w1 heap1 k1 where
    a: "worker_addEvent sys (li_kernel s) ?heap (li_ioWorkers s ! i) (li_next s) w = (err, w1, heap1, k1)"
    using prod_cases4 by blast
  from add_poller_fds [OF a] have sub: "poller_fds w1 \<subseteq> poller_fds w \<union> in_hand (th_listen s)"
    using c by (simp add: mk_Event_def)
  have "li_workers s' = (li_workers s)(li_ioWorkers s ! i \<mapsto> w1)" "in_hand (th_listen s') \<subseteq> in_hand (th_listen s)"
    using assms(2) a c w by (auto simp: listen_turn_def Let_def split: if_splits)
  then have "unserved s' \<subseteq> unserved s \<union> {}" using sub w by (intro unserved_mono) (auto split: if_splits)
  with c show ?thesis by simp
next
  case False
  with assms(2) have "li_workers s' = li_workers s"
    "in_hand (th_listen s') \<subseteq> in_hand (th_listen s) \<union> (if th_listen s = L_Accept then in_hand (th_listen s') else {})"
    by (auto simp: listen_turn_def split: listen_pc.splits prod.splits if_splits sum.splits)
  then show ?thesis by (intro unserved_mono) auto
qed

lemma work_turn_unserved:
  assumes "work_turn sys p s = Inr s'" and "\<nexists>e es. th_work s p = W_Handle (e # es)"
  shows "unserved s' \<subseteq> unserved s"
proof -
  have "in_hand (th_listen s') = in_hand (th_listen s)"
    "li_workers s' q = Some w' \<Longrightarrow> \<exists>w. li_workers s q = Some w \<and> poller_fds w' \<subseteq> poller_fds w" for q w'
    using assms
    by (auto simp: work_turn_def split: option.splits work_pc.splits list.splits if_splits prod.splits)
  then have "unserved s' \<subseteq> unserved s \<union> {}" by (intro unserved_mono) blast+
  then show ?thesis by simp
qed


text \<open>What a call of the handler does to the threads when it returns.\<close>

lemma serve_handle:
  assumes "serve_turn sys raw un ord rt access p (s, x) = Some (Inr (s', x'))"
    and "li_workers s p = Some w" and "th_work s p = W_Handle (e # es)"
  obtains inp out buf err w1 k1 where
    "io_loop un ord rt access (mk_SocketInputStream (mk_SocketStreamBuffer raw (io_sockets x (ev_fd (li_heap s e)))),
       mk_SocketOutputStream (mk_SocketStreamBuffer raw (io_sockets x (ev_fd (li_heap s e)))), io_accessor x, io_buf x)
     = Some (Inr (inp, out, io_accessor x', buf))"
    and "worker_delEvent sys (li_kernel s) (li_heap s) e w = (err, w1, k1)"
    and "\<And>fd. fd \<noteq> ev_fd (li_heap s e) \<Longrightarrow> io_sockets x' fd = io_sockets x fd"
    and "li_workers s' = (li_workers s)(p \<mapsto> w1)" and "li_heap s' = li_heap s" and "th_listen s' = th_listen s"
    and "th_batch s' = th_batch s"
proof -
  from assms obtain k1 heap1 w1 where
    h: "io_handle sys raw un ord rt access e (li_kernel s, li_heap s, w, x) = Some (Inr (k1, heap1, w1, x'))"
      "s' = s\<lparr>li_kernel := k1, li_heap := heap1, li_workers := (li_workers s)(p \<mapsto> w1),
              th_work := (th_work s)(p := W_Handle es)\<rparr>"
    by (auto simp: serve_turn_def split: option.splits sum.splits)
  from io_handle_frame [OF h(1)] obtain inp out buf err where
    "io_loop un ord rt access (mk_SocketInputStream (mk_SocketStreamBuffer raw (io_sockets x (ev_fd (li_heap s e)))),
       mk_SocketOutputStream (mk_SocketStreamBuffer raw (io_sockets x (ev_fd (li_heap s e)))), io_accessor x, io_buf x)
     = Some (Inr (inp, out, io_accessor x', buf))"
    "worker_delEvent sys (li_kernel s) (li_heap s) e w = (err, w1, k1)" "heap1 = li_heap s"
    "\<And>fd. fd \<noteq> ev_fd (li_heap s e) \<Longrightarrow> io_sockets x' fd = io_sockets x fd" by metis
  with that h(2) show thesis by simp
qed

lemma serve_idle:
  assumes "serve_turn sys raw un ord rt access p (s, x) = Some (Inr (s', x'))"
    and "\<nexists>w e es. li_workers s p = Some w \<and> th_work s p = W_Handle (e # es)"
  shows "work_turn sys p s = Inr s'" and "x' = x"
proof -
  have "serve_turn sys raw un ord rt access p (s, x) = Some (map_sum id (\<lambda>s'. (s', x)) (work_turn sys p s))"
    using assms(2) by (auto simp: serve_turn_def split: option.split work_pc.split list.split)
  with assms(1) show "work_turn sys p s = Inr s'" "x' = x" by (cases "work_turn sys p s"; auto)+
qed

lemma table_fd: "epoll_inv interest heap (k, ep) \<Longrightarrow> (d, f) \<in> set (ep_events ep) \<Longrightarrow> ev_fd (heap f) = d"
  by (auto simp: epoll_inv_def)

context descriptor_kernel
begin

text \<open>A client that has been handled is out of every table.\<close>

lemma served_unserved:
  assumes "threads_inv interest opened base s" and "li_workers s p = Some w" and "th_work s p = W_Handle (e # es)"
    and "serve_turn sys raw un ord rt access p (s, x) = Some (Inr (s', x'))"
  shows "unserved s' \<subseteq> unserved s - {ev_fd (li_heap s e)}"
proof -
  note e = handled_event [OF assms(1-3)] and ok = threads_invD(1) [OF assms(1,2)]
  obtain err w1 k1 where
    d: "worker_delEvent sys (li_kernel s) (li_heap s) e w = (err, w1, k1)"
      "li_workers s' = (li_workers s)(p \<mapsto> w1)" "li_heap s' = li_heap s" "th_listen s' = th_listen s"
      "th_batch s' = th_batch s"
    using serve_handle [OF assms(4,2,3)] by metis
  from ok have ep: "epoll_inv interest (li_heap s) (li_kernel s, wk_poller w)" "validEpollFD (wk_poller w)"
    by (simp_all add: worker_ok_def)
  note del = del_event [OF ep e(2) d(1)]
  have "unserved s' \<subseteq> unserved s \<union> {}"
    using d(2,4) assms(2) del_poller_fds [OF d(1)] by (intro unserved_mono) (auto split: if_splits)
  moreover have "ev_fd (li_heap s e) \<notin> unserved s'"
  proof
    note own = threads_invD(4) [OF assms(1), unfolded owners_ok_def]
    assume "ev_fd (li_heap s e) \<in> unserved s'"
    moreover have "ev_fd (li_heap s e) \<notin> in_hand (th_listen s')" 
      using own client_fdsI [OF e(3)] d(4) by auto
    ultimately obtain q v where v: "li_workers s' q = Some v" "ev_fd (li_heap s e) \<in> poller_fds v"
      by (auto simp: unserved_def split: option.splits)
    then obtain f where f: "(ev_fd (li_heap s e), f) \<in> set (ep_events (wk_poller v))"
      by (auto simp: poller_fds_def)
    obtain v0 where v0: "li_workers s q = Some v0" using v(1) d(2) assms(2) by (cases "q = p") auto
    have t: "f \<in> table_events v" using f by (force simp: table_events_def)
    have "f \<in> table_events v0 \<and> (q = p \<longrightarrow> f \<noteq> e) \<and> ev_fd (li_heap s f) = ev_fd (li_heap s e)"
    proof (cases "q = p")
      case True
      with v(1) d(2) v0 assms(2) have "v = w1" "v0 = w" by simp_all
      with t del(2) table_fd [OF del(3)] f show ?thesis by simp
    next
      case False
      with v(1) d(2) v0 have "v = v0" by simp
      moreover have "epoll_inv interest (li_heap s) (li_kernel s, wk_poller v0)"
        using threads_invD(1) [OF assms(1) v0] by (simp add: worker_ok_def)
      ultimately show ?thesis using t table_fd [of interest "li_heap s" "li_kernel s" "wk_poller v0"] f False by simp
    qed
    moreover from this have "f \<in> client_events s q" using table_client [OF v0] by blast
    ultimately show False using own e(3) event_owner [OF assms(1)] by metis
  qed
  ultimately show ?thesis by blast
qed

end

context responder
begin

lemma io_loop_keeps_ok:
  assumes "io_loop un ord rt access (inp, out, a, buf) = Some (Inr (inp1, out1, a1, buf1))" and "ok a"
  shows "ok a1"
proof -
  let ?P = "\<lambda>(un :: indeterminate) (ord :: header_t \<Rightarrow> header_t) rt' access' (s :: 'a io_state)
    (r :: cpp_exception + 'a io_state). rt' = rt \<longrightarrow> access' = access \<longrightarrow>
    ok (fst (snd (snd s))) \<longrightarrow> (\<forall>t. r = Inr t \<longrightarrow> ok (fst (snd (snd t))))"
  have "?P un ord rt access (inp, out, a, buf) (Inr (inp1, out1, a1, buf1))"
  proof (rule io_loop.raw_induct [where P = ?P, OF _ assms(1)], intro impI)
    fix f un ord rt' access' s and r :: "cpp_exception + 'a io_state"
    assume IH: "\<And>un ord rt' access' s r. f un ord rt' access' s = Some r \<Longrightarrow> ?P un ord rt' access' s r"
      and eq: "(case s of (inp, out, a, buf) \<Rightarrow>
        if is_eof inp then Some (Inr s)
        else (case getOneHttpRequest inp of
                None \<Rightarrow> None
              | Some (Inl x) \<Rightarrow> Some (Inl x)
              | Some (Inr (req, error, inp1)) \<Rightarrow>
                  if error = SERVER_OK
                  then (case getResponseFromRequest un rt' access' a req of
                          None \<Rightarrow> None
                        | Some (Inl x) \<Rightarrow> Some (Inl x)
                        | Some (Inr (res, a1)) \<Rightarrow>
                            (case response ord buf out res of
                               None \<Rightarrow> None
                             | Some (Inl x) \<Rightarrow> Some (Inl x)
                             | Some (Inr (error1, res1, buf1, out1)) \<Rightarrow>
                                 f un ord rt' access' (inp1, out1, a1, buf1)))
                  else f un ord rt' access' (inp1, out, a, buf))) = Some r"
      and p: "rt' = rt" "access' = access" and "ok (fst (snd (snd s)))"
    then obtain inp out a buf where s: "s = (inp, out, a, buf)" "ok a" by (cases s) auto
    have g: "ok a1" if "getResponseFromRequest un rt access a req = Some (Inr (res, a1))" for req res a1
      using getResponse_answers [OF s(2), of un req] that by auto
    from eq s g p show "\<forall>t. r = Inr t \<longrightarrow> ok (fst (snd (snd t)))"
      by (auto split: option.splits sum.splits if_splits dest!: IH)
  qed
  with assms(2) show ?thesis by simp
qed

end


section \<open>What every interleaving keeps\<close>

definition serving_inv ::
  "('k \<Rightarrow> int \<Rightarrow> int set) \<Rightarrow> ('k \<Rightarrow> int set) \<Rightarrow> int set \<Rightarrow> ('a \<Rightarrow> bool) \<Rightarrow> 'k threads \<times> 'a io_env \<Rightarrow> bool" where
  "serving_inv interest opened base ok sx =
     (case sx of (s, x) \<Rightarrow> threads_inv interest opened base s \<and> ok (io_accessor x)
        \<and> (\<forall>fd \<in> unserved s. sk_tx (io_sockets x fd) = []))"

locale serving_threads = ample_kernel sys interest opened + responder rt access files good_path ok
  for sys :: "'k syscalls" and interest opened and rt :: IRouter and access :: "'a accessor"
    and files good_path ok
begin

lemma serve_turn_inv:
  assumes "serving_inv interest opened base ok (s, x)"
    and "serve_turn sys raw un ord rt access p (s, x) = Some (Inr (s', x'))"
  shows "serving_inv interest opened base ok (s', x')"
proof -
  from assms(1) have inv: "threads_inv interest opened base s" "ok (io_accessor x)"
    and tx: "\<And>fd. fd \<in> unserved s \<Longrightarrow> sk_tx (io_sockets x fd) = []" by (auto simp: serving_inv_def)
  have inv': "threads_inv interest opened base s'"
    using work_turn_inv [OF inv(1), of p] serve_turn_simulates [OF inv(1) assms(2)] by auto
  show ?thesis
  proof (cases "\<exists>w e es. li_workers s p = Some w \<and> th_work s p = W_Handle (e # es)")
    case True
    then obtain w e es where w: "li_workers s p = Some w" "th_work s p = W_Handle (e # es)" by blast
    obtain inp out buf where
      l: "io_loop un ord rt access (mk_SocketInputStream (mk_SocketStreamBuffer raw (io_sockets x (ev_fd (li_heap s e)))),
          mk_SocketOutputStream (mk_SocketStreamBuffer raw (io_sockets x (ev_fd (li_heap s e)))), io_accessor x, io_buf x)
          = Some (Inr (inp, out, io_accessor x', buf))"
        "\<And>fd. fd \<noteq> ev_fd (li_heap s e) \<Longrightarrow> io_sockets x' fd = io_sockets x fd"
      using serve_handle [OF assms(2) w] by metis
    note u = served_unserved [OF inv(1) w assms(2)]
    have "sk_tx (io_sockets x' fd) = []" if "fd \<in> unserved s'" for fd
    proof -
      from that u have "fd \<in> unserved s" "fd \<noteq> ev_fd (li_heap s e)" by blast+
      with l(2) tx show ?thesis by simp
    qed
    with io_loop_keeps_ok [OF l(1) inv(2)] inv' show ?thesis by (simp add: serving_inv_def)
  next
    case False
    note i = serve_idle [OF assms(2) False]
    have "unserved s' \<subseteq> unserved s"
    proof (cases "li_workers s p")
      case None
      with i(1) show ?thesis by (simp add: work_turn_def)
    next
      case (Some w)
      with False work_turn_unserved [OF i(1)] show ?thesis by blast
    qed
    with i(2) inv inv' tx show ?thesis by (auto simp: serving_inv_def)
  qed
qed

lemma accepting_inv:
  assumes "serving_inv interest opened base ok (s, x)" and "listen_turn sys lfd s = Inr s'"
  shows "serving_inv interest opened base ok (s', connected s s' sk x)"
proof -
  from assms(1) have inv: "threads_inv interest opened base s" by (simp add: serving_inv_def)
  have "threads_inv interest opened base s'" using listen_turn_inv [OF inv, of lfd] assms(2) by auto
  with listen_turn_unserved [OF inv assms(2)] assms(1) show ?thesis
    by (fastforce simp: serving_inv_def connected_def split: if_splits)
qed

end

sublocale serving_threads \<subseteq> served: invariant_system "serving_step sys interest opened lfd ord rt access"
  "serving_inv interest opened base ok" for lfd ord base
proof
  fix sx ty
  assume "serving_inv interest opened base ok sx" and "serving_step sys interest opened lfd ord rt access sx ty"
  from this(2,1) show "serving_inv interest opened base ok ty"
  proof (induction rule: serving_step.induct)
    case (accepting s s' x sk)
    then show ?case by (intro accepting_inv)
  next
    case (serving raw un p s x sx)
    then show ?case by (cases sx) (auto intro: serve_turn_inv)
  next
    case (arriving s x fd seg)
    then show ?case by (auto simp: serving_inv_def)
  next
    case (file_opened d s k x)
    then show ?case using file_open_inv [of base s d k] by (auto simp: serving_inv_def unserved_def)
  next
    case (file_closed d s x)
    then show ?case using file_close_inv [of base s d] by (auto simp: serving_inv_def unserved_def)
  qed
qed

context serving_threads
begin

lemma start_inv:
  assumes "threads_start interest opened s0" and "ok (io_accessor x0)"
  shows "serving_inv interest opened (opened (li_kernel s0)) ok (s0, x0)"
proof -
  have "unserved s0 = {}"
    using assms(1) by (auto simp: threads_start_def unserved_def poller_fds_def split: option.split)
  with threads_start_inv [OF assms(1)] assms(2) show ?thesis by (simp add: serving_inv_def)
qed

text \<open>The threads of a serving run are a run of the threads.\<close>

lemma runs_simulate:
  assumes "(serving_step sys interest opened lfd ord rt access)\<^sup>*\<^sup>* sx ty" and "serving_inv interest opened base ok sx"
  shows "(thread_step sys interest opened lfd)\<^sup>*\<^sup>* (fst sx) (fst ty)"
  using assms
proof (induction rule: rtranclp_induct)
  case base
  then show ?case by simp
next
  case (step ty uz)
  then have "threads_inv interest opened base (fst ty)"
    using served.steps_inv [OF step.hyps(1) step.prems] by (auto simp: serving_inv_def split: prod.splits)
  with step serving_step_simulates [of sys interest opened lfd ord rt access "fst ty" "snd ty" "fst uz" "snd uz" base]
  show ?case by (auto intro: rtranclp.rtrancl_into_rtrancl)
qed

lemma answered_exactly:
  assumes "threads_start interest opened s0" and "ok (io_accessor x0)"
    and "(serving_step sys interest opened lfd ord rt access)\<^sup>*\<^sup>* (s0, x0) (s, x)"
    and "li_workers s p = Some w" and "th_work s p = W_Handle (e # es)"
    and "arrived (io_sockets x (ev_fd (li_heap s e))) qs" and "list_all wire_ok qs"
  shows "\<exists>s' x'. serve_turn sys raw un ord rt access p (s, x) = Some (Inr (s', x'))
    \<and> sk_tx (io_sockets x' (ev_fd (li_heap s e))) = concat (map (answer_bytes ord rt files \<circ> as_request) qs)
    \<and> (\<forall>fd. fd \<noteq> ev_fd (li_heap s e) \<longrightarrow> io_sockets x' fd = io_sockets x fd)
    \<and> ev_fd (li_heap s e) \<notin> unserved s'"
proof -
  from served.steps_inv [OF assms(3) start_inv [OF assms(1,2)]] have
    inv: "threads_inv interest opened (opened (li_kernel s0)) s" "ok (io_accessor x)"
      "\<And>fd. fd \<in> unserved s \<Longrightarrow> sk_tx (io_sockets x fd) = []" by (auto simp: serving_inv_def)
  note h = handled_event [OF inv(1) assms(4,5)]
  have "ev_fd (li_heap s e) \<in> unserved s"
    using h(4) assms(4) by (force simp: unserved_def poller_fds_def intro!: exI [of _ p])
  with io_handle_serves [where heap = "li_heap s" and e = e and x = x and sys = sys and k = "li_kernel s" and w = w and raw = raw and un = un and ord = ord,
      OF assms(6,7) inv(2) h(1)] inv(3) obtain x' where
    x': "io_handle sys raw un ord rt access e (li_kernel s, li_heap s, w, x)
        = Some (Inr (snd (snd (worker_delEvent sys (li_kernel s) (li_heap s) e w)), li_heap s,
            fst (snd (worker_delEvent sys (li_kernel s) (li_heap s) e w)), x'))"
      "sk_tx (io_sockets x' (ev_fd (li_heap s e))) = concat (map (answer_bytes ord rt files \<circ> as_request) qs)"
      "\<forall>fd. fd \<noteq> ev_fd (li_heap s e) \<longrightarrow> io_sockets x' fd = io_sockets x fd" by auto
  then obtain s' where s': "serve_turn sys raw un ord rt access p (s, x) = Some (Inr (s', x'))"
    using assms(4,5) by (simp add: serve_turn_def)
  with served_unserved [OF inv(1) assms(4,5) s'] x'(2,3) show ?thesis by blast
qed

end


section \<open>The clients of a started server\<close>

lemma accessor_starts_ok: "init_accessor_coherent data files cfg acc \<Longrightarrow> accessor_ok data files acc"
  by (auto simp: init_accessor_coherent_def accessor_ok_def split: server_accessor.splits)

lemma serving_threads_started:
  assumes "ample_kernel sys interest opened" and "redis_server hi data" and "fs_sound fs"
  shows "serving_threads sys interest opened (as_IRouter mk_Router) (server_access hi fs) (fs_files fs) plain_key
    (accessor_ok data (fs_files fs))"
  using assms(1) server_responder [OF assms(2,3)] by (rule serving_threads.intro)

interpretation fds: serving_threads fd_syscalls fd_interest fd_opened "as_IRouter mk_Router"
  "server_access mem_hiredis (block_fs files)" files plain_key "accessor_ok map_of files" for files
  using serving_threads_started [OF fdk.ample_kernel_axioms mem.redis_server_axioms fs_sound_block_fs, of files] by simp



text \<open>A concrete run: the first client of the started server is accepted and reported to its worker.\<close>

abbreviation fd_run :: "file_system \<Rightarrow> (fd_kernel, (string \<times> string) list) Server
    \<Rightarrow> fd_kernel threads \<times> (string \<times> string) list server_accessor io_env
    \<Rightarrow> fd_kernel threads \<times> (string \<times> string) list server_accessor io_env \<Rightarrow> bool" where
  "fd_run fs s' \<equiv> serving_step (se_sys fd_env) fd_interest fd_opened (sv_listenFD s') id (as_IRouter mk_Router)
     (server_access (se_redis fd_env) fs)"

lemma fd_client_reported:
  obtains s' t es w where "server_start fd_env fd_server = (SERVER_OK, s')" and "sv_accessor s' = Some FileAccessor"
    and "(fd_run fs s')\<^sup>*\<^sup>* (threads_of s', x0) (t, x0\<lparr>io_sockets := (io_sockets x0)(7 := sk\<lparr>sk_tx := []\<rparr>)\<rparr>)"
    and "li_workers t 0 = Some w" and "th_work t 0 = W_Handle [es]" and "ev_fd (li_heap t es) = 7"
proof -
  obtain s' il where s': "server_start fd_env fd_server = (SERVER_OK, s')" "sv_accessor s' = Some FileAccessor"
    "sv_kernel s' = ([6, 5, 4, 3, 0, 1, 2], il, 2)" "il 3 = []"
    "sv_ioWorkers s' = [\<lparr>wk_running = True, wk_poller = \<lparr>ep_epfd = 3, ep_maxFDS = 100000, ep_events = []\<rparr>\<rparr>,
      \<lparr>wk_running = True, wk_poller = \<lparr>ep_epfd = 4, ep_maxFDS = 100000, ep_events = []\<rparr>\<rparr>]" by (rule fd_started)
  let ?s = "threads_of s'" and ?k = "([7, 6, 5, 4, 3, 0, 1, 2], il, 1)" and ?e = "li_next (threads_of s')"
  let ?x = "x0\<lparr>io_sockets := (io_sockets x0)(7 := sk\<lparr>sk_tx := []\<rparr>)\<rparr>"
  let ?w = "\<lparr>wk_running = True, wk_poller = \<lparr>ep_epfd = 3, ep_maxFDS = 100000, ep_events = [(7, ?e)]\<rparr>\<rparr>"
  let ?ev = "setWorker (Some 0) (mk_Event 7 EPOLLIN_EPOLLET)"
  let ?s4 = "?s\<lparr>li_kernel := ([7, 6, 5, 4, 3, 0, 1, 2], il(3 := [7]), 1), li_heap := (li_heap ?s)(?e := ?ev),
    li_workers := (li_workers ?s)(0 \<mapsto> ?w), li_next := Suc ?e, li_ioWorkers := [1, 0], th_listen := L_Accept\<rparr>"
  let ?s5 = "?s4\<lparr>li_heap := (li_heap ?s)(?e := setResponseEvent 1 ?ev), th_batch := (th_batch ?s4)(0 := [?e]),
    th_work := (th_work ?s4)(0 := W_Handle [?e])\<rparr>"
  have c: "connected s t sk' x = x" if "th_listen s \<noteq> L_Accept" for s t :: "fd_kernel threads" and sk' x
    using that by (simp add: connected_def)
  have 1: "listen_turn fd_syscalls (sv_listenFD s') ?s = Inr (?s\<lparr>li_kernel := ?k, th_listen := L_Flags 7\<rparr>)"
    by (simp add: listen_turn_def fd_syscalls_def s' new_fd_def)
  have 2: "listen_turn fd_syscalls (sv_listenFD s') (?s\<lparr>li_kernel := ?k, th_listen := L_Flags 7\<rparr>)
      = Inr (?s\<lparr>li_kernel := ?k, th_listen := L_Find 7\<rparr>)"
    by (simp add: listen_turn_def fd_syscalls_def)
  have 3: "listen_turn fd_syscalls (sv_listenFD s') (?s\<lparr>li_kernel := ?k, th_listen := L_Find 7\<rparr>)
      = Inr (?s\<lparr>li_kernel := ?k, th_listen := L_Add 7 0\<rparr>)"
    by (simp add: listen_turn_def s' upt_rec worker_isRunning_def worker_activeFDS_def activeFDS_def
        worker_maxFDS_def maxFDS_def)
  have 4: "listen_turn fd_syscalls (sv_listenFD s') (?s\<lparr>li_kernel := ?k, th_listen := L_Add 7 0\<rparr>) = Inr ?s4"
    by (simp add: listen_turn_def s' upt_rec worker_addEvent_def epollAddEvent_def activeFDS_def maxFDS_def
        validEpollFD_def fd_syscalls_def fd_ctl_def mk_Event_def setWorker_def Let_def)
  have 5: "serve_turn fd_syscalls raw un id (as_IRouter mk_Router) (server_access (se_redis fd_env) fs) 0 (?s4, ?x)
      = Some (Inr (?s5, ?x))" for raw un
    by (simp add: serve_turn_def work_turn_def worker_isRunning_def worker_eventPoll_def epollWait_def
        validEpollFD_def fd_syscalls_def maxFDS_def)
  have env: "se_sys fd_env = fd_syscalls" by (simp add: fd_env_def)
  let ?run = "fd_run fs s'"
  have "connected ?s (?s\<lparr>li_kernel := ?k, th_listen := L_Flags 7\<rparr>) sk x0 = ?x"
    by (cases x0) (auto simp: connected_def fun_eq_iff)
  then have a1: "?run (?s, x0) (?s\<lparr>li_kernel := ?k, th_listen := L_Flags 7\<rparr>, ?x)"
    using accepting [OF 1, of _ _ _ _ _ x0 sk] unfolding env by metis
  have a: "?run (u, ?x) (v, ?x)" if "listen_turn fd_syscalls (sv_listenFD s') u = Inr v" "th_listen u \<noteq> L_Accept" for u v
    using accepting [OF that(1), of _ _ _ _ _ ?x] c [OF that(2)] unfolding env by metis
  have "?run\<^sup>*\<^sup>* (?s, x0) (?s4, ?x)"
    by (rule converse_rtranclp_into_rtranclp [OF a1 converse_rtranclp_into_rtranclp [OF a [OF 2]
          converse_rtranclp_into_rtranclp [OF a [OF 3] r_into_rtranclp [of ?run, OF a [OF 4]]]]]) simp_all
  moreover have "?run (?s4, ?x) (?s5, ?x)" unfolding env by (rule serving [OF 5])
  ultimately have "?run\<^sup>*\<^sup>* (?s, x0) (?s5, ?x)" by (rule rtranclp.rtrancl_into_rtrancl)
  from that [OF s'(1,2) this] show thesis by (simp add: setResponseEvent_def setWorker_def mk_Event_def)
qed

definition demo_request :: wire_request where
  "demo_request = \<lparr>wq_method = GET, wq_uri = ''/hello'', wq_version = HTTP_1_0, wq_header = []\<rparr>"


end
