(* ===== verification/Worker_Shutdown.thy ===== *)
theory Worker_Shutdown
  imports Web_Server IO_Handler
begin

text \<open>
  Stopping a server under its threads: the loop of \<open>Worker::run\<close> (\<open>Worker.cc\<close>) and the destructor of the
  server (\<open>Server::stop\<close> and \<open>Server::clean\<close> in \<open>Server.cc\<close>) by statements that touch the IO workers, in any
  interleaving of their threads, which are detached, with the main thread.
\<close>

section \<open>The statements\<close>

text \<open>
  Where the thread of a worker is: before reading the flag, inside the wait (the flag has been
  read), before the rest of its batch, before dropping the batch, before clearing the flag, gone.
\<close>

datatype run_pc =
    R_Check
  | R_Wait
  | R_Handle "event_sptr list" "event_sptr list"
  | R_Clear "event_sptr list"
  | R_Leave
  | R_Gone

text \<open>Where the main thread is in the destructor of the server, with the workers still to treat.\<close>

datatype main_pc =
    M_Run
  | M_Stop "worker_ptr list"
  | M_Clean "worker_ptr list"
  | M_Done

text \<open>The worker objects; \<open>None\<close> is a worker that has been destroyed.\<close>

record ('k, 'x) crew =
  cr_kernel :: 'k
  cr_heap :: event_heap
  cr_env :: 'x
  cr_workers :: "worker_ptr \<Rightarrow> Worker option"
  cr_pc :: "worker_ptr \<Rightarrow> run_pc"
  cr_main :: main_pc

text \<open>
  A statement of the thread of \<open>p\<close>. All of them but the dropping of the batch, which is a local
  variable, go through the worker object; on a destroyed object that is the outcome \<open>null_pointer\<close>.
\<close>

definition run_stmt :: "'k syscalls \<Rightarrow> ('k, 'x) handler \<Rightarrow> worker_ptr \<Rightarrow> ('k, 'x) crew \<Rightarrow> ('k, 'x) crew run" where
  "run_stmt sys hnd p s =
     (case (cr_pc s p, cr_workers s p) of
        (R_Gone, _) \<Rightarrow> Some (Inr s)
      | (R_Clear es, None) \<Rightarrow>
          Some (Inr (s\<lparr>cr_kernel := foldl (\<lambda>k e. destroy_Event sys k (cr_heap s e)) (cr_kernel s) (remdups es),
                       cr_pc := (cr_pc s)(p := R_Check)\<rparr>))
      | (_, None) \<Rightarrow> Some (Inl null_pointer)
      | (R_Check, Some w) \<Rightarrow>
          Some (Inr (s\<lparr>cr_pc := (cr_pc s)(p := if worker_isRunning w then R_Wait else R_Leave)\<rparr>))
      | (R_Wait, Some w) \<Rightarrow>
          (case worker_eventPoll sys (cr_kernel s) (cr_heap s) (- 1) w of
             (err, es, heap1, k1) \<Rightarrow>
               Some (Inr (s\<lparr>cr_kernel := k1, cr_heap := heap1,
                            cr_pc := (cr_pc s)(p := if err \<noteq> SERVER_OK then R_Leave else R_Handle es es)\<rparr>)))
      | (R_Handle [] batch, Some w) \<Rightarrow> Some (Inr (s\<lparr>cr_pc := (cr_pc s)(p := R_Clear batch)\<rparr>))
      | (R_Handle (e # es) batch, Some w) \<Rightarrow>
          (case hnd e (cr_kernel s, cr_heap s, w, cr_env s) of
             None \<Rightarrow> None
           | Some (Inl z) \<Rightarrow> Some (Inl z)
           | Some (Inr (k1, heap1, w1, x1)) \<Rightarrow>
               Some (Inr (s\<lparr>cr_kernel := k1, cr_heap := heap1, cr_env := x1, cr_workers := (cr_workers s)(p \<mapsto> w1),
                            cr_pc := (cr_pc s)(p := R_Handle es batch)\<rparr>)))
      | (R_Clear es, Some w) \<Rightarrow>
          Some (Inr (s\<lparr>cr_kernel := clear_events sys (cr_heap s) w es (cr_kernel s), cr_pc := (cr_pc s)(p := R_Check)\<rparr>))
      | (R_Leave, Some w) \<Rightarrow>
          Some (Inr (s\<lparr>cr_workers := (cr_workers s)(p \<mapsto> worker_stop w), cr_pc := (cr_pc s)(p := R_Gone)\<rparr>)))"

text \<open>The events a thread still holds in its batch, which the table of its worker does not destroy.\<close>

fun held_events :: "run_pc \<Rightarrow> event_sptr set" where
  "held_events (R_Handle es batch) = set batch"
| "held_events (R_Clear batch) = set batch"
| "held_events _ = {}"

text \<open>One worker of \<open>__ioWorkers.clear()\<close>: its poller is closed, its events are closed, the object is gone.\<close>

definition clean_worker :: "'k syscalls \<Rightarrow> worker_ptr \<Rightarrow> ('k, 'x) crew \<Rightarrow> ('k, 'x) crew" where
  "clean_worker sys p s =
     (case cr_workers s p of
        None \<Rightarrow> s
      | Some w \<Rightarrow>
          s\<lparr>cr_kernel := foldl (\<lambda>k (fd, e). if e \<in> held_events (cr_pc s p) then k else destroy_Event sys k (cr_heap s e))
               (snd (destroy_Epoll sys (cr_kernel s) (wk_poller w))) (ep_events (wk_poller w)),
            cr_workers := (cr_workers s)(p := None)\<rparr>)"

text \<open>
  A statement of the main thread in the destructor: \<open>stop\<close> clears the flags of the IO workers one
  after the other, \<open>clean\<close> destroys them.
\<close>

definition main_stmt :: "'k syscalls \<Rightarrow> worker_ptr list \<Rightarrow> ('k, 'x) crew \<Rightarrow> ('k, 'x) crew" where
  "main_stmt sys ioWorkers s =
     (case cr_main s of
        M_Run \<Rightarrow> s\<lparr>cr_main := M_Stop ioWorkers\<rparr>
      | M_Stop [] \<Rightarrow> s\<lparr>cr_main := M_Clean ioWorkers\<rparr>
      | M_Stop (p # ps) \<Rightarrow>
          s\<lparr>cr_workers := (cr_workers s)(p := map_option stop_worker (cr_workers s p)), cr_main := M_Stop ps\<rparr>
      | M_Clean [] \<Rightarrow> s\<lparr>cr_main := M_Done\<rparr>
      | M_Clean (p # ps) \<Rightarrow> (clean_worker sys p s)\<lparr>cr_main := M_Clean ps\<rparr>
      | M_Done \<Rightarrow> s)"

text \<open>A schedule: the main thread (\<open>None\<close>) or the thread of a worker moves next.\<close>

fun run_crew ::
  "'k syscalls \<Rightarrow> ('k, 'x) handler \<Rightarrow> worker_ptr list \<Rightarrow> worker_ptr option list \<Rightarrow> ('k, 'x) crew \<Rightarrow> ('k, 'x) crew run" where
  "run_crew sys hnd ioWorkers [] s = Some (Inr s)"
| "run_crew sys hnd ioWorkers (None # is) s = run_crew sys hnd ioWorkers is (main_stmt sys ioWorkers s)"
| "run_crew sys hnd ioWorkers (Some p # is) s =
     (case run_stmt sys hnd p s of
        None \<Rightarrow> None
      | Some (Inl z) \<Rightarrow> Some (Inl z)
      | Some (Inr s1) \<Rightarrow> run_crew sys hnd ioWorkers is s1)"

lemma destroy_worker_alone:
  "cr_main s = M_Clean (p # ps) \<Longrightarrow> cr_workers s p = Some w \<Longrightarrow> held_events (cr_pc s p) = {} \<Longrightarrow>
     cr_kernel (main_stmt sys ioWorkers s) = destroy_Worker sys (cr_heap s) w (cr_kernel s)"
  by (simp add: main_stmt_def clean_worker_def destroy_Worker_def)

section \<open>A stopped worker leaves\<close>

text \<open>How many statements a stopped thread has left, when a wait reports at most \<open>n\<close> events.\<close>

fun left_to_do :: "nat \<Rightarrow> run_pc \<Rightarrow> nat" where
  "left_to_do n R_Gone = 0"
| "left_to_do n R_Leave = 1"
| "left_to_do n R_Check = 2"
| "left_to_do n (R_Clear batch) = 3"
| "left_to_do n (R_Handle es batch) = length es + 4"
| "left_to_do n R_Wait = n + 5"

definition keeps_flag :: "('k, 'x) handler \<Rightarrow> bool" where
  "keeps_flag hnd =
     (\<forall>e k heap w x k1 heap1 w1 x1. hnd e (k, heap, w, x) = Some (Inr (k1, heap1, w1, x1)) \<longrightarrow> wk_running w1 = wk_running w)"

definition told_to_stop :: "nat \<Rightarrow> worker_ptr \<Rightarrow> ('k, 'x) crew \<Rightarrow> bool" where
  "told_to_stop n p s =
     (\<forall>w. cr_workers s p = Some w \<longrightarrow> \<not> wk_running w \<and> (cr_pc s p = R_Wait \<longrightarrow> nat (maxFDS (wk_poller w)) \<le> n))"

lemma length_wait_loop: "length (fst (wait_loop table xs heap)) \<le> length xs"
proof (induction xs arbitrary: heap)
  case (Cons x xs)
  obtain fd evs where x: "x = (fd, evs)" by fastforce
  show ?case
  proof (cases "map_of table fd")
    case None
    with Cons.IH [of heap] x show ?thesis by simp
  next
    case (Some cur)
    with x show ?thesis by (simp add: case_prod_beta Cons.IH)
  qed
qed simp

lemma poll_length:
  assumes "epoll_kernel sys interest" and "worker_eventPoll sys k heap t w = (err, es, heap1, k1)"
  shows "length es \<le> nat (maxFDS (wk_poller w))"
proof -
  obtain num xs k2 where e: "epoll_wait sys k (ep_epfd (wk_poller w)) (maxFDS (wk_poller w)) t = ((num, xs), k2)"
    by (metis prod.collapse)
  have "num \<noteq> -1 \<Longrightarrow> length (take (nat num) xs) \<le> nat (maxFDS (wk_poller w))"
    using epoll_kernel.wait_reports [OF assms(1) e] by auto
  with assms(2) e length_wait_loop [of "ep_events (wk_poller w)" "take (nat num) xs" heap] show ?thesis
    by (auto simp: worker_eventPoll_def epollWait_def split: if_splits prod.splits)
qed

lemma own_statement:
  assumes "epoll_kernel sys interest" and "keeps_flag hnd" and "told_to_stop n p s"
    and "run_stmt sys hnd p s = Some (Inr s')"
  shows "told_to_stop n p s' \<and> left_to_do n (cr_pc s' p) \<le> left_to_do n (cr_pc s p) - 1"
proof (cases "cr_workers s p")
  case None
  with assms(4) show ?thesis
    by (auto simp: run_stmt_def told_to_stop_def split: run_pc.splits list.splits)
next
  case (Some w)
  with assms(3) have w: "\<not> wk_running w" "cr_pc s p = R_Wait \<Longrightarrow> nat (maxFDS (wk_poller w)) \<le> n"
    by (simp_all add: told_to_stop_def)
  show ?thesis
  proof (cases "cr_pc s p")
    case R_Wait
    obtain err es heap1 k1 where
      e: "worker_eventPoll sys (cr_kernel s) (cr_heap s) (- 1) w = (err, es, heap1, k1)" using prod_cases4 by blast
    from poll_length [OF assms(1) e] w R_Wait Some e assms(4) show ?thesis
      by (auto simp: run_stmt_def told_to_stop_def)
  next
    case (R_Handle es batch)
    show ?thesis
    proof (cases es)
      case Nil
      with R_Handle Some assms(4) w show ?thesis by (auto simp: run_stmt_def told_to_stop_def)
    next
      case (Cons e es')
      with R_Handle Some assms(4) obtain k1 heap1 w1 x1 where
        h: "hnd e (cr_kernel s, cr_heap s, w, cr_env s) = Some (Inr (k1, heap1, w1, x1))"
          "cr_workers s' = (cr_workers s)(p \<mapsto> w1)" "cr_pc s' p = R_Handle es' batch"
        by (auto simp: run_stmt_def split: option.splits sum.splits)
      have "\<not> wk_running w1" using assms(2) h(1) w(1) unfolding keeps_flag_def by blast
      with h(2,3) R_Handle Cons show ?thesis by (simp add: told_to_stop_def)
    qed
  qed (use Some assms(4) w in \<open>auto simp: run_stmt_def told_to_stop_def worker_isRunning_def worker_stop_def\<close>)
qed

lemma other_statement:
  assumes "told_to_stop n p s" and "run_stmt sys hnd q s = Some (Inr s')" and "q \<noteq> p"
  shows "told_to_stop n p s' \<and> cr_pc s' p = cr_pc s p"
proof -
  have "cr_pc s' p = cr_pc s p \<and> cr_workers s' p = cr_workers s p"
    using assms(2,3)
    by (auto simp: run_stmt_def split: run_pc.splits option.splits list.splits sum.splits prod.splits)
  with assms(1) show ?thesis by (simp add: told_to_stop_def)
qed

lemma main_statement:
  assumes "told_to_stop n p s"
  shows "told_to_stop n p (main_stmt sys ioWorkers s) \<and> cr_pc (main_stmt sys ioWorkers s) = cr_pc s"
  using assms
  by (auto simp: main_stmt_def clean_worker_def told_to_stop_def stop_worker_def worker_stop_def
      split: main_pc.split list.split option.splits if_splits)

text \<open>
  (C26) A worker that has been told to stop leaves its loop: under every schedule of the main thread
  and the threads, once the thread of a stopped worker has executed as many statements as it has
  left, at most one more batch of as many events as its poller admits, it is gone. It never
  polls again.
\<close>

theorem stopped_worker_leaves:
  assumes "epoll_kernel sys interest" and "keeps_flag hnd" and "told_to_stop n p s"
    and "run_crew sys hnd ioWorkers is s = Some (Inr s')"
    and "left_to_do n (cr_pc s p) \<le> count_list is (Some p)"
  shows "cr_pc s' p = R_Gone"
  using assms(3-5)
proof (induction "is" arbitrary: s)
  case Nil
  then show ?case by (cases "cr_pc s p") auto
next
  case (Cons i "is")
  show ?case
  proof (cases i)
    case None
    with Cons.IH [of "main_stmt sys ioWorkers s"] main_statement [OF Cons.prems(1), of sys ioWorkers] Cons.prems
    show ?thesis by simp
  next
    case (Some q)
    with Cons.prems(2) obtain s1 where s1: "run_stmt sys hnd q s = Some (Inr s1)"
      "run_crew sys hnd ioWorkers is s1 = Some (Inr s')" by (auto split: option.splits sum.splits)
    show ?thesis
    proof (cases "q = p")
      case True
      from own_statement [OF assms(1,2) Cons.prems(1)] s1(1) True have
        "told_to_stop n p s1" "left_to_do n (cr_pc s1 p) \<le> left_to_do n (cr_pc s p) - 1" by blast+
      with Cons.IH [OF _ s1(2)] Cons.prems(3) True Some show ?thesis by simp
    next
      case False
      from other_statement [OF Cons.prems(1) s1(1) False] Cons.IH [OF _ s1(2)] Cons.prems(3) False Some
      show ?thesis by simp
    qed
  qed
qed

section \<open>The destructor does not wait for the threads\<close>

lemma main_stops:
  "cr_main s = M_Stop ps \<Longrightarrow>
   \<exists>s'. run_crew sys hnd ioWorkers (replicate (Suc (length ps)) None) s = Some (Inr s')
     \<and> cr_main s' = M_Clean ioWorkers \<and> cr_pc s' = cr_pc s"
proof (induction ps arbitrary: s)
  case Nil
  then show ?case by (simp add: main_stmt_def)
next
  case (Cons p ps)
  then show ?case using Cons.IH [of "main_stmt sys ioWorkers s"] by (simp add: main_stmt_def)
qed

lemma main_cleans:
  "cr_main s = M_Clean ps \<Longrightarrow>
   \<exists>s'. run_crew sys hnd ioWorkers (replicate (Suc (length ps)) None) s = Some (Inr s')
     \<and> cr_main s' = M_Done \<and> cr_pc s' = cr_pc s
     \<and> (\<forall>p. p \<in> set ps \<or> cr_workers s p = None \<longrightarrow> cr_workers s' p = None)"
proof (induction ps arbitrary: s)
  case Nil
  then show ?case by (simp add: main_stmt_def)
next
  case (Cons p ps)
  let ?s = "main_stmt sys ioWorkers s"
  have "cr_main ?s = M_Clean ps" "cr_pc ?s = cr_pc s" "cr_workers ?s p = None"
    "\<And>q. cr_workers s q = None \<Longrightarrow> cr_workers ?s q = None"
    using Cons.prems by (auto simp: main_stmt_def clean_worker_def split: option.splits)
  with Cons.IH [of ?s] show ?case by auto
qed

lemma run_crew_append:
  "run_crew sys hnd ioWorkers (is @ js) s =
     (case run_crew sys hnd ioWorkers is s of
        None \<Rightarrow> None | Some (Inl z) \<Rightarrow> Some (Inl z) | Some (Inr s1) \<Rightarrow> run_crew sys hnd ioWorkers js s1)"
  by (induction sys hnd ioWorkers "is" s rule: run_crew.induct) (auto split: option.split sum.split)


section \<open>The statements are the loop\<close>

text \<open>The state of the loop of the worker \<open>p\<close> inside the crew.\<close>

definition put_wstate :: "worker_ptr \<Rightarrow> ('k, 'x) wstate \<Rightarrow> run_pc \<Rightarrow> ('k, 'x) crew \<Rightarrow> ('k, 'x) crew" where
  "put_wstate p ws pc s =
     (case ws of (k, heap, w, x) \<Rightarrow>
        s\<lparr>cr_kernel := k, cr_heap := heap, cr_env := x, cr_workers := (cr_workers s)(p \<mapsto> w), cr_pc := (cr_pc s)(p := pc)\<rparr>)"

lemma put_wstate_simps [simp]:
  "cr_kernel (put_wstate p (k, heap, w, x) pc s) = k" "cr_heap (put_wstate p (k, heap, w, x) pc s) = heap"
  "cr_env (put_wstate p (k, heap, w, x) pc s) = x" "cr_workers (put_wstate p (k, heap, w, x) pc s) p = Some w"
  "cr_pc (put_wstate p ws pc s) p = pc" "put_wstate p ws' pc' (put_wstate p ws pc s) = put_wstate p ws' pc' s"
  by (simp_all add: put_wstate_def split: prod.split)

lemma handle_statements:
  "handle_events hnd es ws = Some (Inr ws') \<Longrightarrow>
   run_crew sys hnd ioWorkers (replicate (length es) (Some p)) (put_wstate p ws (R_Handle es batch) s)
     = Some (Inr (put_wstate p ws' (R_Handle [] batch) s))"
proof (induction es arbitrary: ws)
  case (Cons e es)
  obtain k heap w x where ws: "ws = (k, heap, w, x)" using prod_cases4 by blast
  from Cons.prems obtain k1 heap1 w1 x1 where h: "hnd e ws = Some (Inr (k1, heap1, w1, x1))"
    "handle_events hnd es (k1, heap1, w1, x1) = Some (Inr ws')" by (auto split: option.splits sum.splits)
  have "run_stmt sys hnd p (put_wstate p ws (R_Handle (e # es) batch) s)
      = Some (Inr (put_wstate p (k1, heap1, w1, x1) (R_Handle es batch) s))"
    using h(1) by (simp add: run_stmt_def ws) (simp add: put_wstate_def)
  with Cons.IH [OF h(2)] show ?case by simp
qed simp

lemma single_statements:
  "run_stmt sys hnd p (put_wstate p (k, heap, w, x) R_Check s)
     = Some (Inr (put_wstate p (k, heap, w, x) (if worker_isRunning w then R_Wait else R_Leave) s))"
  "worker_eventPoll sys k heap (- 1) w = (err, es, heap1, k1) \<Longrightarrow>
     run_stmt sys hnd p (put_wstate p (k, heap, w, x) R_Wait s)
     = Some (Inr (put_wstate p (k1, heap1, w, x) (if err \<noteq> SERVER_OK then R_Leave else R_Handle es es) s))"
  "run_stmt sys hnd p (put_wstate p (k, heap, w, x) (R_Handle [] batch) s)
     = Some (Inr (put_wstate p (k, heap, w, x) (R_Clear batch) s))"
  "run_stmt sys hnd p (put_wstate p (k, heap, w, x) (R_Clear batch) s)
     = Some (Inr (put_wstate p (clear_events sys heap w batch k, heap, w, x) R_Check s))"
  "run_stmt sys hnd p (put_wstate p (k, heap, w, x) R_Leave s) = Some (Inr (put_wstate p (k, heap, worker_stop w, x) R_Gone s))"
  by (simp_all add: run_stmt_def) (simp_all add: put_wstate_def)

text \<open>A turn of the loop that polls successfully.\<close>

lemma turn_statements:
  assumes "worker_isRunning w" and "worker_eventPoll sys k heap (- 1) w = (SERVER_OK, es, heap1, k1)"
    and "handle_events hnd es (k1, heap1, w, x) = Some (Inr (k2, heap2, w2, x2))"
  shows "run_crew sys hnd ioWorkers (replicate (length es + 4) (Some p)) (put_wstate p (k, heap, w, x) R_Check s)
    = Some (Inr (put_wstate p (clear_events sys heap2 w2 es k2, heap2, w2, x2) R_Check s))"
proof -
  have "replicate (length es + 4) (Some p) = [Some p, Some p] @ replicate (length es) (Some p) @ [Some p, Some p]"
  proof -
    have "length es + 4 = 2 + (length es + 2)" by simp
    then show ?thesis by (simp only: replicate_add) (simp add: numeral_eq_Suc)
  qed
  then show ?thesis
    using assms(1) handle_statements [OF assms(3), of sys ioWorkers p es s]
    by (simp only: run_crew_append) (simp add: single_statements assms(2))
qed

text \<open>One unfolding of the loop, whose recursive call is \<open>rec\<close>, is some number of statements.\<close>

lemma unfolding_statements:
  fixes sys :: "'k syscalls" and hnd :: "('k, 'x) handler" and s :: "('k, 'x) crew" and ioWorkers p
    and go :: "nat \<Rightarrow> ('k, 'x) wstate \<Rightarrow> ('k, 'x) crew run"
  defines "go \<equiv> \<lambda>n ws. run_crew sys hnd ioWorkers (replicate n (Some p)) (put_wstate p ws R_Check s)"
  assumes eq: "(case ws of (k, heap, w, x) \<Rightarrow>
      if \<not> worker_isRunning w then Some (Inr (k, heap, worker_stop w, x))
      else (case worker_eventPoll sys k heap (- 1) w of
              (err, es, heap1, k1) \<Rightarrow>
                if err \<noteq> SERVER_OK then Some (Inr (k1, heap1, worker_stop w, x))
                else (case handle_events hnd es (k1, heap1, w, x) of
                        None \<Rightarrow> None
                      | Some (Inl z) \<Rightarrow> Some (Inl z)
                      | Some (Inr (k2, heap2, w2, x2)) \<Rightarrow>
                          rec (clear_events sys heap2 w2 es k2, heap2, w2, x2)))) = Some (Inr ws')"
    and IH: "\<And>ws1. rec ws1 = Some (Inr ws') \<Longrightarrow> \<exists>n. go n ws1 = Some (Inr (put_wstate p ws' R_Gone s))"
  shows "\<exists>n. go n ws = Some (Inr (put_wstate p ws' R_Gone s))"
proof -
  obtain k heap w x where ws: "ws = (k, heap, w, x)" using prod_cases4 by blast
  obtain err es heap1 k1 where e: "worker_eventPoll sys k heap (- 1) w = (err, es, heap1, k1)"
    using prod_cases4 by blast
  consider "\<not> worker_isRunning w" | "worker_isRunning w" "err \<noteq> SERVER_OK" | "worker_isRunning w" "err = SERVER_OK"
    by blast
  then show ?thesis
  proof cases
    case 1
    with eq ws have "go (Suc (Suc 0)) ws = Some (Inr (put_wstate p ws' R_Gone s))"
      by (simp add: go_def single_statements)
    then show ?thesis ..
  next
    case 2
    with eq ws e have "go (Suc (Suc (Suc 0))) ws = Some (Inr (put_wstate p ws' R_Gone s))"
      by (simp add: go_def single_statements)
    then show ?thesis ..
  next
    case 3
    with eq ws e obtain k2 heap2 w2 x2 where
      h: "handle_events hnd es (k1, heap1, w, x) = Some (Inr (k2, heap2, w2, x2))"
        "rec (clear_events sys heap2 w2 es k2, heap2, w2, x2) = Some (Inr ws')"
      by (auto split: option.splits sum.splits)
    from IH [OF h(2)] obtain n where
      "go n (clear_events sys heap2 w2 es k2, heap2, w2, x2) = Some (Inr (put_wstate p ws' R_Gone s))" by blast
    with turn_statements [OF 3(1) e [unfolded 3(2)] h(1), of ioWorkers p s] ws
    have "go (length es + 4 + n) ws = Some (Inr (put_wstate p ws' R_Gone s))"
      by (simp only: go_def replicate_add run_crew_append) simp
    then show ?thesis ..
  qed
qed


section \<open>Concrete threads\<close>

lemma io_handle_keeps_flag: "keeps_flag (io_handle sys raw un ord rt access)"
  by (auto simp: keeps_flag_def io_handle_def worker_delEvent_def Let_def
      split: option.splits sum.splits prod.splits if_splits)

definition idle_crew :: "bool \<Rightarrow> run_pc \<Rightarrow> (int \<Rightarrow> int list, unit io_env) crew" where
  "idle_crew running pc = \<lparr>cr_kernel = (\<lambda>_. []), cr_heap = (\<lambda>_. mk_Event 7 1),
     cr_env = \<lparr>io_sockets = (\<lambda>_. waiting_client), io_accessor = (), io_buf = (\<lambda>_. CHR 0x00)\<rparr>,
     cr_workers = [0 \<mapsto> \<lparr>wk_running = running, wk_poller = \<lparr>ep_epfd = 3, ep_maxFDS = 2, ep_events = []\<rparr>\<rparr>],
     cr_pc = (\<lambda>_. pc), cr_main = M_Run\<rparr>"

abbreviation idle_handler :: "(int \<Rightarrow> int list, unit io_env) handler" where
  "idle_handler \<equiv> io_handle ref_syscalls (\<lambda>_. CHR 0x00) \<lparr>un_version = HTTP_1_1, un_err = SERVER_OK, un_code = 7\<rparr> id
     (as_IRouter mk_Router) (FileAccessor_access (\<lambda>p. None))"

theorem stopped_worker_leaves_witness:
  "\<exists>s'. run_crew ref_syscalls idle_handler [0] (replicate 7 (Some 0)) (idle_crew False R_Wait) = Some (Inr s')
    \<and> cr_pc s' 0 = R_Gone"
proof -
  have t: "told_to_stop 2 0 (idle_crew False R_Wait)" by (simp add: told_to_stop_def idle_crew_def maxFDS_def)
  have n: "left_to_do 2 (cr_pc (idle_crew False R_Wait) 0) \<le> count_list (replicate 7 (Some 0)) (Some 0)"
    by (simp add: idle_crew_def numeral_eq_Suc)
  obtain s' where r: "run_crew ref_syscalls idle_handler [0] (replicate 7 (Some 0)) (idle_crew False R_Wait) = Some (Inr s')"
    by (simp add: numeral_eq_Suc idle_crew_def run_stmt_def worker_eventPoll_def epollWait_def validEpollFD_def
        ref_syscalls_def maxFDS_def clear_events_def worker_isRunning_def)
  from stopped_worker_leaves [OF refk.epoll_kernel_axioms io_handle_keeps_flag t r n] r show ?thesis by blast
qed



end
