(* ===== verification/Shared_Buffers.thy ===== *)
theory Shared_Buffers
  imports Prelude
begin

text \<open>
  The static arrays \<open>_local_static_buff\<close> of \<open>HttpResponse.cc\<close> and \<open>HttpRequest.cc\<close>. Every IO worker
  copies bodies through the same two arrays and no lock protects them. The theories
  \<open>Shared_Response\<close> and \<open>Shared_Request\<close> take the copying loops apart into the statements that
  touch the array; here is what they share: the interleaving of the statements of several
  threads by a schedule, and the locale of a copying thread. A statement is one step.
\<close>

section \<open>Threads on one array\<close>

text \<open>
  Where a thread is in its loop: before the read into the array, before the use of the \<open>n\<close> bytes it
  has read, before the checks at the end of the turn, or behind the loop.
\<close>

datatype copy_pc = At_Read | At_Use nat | At_Check | Finished

fun pc_pending :: "copy_pc \<Rightarrow> nat option" where
  "pc_pending (At_Use n) = Some n"
| "pc_pending _ = None"

definition pend_len :: "copy_pc \<Rightarrow> nat" where
  "pend_len pc = (case pc_pending pc of None \<Rightarrow> 0 | Some n \<Rightarrow> n)"

text \<open>The turns left to a thread that has \<open>rest\<close> bytes to copy.\<close>

fun pc_variant :: "copy_pc \<Rightarrow> nat \<Rightarrow> nat" where
  "pc_variant At_Read rest = 3 * rest + 1"
| "pc_variant (At_Use n) rest = 3 * (rest - n) + 3"
| "pc_variant At_Check rest = 3 * rest + 2"
| "pc_variant Finished rest = 0"

text \<open>A schedule names, turn by turn, the thread that executes its next statement.\<close>

fun run_schedule ::
  "(carray \<Rightarrow> 't \<Rightarrow> carray \<times> 't) \<Rightarrow> nat list \<Rightarrow> carray \<times> 't list \<Rightarrow> carray \<times> 't list" where
  "run_schedule step [] (buf, ts) = (buf, ts)"
| "run_schedule step (i # is) (buf, ts) =
     (if i < length ts
      then (case step buf (ts ! i) of (buf1, t1) \<Rightarrow> run_schedule step is (buf1, ts[i := t1]))
      else run_schedule step is (buf, ts))"

text \<open>The schedules in which no thread moves while another has read and not yet used its bytes.\<close>

fun exclusive ::
  "(carray \<Rightarrow> 't \<Rightarrow> carray \<times> 't) \<Rightarrow> ('t \<Rightarrow> nat option) \<Rightarrow> nat list \<Rightarrow> carray \<times> 't list \<Rightarrow> bool" where
  "exclusive step pend [] (buf, ts) = True"
| "exclusive step pend (i # is) (buf, ts) =
     (if i < length ts
      then (\<forall>j < length ts. j \<noteq> i \<longrightarrow> pend (ts ! j) = None)
        \<and> (case step buf (ts ! i) of (buf1, t1) \<Rightarrow> exclusive step pend is (buf1, ts[i := t1]))
      else exclusive step pend is (buf, ts))"

text \<open>The bytes of the threads that are about to use the array are in it.\<close>

definition held :: "('t \<Rightarrow> nat option) \<Rightarrow> ('t \<Rightarrow> string) \<Rightarrow> carray \<Rightarrow> 't list \<Rightarrow> bool" where
  "held pend todo buf ts =
     (\<forall>i < length ts. case pend (ts ! i) of None \<Rightarrow> True | Some n \<Rightarrow> subarr buf 0 n = take n (todo (ts ! i)))"

lemma pend_len_simps [simp]:
  "pend_len At_Read = 0" "pend_len (At_Use n) = n" "pend_len At_Check = 0" "pend_len Finished = 0"
  by (simp_all add: pend_len_def)

lemma pend_len_None [simp]: "pc_pending pc = None \<Longrightarrow> pend_len pc = 0"
  by (simp add: pend_len_def)

lemma solo_Suc:
  "run_schedule step (replicate (Suc n) 0) (buf, [t])
     = (case step buf t of (buf1, t1) \<Rightarrow> run_schedule step (replicate n 0) (buf1, [t1]))"
  by (simp split: prod.splits)

lemma length_run_schedule: "run_schedule step is (buf, ts) = (buf', ts') \<Longrightarrow> length ts' = length ts"
  by (induction step "is" "(buf, ts)" arbitrary: buf ts rule: run_schedule.induct)
     (auto split: if_splits prod.splits)

lemma run_schedule_append:
  "run_schedule step (is @ js) s = run_schedule step js (run_schedule step is s)"
  by (induction step "is" s rule: run_schedule.induct) (auto split: prod.splits)

section \<open>The contract of a copying thread\<close>

text \<open>
  \<open>copied\<close> is what the thread has passed on and \<open>todo\<close> what it still has to: a fetch puts a prefix of
  it into the array, a store passes on whatever the array then holds. Every turn of a thread that
  is not finished decreases its \<open>variant\<close>.
\<close>

locale shared_copy =
  fixes step :: "carray \<Rightarrow> 't \<Rightarrow> carray \<times> 't"
    and pending :: "'t \<Rightarrow> nat option"
    and copied :: "'t \<Rightarrow> string"
    and todo :: "'t \<Rightarrow> string"
    and sound :: "'t \<Rightarrow> bool"
    and variant :: "'t \<Rightarrow> nat"
  assumes step_sound: "sound t \<Longrightarrow> step buf t = (buf', t') \<Longrightarrow> sound t'"
    and fetch: "sound t \<Longrightarrow> pending t = None \<Longrightarrow> step buf t = (buf', t') \<Longrightarrow>
        copied t' = copied t \<and> todo t' = todo t
        \<and> (case pending t' of None \<Rightarrow> True
            | Some n \<Rightarrow> n \<le> length (todo t) \<and> subarr buf' 0 n = take n (todo t))"
    and store: "sound t \<Longrightarrow> pending t = Some n \<Longrightarrow> step buf t = (buf', t') \<Longrightarrow>
        buf' = buf \<and> pending t' = None \<and> n \<le> length (todo t)
        \<and> copied t' = copied t @ subarr buf 0 n \<and> todo t' = drop n (todo t)"
    and turn: "sound t \<Longrightarrow> step buf t = (buf', t') \<Longrightarrow> variant t' < variant t \<or> variant t = 0 \<and> t' = t"
begin

lemma step_length:
  assumes "sound t" and "step buf t = (buf', t')"
  shows "length (copied t') + length (todo t') = length (copied t) + length (todo t)"
  using fetch [OF assms(1) _ assms(2)] store [OF assms(1) _ assms(2)] by (cases "pending t") auto

lemma list_update_map_same: "i < length ts \<Longrightarrow> f x = f (ts ! i) \<Longrightarrow> map f (ts[i := x]) = map f ts"
  by (simp add: map_update list_update_same_conv)

text \<open>Whatever the schedule: every thread stays sound and passes on as many bytes as it has to.\<close>

lemma schedule_lengths:
  assumes "run_schedule step is (buf, ts) = (buf', ts')" and "list_all sound ts"
  shows "list_all sound ts'
    \<and> map (\<lambda>t. length (copied t) + length (todo t)) ts' = map (\<lambda>t. length (copied t) + length (todo t)) ts"
  using assms
proof (induction "is" arbitrary: buf ts)
  case Nil
  then show ?case by simp
next
  case (Cons i "is")
  show ?case
  proof (cases "i < length ts")
    case True
    obtain buf1 t1 where s: "step buf (ts ! i) = (buf1, t1)" by fastforce
    from Cons.prems(2) True have i: "sound (ts ! i)" by (simp add: list_all_length)
    have "list_all sound (ts[i := t1])"
      using Cons.prems(2) step_sound [OF i s] True by (simp add: list_all_length nth_list_update)
    from Cons.IH [OF _ this, of buf1] Cons.prems(1) True s show ?thesis
      using list_update_map_same [OF True, of "\<lambda>t. length (copied t) + length (todo t)", OF step_length [OF i s]]
      by simp
  next
    case False
    with Cons show ?thesis by simp
  qed
qed

text \<open>A thread that gets enough turns finishes, whatever the others do.\<close>

lemma schedule_finishes:
  assumes "run_schedule step is (buf, ts) = (buf', ts')" and "list_all sound ts"
    and "i < length ts" and "variant (ts ! i) \<le> count_list is i"
  shows "variant (ts' ! i) = 0"
  using assms
proof (induction "is" arbitrary: buf ts)
  case Nil
  then show ?case by simp
next
  case (Cons j "is")
  show ?case
  proof (cases "j < length ts")
    case True
    obtain buf1 t1 where s: "step buf (ts ! j) = (buf1, t1)" by fastforce
    from Cons.prems(2) True have j: "sound (ts ! j)" by (simp add: list_all_length)
    have "list_all sound (ts[j := t1])"
      using Cons.prems(2) step_sound [OF j s] True by (simp add: list_all_length nth_list_update)
    moreover have "variant (ts[j := t1] ! i) \<le> count_list is i"
      using Cons.prems(3,4) turn [OF j s] True by (cases "j = i") auto
    ultimately show ?thesis using Cons.IH [of buf1 "ts[j := t1]"] Cons.prems(1,3) True s by simp
  next
    case False
    with Cons.prems(3) have "j \<noteq> i" by auto
    with Cons False show ?thesis by simp
  qed
qed

lemma exclusive_step:
  assumes "sound (ts ! i)" and "i < length ts" and "held pending todo buf ts"
    and "\<forall>j < length ts. j \<noteq> i \<longrightarrow> pending (ts ! j) = None" and "step buf (ts ! i) = (buf1, t1)"
  shows "copied t1 @ todo t1 = copied (ts ! i) @ todo (ts ! i)" and "held pending todo buf1 (ts[i := t1])"
proof -
  have p: "subarr buf1 0 n = take n (todo t1)" if "pending t1 = Some n" for n
    using fetch [OF assms(1) _ assms(5)] store [OF assms(1) _ assms(5)] that
    by (cases "pending (ts ! i)") auto
  with assms(2,4) show "held pending todo buf1 (ts[i := t1])" by (auto simp: held_def nth_list_update split: option.splits)
  show "copied t1 @ todo t1 = copied (ts ! i) @ todo (ts ! i)"
  proof (cases "pending (ts ! i)")
    case None
    with fetch [OF assms(1) _ assms(5)] show ?thesis by simp
  next
    case (Some n)
    with assms(2,3) have "subarr buf 0 n = take n (todo (ts ! i))" by (fastforce simp: held_def)
    with store [OF assms(1) Some assms(5)] show ?thesis by simp
  qed
qed

lemma schedule_intact:
  assumes "run_schedule step is (buf, ts) = (buf', ts')" and "list_all sound ts"
    and "exclusive step pending is (buf, ts)" and "held pending todo buf ts"
  shows "map (\<lambda>t. copied t @ todo t) ts' = map (\<lambda>t. copied t @ todo t) ts"
  using assms
proof (induction "is" arbitrary: buf ts)
  case Nil
  then show ?case by simp
next
  case (Cons i "is")
  show ?case
  proof (cases "i < length ts")
    case True
    obtain buf1 t1 where s: "step buf (ts ! i) = (buf1, t1)" by fastforce
    from Cons.prems(2) True have i: "sound (ts ! i)" by (simp add: list_all_length)
    have snd: "list_all sound (ts[i := t1])"
      using Cons.prems(2) step_sound [OF i s] True by (simp add: list_all_length nth_list_update)
    from Cons.prems(3) True s have "\<forall>j < length ts. j \<noteq> i \<longrightarrow> pending (ts ! j) = None" by simp
    note x = exclusive_step [OF i True Cons.prems(4) this s]
    from Cons.IH [OF _ snd _ x(2)] Cons.prems(1,3) True s
      list_update_map_same [OF True, of "\<lambda>t. copied t @ todo t", OF x(1)]
    show ?thesis by simp
  next
    case False
    with Cons show ?thesis by simp
  qed
qed

lemma exclusive_alone: "exclusive step pending is (buf, [t])"
  by (induction "is" arbitrary: buf t) (auto split: prod.splits)

text \<open>Two fetches in a row, and the first thread passes on the bytes of the second.\<close>

lemma schedule_mixes:
  assumes "sound t" and "sound u" and "pending t = None" and "pending u = None"
    and "step buf t = (buf1, t1)" and "pending t1 = Some n" and "step buf1 u = (buf2, u1)"
    and "pending u1 = Some n" and "step buf2 t1 = (buf3, t2)"
  shows "run_schedule step [0, 1, 0] (buf, [t, u]) = (buf2, [t2, u1])"
    and "copied t2 = copied t @ take n (todo u)" and "todo t2 = drop n (todo t)"
proof -
  note 1 = fetch [OF assms(1,3,5)] and 2 = fetch [OF assms(2,4,7)]
  note 3 = store [OF step_sound [OF assms(1,5)] assms(6,9)]
  show "run_schedule step [0, 1, 0] (buf, [t, u]) = (buf2, [t2, u1])"
    using assms(5,7,9) 3 by simp
  show "copied t2 = copied t @ take n (todo u)" "todo t2 = drop n (todo t)"
    using 1 2 3 assms(8) by simp_all
qed

end

end
