(* ===== verification/Shared_Response.thy ===== *)
theory Shared_Response
  imports Http_Response Shared_Buffers
begin

text \<open>
  Several IO workers inside \<open>HttpResponsor::genResponseBody\<close> (\<open>HttpUtils/HttpResponse.cc\<close>) at once,
  copying their bodies through the one static array of that file.
\<close>

section \<open>Response bodies\<close>

text \<open>
  A thread inside the loop of \<open>genResponseBody\<close>: its locals \<open>rest\<close>, \<open>error\<close> and \<open>body\<close> and the output
  stream of its client. The array is shared.
\<close>

record body_thread =
  bt_pc :: copy_pc
  bt_rest :: int
  bt_error :: server_err_t
  bt_body :: body_stream
  bt_out :: SocketOutputStream

definition bt_step :: "carray \<Rightarrow> body_thread \<Rightarrow> carray \<times> body_thread" where
  "bt_step buf t =
     (case bt_pc t of
        At_Read \<Rightarrow>
          if bt_rest t \<le> 0 then (buf, t\<lparr>bt_pc := Finished\<rparr>)
          else (let want = (if bt_rest t < int RP_BFSIZE then nat (bt_rest t) else RP_BFSIZE)
                in if \<not> rd_fail (bt_body t)
                   then (case rd_readsome (bt_body t) want of
                           (xs, body1) \<Rightarrow>
                             (blit 0 xs buf, t\<lparr>bt_pc := At_Use (length xs), bt_body := body1\<rparr>))
                   else (buf, t\<lparr>bt_pc := At_Use want\<rparr>))
      | At_Use cur \<Rightarrow>
          (buf, t\<lparr>bt_pc := At_Check, bt_out := ostream_write (bt_out t) (subarr buf 0 cur),
                  bt_rest := bt_rest t - int cur\<rparr>)
      | At_Check \<Rightarrow>
          (let short = (0 < bt_rest t \<and> rd_fail (bt_body t));
               buf1 = (if short then blit 0 (replicate 4096 (CHR 0x00)) buf else buf);
               t1 = (if short then t\<lparr>bt_error := GEN_RESPONSE_BODY_FAILED\<rparr> else t)
           in if os_bad (bt_out t)
              then (buf1, t1\<lparr>bt_pc := Finished, bt_error := GEN_RESPONSE_BODY_FAILED\<rparr>)
              else (buf1, t1\<lparr>bt_pc := At_Read\<rparr>))
      | Finished \<Rightarrow> (buf, t))"

definition start_body :: "int \<Rightarrow> server_err_t \<Rightarrow> body_stream \<Rightarrow> SocketOutputStream \<Rightarrow> body_thread" where
  "start_body rest error body out =
     \<lparr>bt_pc = At_Read, bt_rest = rest, bt_error = error, bt_body = body, bt_out = out\<rparr>"

lemma solo_Finished: "bt_pc t = Finished \<Longrightarrow> run_schedule bt_step (replicate n 0) (buf, [t]) = (buf, [t])"
  by (induction n) (simp_all add: bt_step_def)

text \<open>One turn of the loop is three statements; the first decides how many bytes it moves.\<close>

abbreviation read_block :: "int \<Rightarrow> body_stream \<Rightarrow> carray \<Rightarrow> nat \<times> body_stream \<times> carray" where
  "read_block rest body buf \<equiv>
     (let want = (if rest < int RP_BFSIZE then nat rest else RP_BFSIZE)
      in if \<not> rd_fail body
         then (case rd_readsome body want of (xs, body1) \<Rightarrow> (length xs, body1, blit 0 xs buf))
         else (want, body, buf))"

lemma bt_step_read:
  assumes "0 < rest" and "read_block rest body buf = (cur, body1, buf1)"
  shows "bt_step buf (start_body rest error body out)
    = (buf1, \<lparr>bt_pc = At_Use cur, bt_rest = rest, bt_error = error, bt_body = body1, bt_out = out\<rparr>)"
  using assms by (auto simp: bt_step_def start_body_def Let_def split: if_splits prod.splits)

lemma bt_step_use:
  "bt_step buf \<lparr>bt_pc = At_Use cur, bt_rest = rest, bt_error = error, bt_body = body, bt_out = out\<rparr>
    = (buf, \<lparr>bt_pc = At_Check, bt_rest = rest - int cur, bt_error = error, bt_body = body,
             bt_out = ostream_write out (subarr buf 0 cur)\<rparr>)"
  by (simp add: bt_step_def)

lemma bt_step_check:
  "bt_step buf \<lparr>bt_pc = At_Check, bt_rest = rest, bt_error = error, bt_body = body, bt_out = out\<rparr>
    = (if 0 < rest \<and> rd_fail body then blit 0 (replicate 4096 (CHR 0x00)) buf else buf,
       if os_bad out
       then \<lparr>bt_pc = Finished, bt_rest = rest, bt_error = GEN_RESPONSE_BODY_FAILED, bt_body = body, bt_out = out\<rparr>
       else start_body rest (if 0 < rest \<and> rd_fail body then GEN_RESPONSE_BODY_FAILED else error) body out)"
  by (simp add: bt_step_def Let_def start_body_def)

lemma bt_step_end:
  "rest \<le> 0 \<Longrightarrow> bt_step buf (start_body rest error body out)
    = (buf, \<lparr>bt_pc = Finished, bt_rest = rest, bt_error = error, bt_body = body, bt_out = out\<rparr>)"
  by (simp add: bt_step_def start_body_def)

definition bt_ends :: "carray \<Rightarrow> body_thread \<Rightarrow> server_err_t \<times> body_stream \<times> carray \<times> SocketOutputStream \<Rightarrow> nat \<Rightarrow> bool" where
  "bt_ends buf t res n =
     (case res of (e, body1, buf1, out1) \<Rightarrow>
        \<exists>rest1. run_schedule bt_step (replicate n 0) (buf, [t])
          = (buf1, [\<lparr>bt_pc = Finished, bt_rest = rest1, bt_error = e, bt_body = body1, bt_out = out1\<rparr>]))"

lemma bt_ends_Suc: "bt_step buf t = (buf1, t1) \<Longrightarrow> bt_ends buf t res (Suc n) = bt_ends buf1 t1 res n"
  by (auto simp: bt_ends_def simp del: replicate.simps simp add: solo_Suc split: prod.splits)

lemma bt_ends_0: "bt_pc t \<noteq> Finished \<Longrightarrow> \<not> bt_ends buf t res 0"
  by (auto simp: bt_ends_def split: prod.splits)

lemma bt_ends_Finished:
  "bt_ends buf \<lparr>bt_pc = Finished, bt_rest = rest, bt_error = e, bt_body = body, bt_out = out\<rparr> res n
     \<longleftrightarrow> res = (e, body, buf, out)"
  by (auto simp: bt_ends_def solo_Finished split: prod.splits)

lemma gen_body_loop_to_steps:
  assumes "gen_body_loop rest error body buf out = Some res"
  shows "\<exists>n. bt_ends buf (start_body rest error body out) res n"
proof (rule gen_body_loop.raw_induct
    [where P = "\<lambda>rest error body buf out res. \<exists>n. bt_ends buf (start_body rest error body out) res n", OF _ assms])
  fix f rest error body buf out res
  assume IH: "\<And>rest error body buf out res. f rest error body buf out = Some res \<Longrightarrow>
      \<exists>n. bt_ends buf (start_body rest error body out) res n"
    and eq: "(if rest \<le> 0 then Some (error, body, buf, out)
      else (let want = (if rest < int RP_BFSIZE then nat rest else RP_BFSIZE)
            in case (if \<not> rd_fail body
                     then (case rd_readsome body want of
                             (xs, body1) \<Rightarrow> (length xs, body1, blit 0 xs buf))
                     else (want, body, buf)) of
                 (cur, body1, buf1) \<Rightarrow>
                   (let out1 = ostream_write out (subarr buf1 0 cur);
                        rest1 = rest - int cur;
                        short = (0 < rest1 \<and> rd_fail body1);
                        buf2 = (if short then blit 0 (replicate 4096 (CHR 0x00)) buf1 else buf1);
                        error1 = (if short then GEN_RESPONSE_BODY_FAILED else error)
                    in if os_bad out1 then Some (GEN_RESPONSE_BODY_FAILED, body1, buf2, out1)
                       else f rest1 error1 body1 buf2 out1))) = Some res"
  show "\<exists>n. bt_ends buf (start_body rest error body out) res n"
  proof (cases "rest \<le> 0")
    case True
    with eq have "bt_ends buf (start_body rest error body out) res (Suc 0)"
      by (simp add: bt_ends_Suc [OF bt_step_end] bt_ends_Finished)
    then show ?thesis ..
  next
    case False
    obtain cur body1 buf1 where r: "read_block rest body buf = (cur, body1, buf1)"
      using prod_cases3 by blast
    note step = bt_ends_Suc [OF bt_step_read [OF _ r]] bt_ends_Suc [OF bt_step_use] bt_ends_Suc [OF bt_step_check]
    show ?thesis
    proof (cases "os_bad (ostream_write out (subarr buf1 0 cur))")
      case True
      with eq False r have "bt_ends buf (start_body rest error body out) res (Suc (Suc (Suc 0)))"
        by (auto simp: step bt_ends_Finished Let_def)
      then show ?thesis ..
    next
      case ok: False
      let ?short = "0 < rest - int cur \<and> rd_fail body1"
      let ?buf = "if ?short then blit 0 (replicate 4096 (CHR 0x00)) buf1 else buf1"
      let ?error = "if ?short then GEN_RESPONSE_BODY_FAILED else error"
      let ?out = "ostream_write out (subarr buf1 0 cur)"
      from eq False r ok have "f (rest - int cur) ?error body1 ?buf ?out = Some res"
        by (simp add: Let_def)
      from IH [OF this] obtain n where "bt_ends ?buf (start_body (rest - int cur) ?error body1 ?out) res n" ..
      with False ok have "bt_ends buf (start_body rest error body out) res (Suc (Suc (Suc n)))"
        by (simp add: step)
      then show ?thesis ..
    qed
  qed
qed

lemma gen_body_loop_from_steps:
  "bt_ends buf (start_body rest error body out) res n \<Longrightarrow> gen_body_loop rest error body buf out = Some res"
proof (induction n arbitrary: buf rest error body out rule: less_induct)
  case (less n)
  have nf: "bt_pc (start_body rest error body out) \<noteq> Finished" by (simp add: start_body_def)
  from less.prems bt_ends_0 [OF nf] obtain n1 where n1: "n = Suc n1" by (cases n) auto
  show ?case
  proof (cases "rest \<le> 0")
    case True
    with less.prems n1 show ?thesis
      by (simp add: bt_ends_Suc [OF bt_step_end] bt_ends_Finished gen_body_loop.simps)
  next
    case False
    obtain cur body1 buf1 where r: "read_block rest body buf = (cur, body1, buf1)"
      using prod_cases3 by blast
    note step = bt_ends_Suc [OF bt_step_read [OF _ r]] bt_ends_Suc [OF bt_step_use] bt_ends_Suc [OF bt_step_check]
    from less.prems False n1 have 1:
      "bt_ends buf1 \<lparr>bt_pc = At_Use cur, bt_rest = rest, bt_error = error, bt_body = body1, bt_out = out\<rparr> res n1"
      by (simp add: step)
    then obtain n2 where n2: "n1 = Suc n2" by (cases n1) (auto simp: bt_ends_0)
    with 1 obtain n3 where n3: "n2 = Suc n3" by (cases n2) (auto simp: step bt_ends_0)
    let ?out = "ostream_write out (subarr buf1 0 cur)"
    show ?thesis
    proof (cases "os_bad ?out")
      case True
      with 1 n2 n3 False r show ?thesis
        by (subst gen_body_loop.simps) (auto simp: step bt_ends_Finished Let_def)
    next
      case ok: False
      note 2 = less.IH [of n3]
      from 1 n1 n2 n3 ok r False show ?thesis
        by (subst gen_body_loop.simps) (simp add: step 2 Let_def)
    qed
  qed
qed

section \<open>Threads whose body and client are in order\<close>

definition bt_pending :: "body_thread \<Rightarrow> nat option" where
  "bt_pending t = pc_pending (bt_pc t)"

definition bt_copied :: "body_thread \<Rightarrow> string" where
  "bt_copied t = written (bt_out t)"

definition bt_todo :: "body_thread \<Rightarrow> string" where
  "bt_todo t = take (nat (bt_rest t)) (drop (rd_pos (bt_body t) - pend_len (bt_pc t)) (rd_data (bt_body t)))"

definition bt_sound :: "body_thread \<Rightarrow> bool" where
  "bt_sound t =
     (rd_sound (bt_body t) \<and> out_ready (bt_out t) \<and> bt_error t = SERVER_OK
      \<and> int (pend_len (bt_pc t)) \<le> bt_rest t \<and> pend_len (bt_pc t) \<le> rd_pos (bt_body t)
      \<and> nat (bt_rest t) \<le> length (rd_data (bt_body t)) - (rd_pos (bt_body t) - pend_len (bt_pc t))
      \<and> (bt_pc t = Finished \<longrightarrow> bt_rest t = 0))"

definition bt_variant :: "body_thread \<Rightarrow> nat" where
  "bt_variant t = pc_variant (bt_pc t) (nat (bt_rest t))"

lemmas bt_defs = bt_sound_def bt_todo_def bt_copied_def bt_pending_def bt_variant_def

text \<open>The read of a sound thread.\<close>

lemma bt_read_sound:
  assumes "bt_sound t" and "bt_pc t = At_Read" and "0 < bt_rest t"
  obtains n where "bt_step buf t = (blit 0 (take n (bt_todo t)) buf,
      t\<lparr>bt_pc := At_Use n, bt_body := (bt_body t)\<lparr>rd_pos := rd_pos (bt_body t) + n\<rparr>\<rparr>)"
    and "0 < n" and "n \<le> length (bt_todo t)" and "int n \<le> bt_rest t"
    and "n = min (if bt_rest t < int RP_BFSIZE then nat (bt_rest t) else RP_BFSIZE)
        (min (rd_avail (bt_body t) (rd_pos (bt_body t))) (length (rd_data (bt_body t)) - rd_pos (bt_body t)))"
proof -
  let ?b = "bt_body t" and ?want = "if bt_rest t < int RP_BFSIZE then nat (bt_rest t) else RP_BFSIZE"
  define n where "n = min ?want (min (rd_avail ?b (rd_pos ?b)) (length (rd_data ?b) - rd_pos ?b))"
  from assms have len: "nat (bt_rest t) \<le> length (rd_data ?b) - rd_pos ?b" "rd_sound ?b" by (auto simp: bt_sound_def)
  with assms(3) have "rd_pos ?b < length (rd_data ?b)" by linarith
  with len(2) have "0 < rd_avail ?b (rd_pos ?b)" by (simp add: rd_sound_def)
  with assms(3) \<open>rd_pos ?b < length (rd_data ?b)\<close> have pos: "0 < n" by (simp add: n_def RP_BFSIZE_def)
  have n: "n \<le> nat (bt_rest t)" by (auto simp: n_def)
  have le: "n \<le> length (bt_todo t)" using n len(1) assms(2) by (simp add: bt_todo_def)
  have tk: "take n (drop (rd_pos ?b) (rd_data ?b)) = take n (bt_todo t)"
    using n assms(2) by (simp add: bt_todo_def min_absorb1)
  have "rd_readsome ?b ?want = (take n (drop (rd_pos ?b) (rd_data ?b)), ?b\<lparr>rd_pos := rd_pos ?b + n\<rparr>)"
    using len(2) by (simp add: rd_readsome_def n_def Let_def)
  then have "bt_step buf t = (blit 0 (take n (bt_todo t)) buf,
      t\<lparr>bt_pc := At_Use (length (take n (bt_todo t))), bt_body := ?b\<lparr>rd_pos := rd_pos ?b + n\<rparr>\<rparr>)"
    using assms(2,3) len(2) by (simp add: bt_step_def Let_def tk del: length_take)
  moreover have "length (take n (bt_todo t)) = n" using le by simp
  moreover have "int n \<le> bt_rest t" using n assms(3) by linarith
  ultimately show thesis using pos le n_def by (intro that [of n]) (simp_all only:)
qed

lemma bt_read_laws:
  assumes "bt_sound t" and "bt_pc t = At_Read" and "0 < bt_rest t" and "bt_step buf t = (buf', t')"
  shows "bt_sound t'" and "bt_copied t' = bt_copied t" and "bt_todo t' = bt_todo t"
    and "\<exists>n. bt_pending t' = Some n \<and> n \<le> length (bt_todo t) \<and> subarr buf' 0 n = take n (bt_todo t)"
    and "bt_variant t' < bt_variant t"
proof -
  obtain n where n: "bt_step buf t = (blit 0 (take n (bt_todo t)) buf,
      t\<lparr>bt_pc := At_Use n, bt_body := (bt_body t)\<lparr>rd_pos := rd_pos (bt_body t) + n\<rparr>\<rparr>)"
    "0 < n" "n \<le> length (bt_todo t)" "int n \<le> bt_rest t"
    using bt_read_sound [OF assms(1-3), of buf] by blast
  with assms(4) have t': "buf' = blit 0 (take n (bt_todo t)) buf"
    "t' = t\<lparr>bt_pc := At_Use n, bt_body := (bt_body t)\<lparr>rd_pos := rd_pos (bt_body t) + n\<rparr>\<rparr>" by simp_all
  show "bt_sound t'" using assms(1,2) n(2-4) by (auto simp: t' bt_sound_def rd_sound_def)
  show "bt_copied t' = bt_copied t" "bt_todo t' = bt_todo t"
    using assms(2) by (simp_all add: t' bt_copied_def bt_todo_def)
  have "subarr buf' 0 (length (take n (bt_todo t))) = take n (bt_todo t)" unfolding t' by (rule subarr_blit_zero)
  with n(3) show "\<exists>n. bt_pending t' = Some n \<and> n \<le> length (bt_todo t) \<and> subarr buf' 0 n = take n (bt_todo t)"
    by (intro exI [of _ n]) (simp add: t' bt_pending_def)
  show "bt_variant t' < bt_variant t" using assms(2) n(2,4) by (simp add: t' bt_variant_def)
qed

lemma bt_use_sound:
  assumes "bt_sound t" and "bt_pc t = At_Use n"
  shows "bt_sound (snd (bt_step buf t))"
    and "bt_copied (snd (bt_step buf t)) = bt_copied t @ subarr buf 0 n"
    and "bt_todo (snd (bt_step buf t)) = drop n (bt_todo t)" and "n \<le> length (bt_todo t)"
proof -
  let ?b = "bt_body t"
  have a: "rd_sound ?b" "out_ready (bt_out t)" "int n \<le> bt_rest t" "n \<le> rd_pos ?b"
    "nat (bt_rest t) \<le> length (rd_data ?b) - (rd_pos ?b - n)" "bt_error t = SERVER_OK"
    using assms by (auto simp: bt_sound_def)
  have w: "out_ready (ostream_write (bt_out t) xs)" "written (ostream_write (bt_out t) xs) = written (bt_out t) @ xs"
    for xs using a(2) by (auto intro: sos.put_ready sos.put_content)
  have "nat (bt_rest t - int n) \<le> length (rd_data ?b) - rd_pos ?b" using a(3-5) by linarith
  with a w assms(2) show "bt_sound (snd (bt_step buf t))"
    by (auto simp: bt_sound_def bt_step_def)
  show "bt_copied (snd (bt_step buf t)) = bt_copied t @ subarr buf 0 n"
    using assms(2) w by (simp add: bt_step_def bt_copied_def)
  show "n \<le> length (bt_todo t)" using assms(2) a by (simp add: bt_todo_def)
  have "nat (bt_rest t - int n) = nat (bt_rest t) - n" using a(3) by simp
  with a(4) assms(2) show "bt_todo (snd (bt_step buf t)) = drop n (bt_todo t)"
    by (simp add: bt_step_def bt_todo_def drop_take)
qed

lemma bt_other_sound:
  assumes "bt_sound t" and "bt_pc t = At_Check \<or> bt_pc t = Finished \<or> bt_pc t = At_Read \<and> bt_rest t \<le> 0"
  shows "fst (bt_step buf t) = buf" and "bt_sound (snd (bt_step buf t))"
    and "bt_copied (snd (bt_step buf t)) = bt_copied t" and "bt_todo (snd (bt_step buf t)) = bt_todo t"
    and "bt_pending (snd (bt_step buf t)) = None"
    and "bt_variant (snd (bt_step buf t)) < bt_variant t \<or> bt_variant t = 0 \<and> snd (bt_step buf t) = t"
  using assms by (auto simp: bt_step_def bt_defs sos.ready_not_failed Let_def)

lemma bt_cases:
  obtains (read) "bt_pc t = At_Read" "0 < bt_rest t" | (use) m where "bt_pc t = At_Use m"
    | (other) "bt_pc t = At_Check \<or> bt_pc t = Finished \<or> bt_pc t = At_Read \<and> bt_rest t \<le> 0"
  by (cases "bt_pc t") fastforce+

lemma bt_use_variant: "bt_sound t \<Longrightarrow> bt_pc t = At_Use n \<Longrightarrow> bt_variant (snd (bt_step buf t)) < bt_variant t"
  by (auto simp: bt_step_def bt_variant_def bt_sound_def)

interpretation bt: shared_copy bt_step bt_pending bt_copied bt_todo bt_sound bt_variant
proof
  fix t buf buf' t'
  assume s: "bt_sound t" and e: "bt_step buf t = (buf', t')"
  show "bt_sound t'"
    using bt_read_laws(1) [OF s _ _ e] bt_use_sound(1) [OF s, of _ buf] bt_other_sound(2) [OF s, of buf] e
    by (cases rule: bt_cases [of t]) auto
  show "bt_variant t' < bt_variant t \<or> bt_variant t = 0 \<and> t' = t"
    using bt_read_laws(5) [OF s _ _ e] bt_use_variant [OF s, of _ buf] bt_other_sound(6) [OF s, of buf] e
    by (cases rule: bt_cases [of t]) auto
next
  fix t buf buf' t'
  assume s: "bt_sound t" and p: "bt_pending t = None" and e: "bt_step buf t = (buf', t')"
  show "bt_copied t' = bt_copied t \<and> bt_todo t' = bt_todo t
      \<and> (case bt_pending t' of None \<Rightarrow> True
          | Some n \<Rightarrow> n \<le> length (bt_todo t) \<and> subarr buf' 0 n = take n (bt_todo t))"
    using bt_read_laws(2-4) [OF s _ _ e] bt_other_sound(3-5) [OF s, of buf] e p
    by (cases rule: bt_cases [of t]) (auto simp: bt_pending_def)
next
  fix t n buf buf' t'
  assume s: "bt_sound t" and p: "bt_pending t = Some n" and e: "bt_step buf t = (buf', t')"
  from p have "bt_pc t = At_Use n" by (cases "bt_pc t") (auto simp: bt_pending_def)
  from bt_use_sound(2,3) [OF s this, of buf] bt_use_sound(4) [OF s this] this e
  show "buf' = buf \<and> bt_pending t' = None \<and> n \<le> length (bt_todo t)
      \<and> bt_copied t' = bt_copied t @ subarr buf 0 n \<and> bt_todo t' = drop n (bt_todo t)"
    by (auto simp: bt_step_def bt_pending_def)
qed

section \<open>Several workers send at once\<close>

text \<open>
  The loops several workers have just entered, each with the body of its response, rewound, and the
  output stream of its client.
\<close>

definition start_job :: "body_stream \<times> SocketOutputStream \<Rightarrow> body_thread" where
  "start_job job = (case job of (body, out) \<Rightarrow>
     start_body (int (length (rd_data body))) SERVER_OK (seekg_beg body) out)"

definition job_ok :: "body_stream \<times> SocketOutputStream \<Rightarrow> bool" where
  "job_ok job = (rd_sound (fst job) \<and> out_ready (snd job))"

text \<open>Every thread gets the turns its loop needs, three for a byte and one to leave.\<close>

definition enough_turns :: "(body_stream \<times> SocketOutputStream) list \<Rightarrow> nat list \<Rightarrow> bool" where
  "enough_turns jobs is =
     (\<forall>i < length jobs. 3 * length (rd_data (fst (jobs ! i))) + 1 \<le> count_list is i)"

lemma start_job_laws:
  assumes "job_ok job"
  shows "bt_sound (start_job job)" and "bt_pending (start_job job) = None"
    and "bt_copied (start_job job) = written (snd job)" and "bt_todo (start_job job) = rd_data (fst job)"
    and "bt_variant (start_job job) = 3 * length (rd_data (fst job)) + 1"
  using assms
  by (simp_all add: start_job_def start_body_def bt_defs job_ok_def seekg_beg_def split_beta)
     (simp add: rd_sound_def)

lemma ready_put:
  assumes "out_ready out"
  shows "\<not> os_bad (ostream_write out zs)" and "written (ostream_write out zs) = written out @ zs"
  using sos.ready_not_failed [OF sos.put_ready [OF assms]] sos.put_content [OF assms] by auto

lemma start_job_string:
  "start_job (istringstream zs, out) = start_body (int (length zs)) SERVER_OK (istringstream zs) out"
  by (simp add: start_job_def seekg_beg_def istringstream_def)

text \<open>A string body of at most the size of the array is read at once.\<close>

lemma bt_step_string:
  assumes "length zs = n" and "0 < n" and "n \<le> RP_BFSIZE"
  shows "bt_step buf (start_body (int n) e (istringstream zs) out)
    = (blit 0 zs buf, \<lparr>bt_pc = At_Use n, bt_rest = int n, bt_error = e,
         bt_body = (istringstream zs)\<lparr>rd_pos := n\<rparr>, bt_out = out\<rparr>)"
  using assms by (intro bt_step_read) (auto simp: istringstream_def rd_readsome_def)

lemma bt_variant_0: "bt_variant t = 0 \<longleftrightarrow> bt_pc t = Finished"
  by (cases "bt_pc t") (simp_all add: bt_variant_def)

lemma jobs_finish:
  assumes "list_all job_ok jobs" and "enough_turns jobs is"
    and "run_schedule bt_step is (buf, map start_job jobs) = (buf', ts)" and "i < length jobs"
  shows "bt_pc (ts ! i) = Finished" and "bt_error (ts ! i) = SERVER_OK" and "bt_todo (ts ! i) = []"
proof -
  from assms(1) have s: "list_all bt_sound (map start_job jobs)"
    by (auto simp: list_all_length start_job_laws)
  from assms(1,4) have ok: "job_ok (jobs ! i)" by (simp add: list_all_length)
  with bt.schedule_finishes [OF assms(3) s, of i] assms(2,4) show f: "bt_pc (ts ! i) = Finished"
    by (simp add: bt_variant_0 start_job_laws enough_turns_def)
  from bt.schedule_lengths [OF assms(3) s] assms(4) length_run_schedule [OF assms(3)] have "bt_sound (ts ! i)"
    by (simp add: list_all_length)
  with f show "bt_error (ts ! i) = SERVER_OK" "bt_todo (ts ! i) = []"
    by (auto simp: bt_sound_def bt_todo_def)
qed


text \<open>
  (C15) Responses stay intact as long as no worker moves between another's read into the static
  array and its write out of it: under every such schedule that gives each worker its turns, every
  client is sent exactly the body of its own response. One IO worker alone is such a schedule.
\<close>

theorem exclusive_bodies_intact:
  assumes "list_all job_ok jobs" and "enough_turns jobs is"
    and "length jobs = 1 \<or> exclusive bt_step bt_pending is (buf, map start_job jobs)"
  shows "\<exists>buf' ts. run_schedule bt_step is (buf, map start_job jobs) = (buf', ts)
    \<and> (\<forall>i < length jobs. bt_pc (ts ! i) = Finished \<and> bt_error (ts ! i) = SERVER_OK
        \<and> written (bt_out (ts ! i)) = written (snd (jobs ! i)) @ rd_data (fst (jobs ! i)))"
proof -
  obtain buf' ts where r: "run_schedule bt_step is (buf, map start_job jobs) = (buf', ts)" by fastforce
  from assms(1) have s: "list_all bt_sound (map start_job jobs)"
    by (auto simp: list_all_length start_job_laws)
  have x: "exclusive bt_step bt_pending is (buf, map start_job jobs)"
    using assms(3) bt.exclusive_alone by (auto simp: length_Suc_conv)
  have h: "held bt_pending bt_todo buf (map start_job jobs)"
    using assms(1) by (simp add: held_def list_all_length start_job_laws)
  note eq = bt.schedule_intact [OF r s x h]
  have "written (bt_out (ts ! i)) = written (snd (jobs ! i)) @ rd_data (fst (jobs ! i))" if i: "i < length jobs" for i
  proof -
    have "bt_copied (ts ! i) @ bt_todo (ts ! i) = bt_copied (start_job (jobs ! i)) @ bt_todo (start_job (jobs ! i))"
      using arg_cong [OF eq, of "\<lambda>xs. xs ! i"] i length_run_schedule [OF r] by simp
    with jobs_finish(3) [OF assms(1,2) r i] i assms(1) show ?thesis
      by (simp add: start_job_laws list_all_length) (simp add: bt_copied_def)
  qed
  with r jobs_finish [OF assms(1,2) r] show ?thesis by auto
qed

text \<open>
  (C23) Racing workers do not break the framing: under every schedule at all each worker still sends
  as many bytes as its \<open>Content-Length\<close> announced and reports success, for the counts are local to
  the workers; only whose bytes they are is left open.
\<close>

theorem racing_bodies_framed:
  assumes "list_all job_ok jobs" and "enough_turns jobs is"
  shows "\<exists>buf' ts. run_schedule bt_step is (buf, map start_job jobs) = (buf', ts)
    \<and> (\<forall>i < length jobs. bt_pc (ts ! i) = Finished \<and> bt_error (ts ! i) = SERVER_OK
        \<and> length (written (bt_out (ts ! i))) = length (written (snd (jobs ! i))) + length (rd_data (fst (jobs ! i))))"
proof -
  obtain buf' ts where r: "run_schedule bt_step is (buf, map start_job jobs) = (buf', ts)" by fastforce
  from assms(1) have s: "list_all bt_sound (map start_job jobs)"
    by (auto simp: list_all_length start_job_laws)
  note eq = conjunct2 [OF bt.schedule_lengths [OF r s]]
  have "length (written (bt_out (ts ! i))) = length (written (snd (jobs ! i))) + length (rd_data (fst (jobs ! i)))"
    if i: "i < length jobs" for i
  proof -
    have "length (bt_copied (ts ! i)) + length (bt_todo (ts ! i))
        = length (bt_copied (start_job (jobs ! i))) + length (bt_todo (start_job (jobs ! i)))"
      using arg_cong [OF eq, of "\<lambda>xs. xs ! i"] i length_run_schedule [OF r] by simp
    with jobs_finish(3) [OF assms r i] i assms(1) show ?thesis
      by (simp add: start_job_laws list_all_length) (simp add: bt_copied_def)
  qed
  with r jobs_finish [OF assms r] show ?thesis by auto
qed

text \<open>
  (C34) Two racing workers do mix their responses up: of two bodies of the same length the client of
  the first worker is sent the body of the second, with status and length in order and no error
  reported, when the second worker reads between the first one's read and write.
\<close>

theorem racing_bodies_mixed:
  assumes "out_ready out1" and "out_ready out2" and "length xs = length ys" and "0 < length xs"
    and "length xs \<le> RP_BFSIZE"
  shows "\<exists>buf' t u. run_schedule bt_step [0, 1, 0, 0, 0, 1, 1, 1]
      (buf, map start_job [(istringstream xs, out1), (istringstream ys, out2)]) = (buf', [t, u])
    \<and> bt_pc t = Finished \<and> bt_error t = SERVER_OK \<and> written (bt_out t) = written out1 @ ys
    \<and> bt_pc u = Finished \<and> bt_error u = SERVER_OK \<and> written (bt_out u) = written out2 @ ys"
proof -
  define n where "n = length xs"
  have len: "length xs = n" "length ys = n" "0 < n" "n \<le> RP_BFSIZE" using assms(3-5) by (simp_all add: n_def)
  have sub: "subarr (blit 0 ys b) 0 n = ys" for b
    using subarr_blit_zero [of ys b] len by simp
  show ?thesis
    unfolding list.map start_job_string len(1,2)
    using ready_put [OF assms(1)] ready_put [OF assms(2)]
    by (simp add: bt_step_string len bt_step_use bt_step_check sub bt_step_end)
qed

text \<open>Two clients that wait for one byte each.\<close>

definition ready_client :: SocketOutputStream where
  "ready_client = mk_SocketOutputStream (mk_SocketStreamBuffer (\<lambda>_. CHR 0x00)
     \<lparr>sk_rx = [], sk_tx = [], sk_snd = (\<lambda>_. BFSIZE), sk_nsnd = 0\<rparr>)"

lemma ready_client: "out_ready ready_client" "written ready_client = []"
  by (simp_all add: ready_client_def mk_SocketOutputStream_def mk_SocketStreamBuffer_def out_ready_def
      takes_all_def written_def)

theorem exclusive_bodies_intact_witness:
  "\<exists>buf' ts. run_schedule bt_step [0, 0, 0, 0, 1, 1, 1, 1]
      (\<lambda>_. CHR 0x00, map start_job [(istringstream ''a'', ready_client), (istringstream ''b'', ready_client)]) = (buf', ts)
    \<and> written (bt_out (ts ! 0)) = ''a'' \<and> written (bt_out (ts ! 1)) = ''b''"
proof -
  let ?jobs = "[(istringstream ''a'', ready_client), (istringstream ''b'', ready_client)]"
  let ?is = "[0, 0, 0, 0, 1, 1, 1, 1] :: nat list"
  have ok: "list_all job_ok ?jobs" "enough_turns ?jobs ?is"
    by (auto simp: job_ok_def ready_client enough_turns_def nth_Cons')
  have "exclusive bt_step bt_pending ?is (\<lambda>_. CHR 0x00, map start_job ?jobs)"
    using ready_put [OF ready_client(1)] bt_step_string [of "[c]" 1 for c]
    by (simp add: start_job_string bt_step_use bt_step_check bt_step_end RP_BFSIZE_def
        bt_pending_def start_body_def [THEN arg_cong, of bt_pc] nth_Cons' less_2_cases_iff)
  with exclusive_bodies_intact [OF ok, of "\<lambda>_. CHR 0x00"] show ?thesis
    by (fastforce simp: ready_client)
qed

theorem racing_bodies_framed_witness:
  "\<exists>buf' ts. run_schedule bt_step [0, 1, 0, 1, 0, 1, 0, 1]
      (\<lambda>_. CHR 0x00, map start_job [(istringstream ''a'', ready_client), (istringstream ''b'', ready_client)]) = (buf', ts)
    \<and> length (written (bt_out (ts ! 0))) = 1"
proof -
  let ?jobs = "[(istringstream ''a'', ready_client), (istringstream ''b'', ready_client)]"
  have ok: "list_all job_ok ?jobs" "enough_turns ?jobs [0, 1, 0, 1, 0, 1, 0, 1]"
    by (auto simp: job_ok_def ready_client enough_turns_def nth_Cons')
  from racing_bodies_framed [OF ok, of "\<lambda>_. CHR 0x00"] show ?thesis by (fastforce simp: ready_client)
qed

theorem racing_bodies_mixed_witness:
  "\<exists>buf' t u. run_schedule bt_step [0, 1, 0, 0, 0, 1, 1, 1]
      (\<lambda>_. CHR 0x00, map start_job [(istringstream ''a'', ready_client), (istringstream ''b'', ready_client)]) = (buf', [t, u])
    \<and> bt_error t = SERVER_OK \<and> written (bt_out t) = ''b''"
  using racing_bodies_mixed [OF ready_client(1) ready_client(1), of "''a''" "''b''" "\<lambda>_. CHR 0x00"]
  by (auto simp: ready_client RP_BFSIZE_def)

end
