(* ===== verification/Shared_Request.thy ===== *)
theory Shared_Request
  imports Http_Request Shared_Buffers
begin

text \<open>
  Several IO workers inside \<open>HttpRequestAnalyser::parseBody\<close> (\<open>HttpUtils/HttpRequest.cc\<close>) at once,
  reading the bodies of their requests through the one static array of that file.
\<close>

section \<open>Request bodies\<close>

text \<open>
  A thread inside the loop of \<open>parseBody\<close>, with its locals \<open>rest\<close> and \<open>body\<close>, the error it will return
  and the input stream of its client.
\<close>

record parse_thread =
  pt_pc :: copy_pc
  pt_rest :: nat
  pt_error :: server_err_t
  pt_body :: string
  pt_in :: SocketInputStream

definition pt_step :: "carray \<Rightarrow> parse_thread \<Rightarrow> carray \<times> parse_thread" where
  "pt_step buf t =
     (case pt_pc t of
        At_Read \<Rightarrow>
          if pt_rest t = 0 then (buf, t\<lparr>pt_pc := Finished\<rparr>)
          else (case istream_readsome (pt_in t) (if pt_rest t < RQ_BFSIZE then pt_rest t else RQ_BFSIZE) of
                  (xs, s1) \<Rightarrow> (blit 0 xs buf, t\<lparr>pt_pc := At_Use (length xs), pt_in := s1\<rparr>))
      | At_Use cur \<Rightarrow>
          (let t1 = t\<lparr>pt_body := pt_body t @ subarr buf 0 cur\<rparr>
           in if is_fail (pt_in t) then (buf, t1\<lparr>pt_pc := Finished, pt_error := PARSE_REQ_BODY_FAILED\<rparr>)
              else (buf, t1\<lparr>pt_pc := At_Read, pt_rest := pt_rest t - cur\<rparr>))
      | _ \<Rightarrow> (buf, t))"

definition start_parse :: "nat \<Rightarrow> string \<Rightarrow> SocketInputStream \<Rightarrow> parse_thread" where
  "start_parse rest body s =
     \<lparr>pt_pc = At_Read, pt_rest = rest, pt_error = SERVER_OK, pt_body = body, pt_in = s\<rparr>"

definition pt_pending :: "parse_thread \<Rightarrow> nat option" where
  "pt_pending t = pc_pending (pt_pc t)"

definition pt_todo :: "parse_thread \<Rightarrow> string" where
  "pt_todo t = take (pt_rest t) (subarr (ss_buffer (is_buf (pt_in t)))
     (ss_gptr (is_buf (pt_in t)) - pend_len (pt_pc t)) (ss_egptr (is_buf (pt_in t))))"

text \<open>The stream of the client is good and the rest of the body is in its get area.\<close>

definition pt_sound :: "parse_thread \<Rightarrow> bool" where
  "pt_sound t =
     (is_good (pt_in t) \<and> pt_error t = SERVER_OK \<and> pt_pc t \<noteq> At_Check
      \<and> pend_len (pt_pc t) \<le> pt_rest t \<and> pend_len (pt_pc t) \<le> ss_gptr (is_buf (pt_in t))
      \<and> pt_rest t \<le> ss_egptr (is_buf (pt_in t)) - (ss_gptr (is_buf (pt_in t)) - pend_len (pt_pc t))
      \<and> (pt_pc t = Finished \<longrightarrow> pt_rest t = 0))"

definition pt_variant :: "parse_thread \<Rightarrow> nat" where
  "pt_variant t = pc_variant (pt_pc t) (pt_rest t)"

lemmas pt_defs = pt_sound_def pt_todo_def pt_pending_def pt_variant_def

lemma pt_read_laws:
  assumes "pt_sound t" and "pt_pc t = At_Read" and "0 < pt_rest t" and "pt_step buf t = (buf', t')"
  defines "n \<equiv> if pt_rest t < RQ_BFSIZE then pt_rest t else RQ_BFSIZE"
  shows "t' = t\<lparr>pt_pc := At_Use n, pt_in := (pt_in t)\<lparr>is_buf := (is_buf (pt_in t))
      \<lparr>ss_gptr := ss_gptr (is_buf (pt_in t)) + n\<rparr>\<rparr>\<rparr>"
    and "buf' = blit 0 (take n (pt_todo t)) buf" and "0 < n" and "n \<le> pt_rest t" and "n \<le> length (pt_todo t)"
proof -
  let ?b = "is_buf (pt_in t)"
  have n: "0 < n" "n \<le> pt_rest t" using assms(3) by (auto simp: n_def RQ_BFSIZE_def)
  then show "0 < n" "n \<le> pt_rest t" by blast+
  from assms(1,2) have a: "is_good (pt_in t)" "pt_rest t \<le> ss_egptr ?b - ss_gptr ?b" by (auto simp: pt_sound_def)
  with n show le: "n \<le> length (pt_todo t)" using assms(2) by (simp add: pt_todo_def)
  from a n have m: "min n (ss_egptr ?b - ss_gptr ?b) = n" by simp
  with a have "istream_readsome (pt_in t) n
      = (subarr (ss_buffer ?b) (ss_gptr ?b) (ss_gptr ?b + n), (pt_in t)\<lparr>is_buf := ?b\<lparr>ss_gptr := ss_gptr ?b + n\<rparr>\<rparr>)"
    by (simp add: istream_readsome_def Let_def)
  with assms(2-4) have s: "buf' = blit 0 (subarr (ss_buffer ?b) (ss_gptr ?b) (ss_gptr ?b + n)) buf"
    "t' = t\<lparr>pt_pc := At_Use n, pt_in := (pt_in t)\<lparr>is_buf := ?b\<lparr>ss_gptr := ss_gptr ?b + n\<rparr>\<rparr>\<rparr>"
    by (auto simp: pt_step_def n_def)
  then show "t' = t\<lparr>pt_pc := At_Use n, pt_in := (pt_in t)\<lparr>is_buf := ?b\<lparr>ss_gptr := ss_gptr ?b + n\<rparr>\<rparr>\<rparr>" by blast
  have "take n (pt_todo t) = subarr (ss_buffer ?b) (ss_gptr ?b) (ss_gptr ?b + n)"
    using n assms(2) subarr_min [of "ss_buffer ?b" "ss_gptr ?b" n "ss_egptr ?b"]
    by (simp add: pt_todo_def min_absorb1 m)
  with s show "buf' = blit 0 (take n (pt_todo t)) buf" by simp
qed

lemma pt_use_laws:
  assumes "pt_sound t" and "pt_pc t = At_Use n" and "pt_step buf t = (buf', t')"
  shows "t' = t\<lparr>pt_pc := At_Read, pt_body := pt_body t @ subarr buf 0 n, pt_rest := pt_rest t - n\<rparr>"
    and "buf' = buf" and "n \<le> length (pt_todo t)" and "pt_todo t' = drop n (pt_todo t)"
proof -
  let ?b = "is_buf (pt_in t)"
  from assms(1,2) have a: "\<not> is_fail (pt_in t)" "n \<le> pt_rest t" "n \<le> ss_gptr ?b"
    "pt_rest t \<le> ss_egptr ?b - (ss_gptr ?b - n)" by (auto simp: pt_sound_def is_good_def)
  with assms(2,3) show t': "t' = t\<lparr>pt_pc := At_Read, pt_body := pt_body t @ subarr buf 0 n, pt_rest := pt_rest t - n\<rparr>"
    "buf' = buf" by (auto simp: pt_step_def Let_def)
  show "n \<le> length (pt_todo t)" using a assms(2) by (simp add: pt_todo_def)
  show "pt_todo t' = drop n (pt_todo t)" using a assms(2) by (simp add: t' pt_todo_def drop_take drop_subarr)
qed

lemma pt_end_laws:
  assumes "pt_sound t" and "pt_pc t = Finished \<or> pt_pc t = At_Read \<and> pt_rest t = 0" and "pt_step buf t = (buf', t')"
  shows "t' = t\<lparr>pt_pc := Finished\<rparr>" and "buf' = buf"
  using assms by (cases t; auto simp: pt_step_def)+

lemma pt_cases:
  assumes "pt_sound t"
  obtains (read) "pt_pc t = At_Read" "0 < pt_rest t" | (use) m where "pt_pc t = At_Use m"
    | (other) "pt_pc t = Finished \<or> pt_pc t = At_Read \<and> pt_rest t = 0"
  using assms by (cases "pt_pc t") (fastforce simp: pt_sound_def)+

lemma pt_step_sound:
  assumes "pt_sound t" and "pt_step buf t = (buf', t')"
  shows "pt_sound t' \<and> (pt_variant t' < pt_variant t \<or> pt_variant t = 0 \<and> t' = t)"
proof (cases rule: pt_cases [OF assms(1)])
  case 1
  note r = pt_read_laws [OF assms(1) 1 assms(2)]
  from assms(1) 1 r(3,4) show ?thesis by (simp add: r(1) pt_defs is_good_def)
next
  case (2 n)
  note u = pt_use_laws [OF assms(1) 2 assms(2)]
  from assms(1) 2 show ?thesis by (auto simp: u(1) pt_defs is_good_def)
next
  case 3
  note e = pt_end_laws [OF assms(1) 3 assms(2)]
  from assms(1) 3 show ?thesis by (auto simp: e(1) pt_defs)
qed

interpretation pt: shared_copy pt_step pt_pending pt_body pt_todo pt_sound pt_variant
proof
  fix t buf buf' t'
  assume "pt_sound t" and "pt_step buf t = (buf', t')"
  from pt_step_sound [OF this] show "pt_sound t'" "pt_variant t' < pt_variant t \<or> pt_variant t = 0 \<and> t' = t"
    by blast+
next
  fix t buf buf' t'
  assume s: "pt_sound t" and p: "pt_pending t = None" and e: "pt_step buf t = (buf', t')"
  show "pt_body t' = pt_body t \<and> pt_todo t' = pt_todo t
      \<and> (case pt_pending t' of None \<Rightarrow> True
          | Some n \<Rightarrow> n \<le> length (pt_todo t) \<and> subarr buf' 0 n = take n (pt_todo t))"
  proof (cases rule: pt_cases [OF s])
    case 1
    note r = pt_read_laws [OF s 1 e]
    have "subarr buf' 0 (length (take n (pt_todo t))) = take n (pt_todo t)" if "buf' = blit 0 (take n (pt_todo t)) buf" for n
      using that by (simp only: subarr_blit_zero)
    from this [OF r(2)] r(5) 1 show ?thesis by (simp add: r(1) pt_pending_def) (simp add: pt_todo_def)
  next
    case 2
    with p show ?thesis by (simp add: pt_pending_def)
  next
    case 3
    note e = pt_end_laws [OF s 3 e]
    from 3 show ?thesis by (auto simp: e(1) pt_pending_def pt_todo_def)
  qed
next
  fix t n buf buf' t'
  assume s: "pt_sound t" and p: "pt_pending t = Some n" and e: "pt_step buf t = (buf', t')"
  from p have pc: "pt_pc t = At_Use n" by (cases "pt_pc t") (auto simp: pt_pending_def)
  note u = pt_use_laws [OF s pc e]
  from u(2-4) show "buf' = buf \<and> pt_pending t' = None \<and> n \<le> length (pt_todo t)
      \<and> pt_body t' = pt_body t @ subarr buf 0 n \<and> pt_todo t' = drop n (pt_todo t)"
    by (simp add: u(1) pt_pending_def)
qed

definition pt_ends :: "carray \<Rightarrow> parse_thread \<Rightarrow> server_err_t \<times> string \<times> SocketInputStream \<Rightarrow> nat \<Rightarrow> bool" where
  "pt_ends buf t res n =
     (case res of (e, body1, s1) \<Rightarrow>
        \<exists>buf1 rest1. run_schedule pt_step (replicate n 0) (buf, [t])
          = (buf1, [\<lparr>pt_pc = Finished, pt_rest = rest1, pt_error = e, pt_body = body1, pt_in = s1\<rparr>]))"

lemma pt_ends_Suc: "pt_step buf t = (buf1, t1) \<Longrightarrow> pt_ends buf t res (Suc n) = pt_ends buf1 t1 res n"
  by (auto simp: pt_ends_def simp del: replicate.simps simp add: solo_Suc split: prod.splits)

lemma pt_ends_0: "pt_pc t \<noteq> Finished \<Longrightarrow> \<not> pt_ends buf t res 0"
  by (auto simp: pt_ends_def split: prod.splits)

lemma pt_ends_Finished:
  "pt_ends buf \<lparr>pt_pc = Finished, pt_rest = rest, pt_error = e, pt_body = body, pt_in = s\<rparr> res n
     \<longleftrightarrow> res = (e, body, s)"
proof -
  have "run_schedule pt_step (replicate n 0) (buf, [t]) = (buf, [t])" if "pt_pc t = Finished" for t
    using that by (induction n) (simp_all add: pt_step_def)
  then show ?thesis by (auto simp: pt_ends_def split: prod.splits)
qed

text \<open>The statements of one turn.\<close>

lemma pt_turn:
  assumes "0 < rest" and "istream_readsome s (if rest < RQ_BFSIZE then rest else RQ_BFSIZE) = (xs, s1)"
  shows "pt_ends buf (start_parse rest body s) res (Suc (Suc n))
    \<longleftrightarrow> (if is_fail s1 then res = (PARSE_REQ_BODY_FAILED, body @ xs, s1)
        else pt_ends (blit 0 xs buf) (start_parse (rest - length xs) (body @ xs) s1) res n)"
    and "\<not> pt_ends buf (start_parse rest body s) res (Suc 0)"
proof -
  have 1: "pt_step buf (start_parse rest body s) = (blit 0 xs buf,
      \<lparr>pt_pc = At_Use (length xs), pt_rest = rest, pt_error = SERVER_OK, pt_body = body, pt_in = s1\<rparr>)"
    using assms by (auto simp: pt_step_def start_parse_def split: if_splits)
  have 2: "pt_step (blit 0 xs buf)
      \<lparr>pt_pc = At_Use (length xs), pt_rest = rest, pt_error = SERVER_OK, pt_body = body, pt_in = s1\<rparr>
    = (blit 0 xs buf, if is_fail s1
        then \<lparr>pt_pc = Finished, pt_rest = rest, pt_error = PARSE_REQ_BODY_FAILED, pt_body = body @ xs, pt_in = s1\<rparr>
        else start_parse (rest - length xs) (body @ xs) s1)"
    by (simp add: pt_step_def start_parse_def Let_def)
  show "pt_ends buf (start_parse rest body s) res (Suc (Suc n))
    \<longleftrightarrow> (if is_fail s1 then res = (PARSE_REQ_BODY_FAILED, body @ xs, s1)
        else pt_ends (blit 0 xs buf) (start_parse (rest - length xs) (body @ xs) s1) res n)"
    by (simp add: pt_ends_Suc [OF 1] pt_ends_Suc [OF 2] pt_ends_Finished)
  show "\<not> pt_ends buf (start_parse rest body s) res (Suc 0)"
    by (simp add: pt_ends_Suc [OF 1] pt_ends_0)
qed

lemma pt_end_turn: "pt_ends buf (start_parse 0 body s) res (Suc n) \<longleftrightarrow> res = (SERVER_OK, body, s)"
proof -
  have "pt_step buf (start_parse 0 body s)
      = (buf, \<lparr>pt_pc = Finished, pt_rest = 0, pt_error = SERVER_OK, pt_body = body, pt_in = s\<rparr>)"
    by (simp add: pt_step_def start_parse_def)
  from pt_ends_Suc [OF this] show ?thesis by (simp add: pt_ends_Finished)
qed

lemma parse_body_loop_to_steps:
  assumes "parse_body_loop rest body s = Some res"
  shows "\<exists>n. pt_ends buf (start_parse rest body s) res n"
proof -
  have "\<forall>buf. \<exists>n. pt_ends buf (start_parse rest body s) res n"
  proof (rule parse_body_loop.raw_induct
      [where P = "\<lambda>rest body s res. \<forall>buf. \<exists>n. pt_ends buf (start_parse rest body s) res n", OF _ assms], rule)
    fix f rest body s res buf
    assume IH: "\<And>rest body s res. f rest body s = Some res \<Longrightarrow> \<forall>buf. \<exists>n. pt_ends buf (start_parse rest body s) res n"
      and eq: "(if rest = 0 then Some (SERVER_OK, body, s)
        else (case istream_readsome s (if rest < RQ_BFSIZE then rest else RQ_BFSIZE) of
                (xs, s') \<Rightarrow>
                  if is_fail s' then Some (PARSE_REQ_BODY_FAILED, body @ xs, s')
                  else f (rest - length xs) (body @ xs) s')) = Some res"
    obtain xs s1 where r: "istream_readsome s (if rest < RQ_BFSIZE then rest else RQ_BFSIZE) = (xs, s1)" by fastforce
    consider "rest = 0" | "0 < rest" "is_fail s1" | "0 < rest" "\<not> is_fail s1" by blast
    then show "\<exists>n. pt_ends buf (start_parse rest body s) res n"
    proof cases
      case 1
      with eq have "pt_ends buf (start_parse rest body s) res (Suc 0)" by (simp add: pt_end_turn)
      then show ?thesis ..
    next
      case 2
      with eq r have "pt_ends buf (start_parse rest body s) res (Suc (Suc 0))" by (simp add: pt_turn(1) [OF 2(1) r])
      then show ?thesis ..
    next
      case 3
      with eq r have "f (rest - length xs) (body @ xs) s1 = Some res" by simp
      from IH [OF this] obtain n where
        "pt_ends (blit 0 xs buf) (start_parse (rest - length xs) (body @ xs) s1) res n" by blast
      with 3 have "pt_ends buf (start_parse rest body s) res (Suc (Suc n))" by (simp add: pt_turn(1) [OF 3(1) r])
      then show ?thesis ..
    qed
  qed
  then show ?thesis ..
qed

lemma parse_body_loop_from_steps:
  "pt_ends buf (start_parse rest body s) res n \<Longrightarrow> parse_body_loop rest body s = Some res"
proof (induction n arbitrary: buf rest body s rule: less_induct)
  case (less n)
  have "pt_pc (start_parse rest body s) \<noteq> Finished" by (simp add: start_parse_def)
  from less.prems pt_ends_0 [OF this] obtain n1 where n1: "n = Suc n1" by (cases n) auto
  show ?case
  proof (cases "rest = 0")
    case True
    with less.prems n1 show ?thesis by (simp add: pt_end_turn parse_body_loop.simps)
  next
    case False
    then have pos: "0 < rest" by simp
    obtain xs s1 where r: "istream_readsome s (if rest < RQ_BFSIZE then rest else RQ_BFSIZE) = (xs, s1)" by fastforce
    note turn = pt_turn [OF pos r]
    from less.prems n1 turn(2) obtain n2 where n2: "n1 = Suc n2" by (cases n1) auto
    with less.prems n1 have t: "if is_fail s1 then res = (PARSE_REQ_BODY_FAILED, body @ xs, s1)
        else pt_ends (blit 0 xs buf) (start_parse (rest - length xs) (body @ xs) s1) res n2"
      by (simp only: turn(1))
    show ?thesis
    proof (cases "is_fail s1")
      case True
      with t pos r show ?thesis by (subst parse_body_loop.simps) simp
    next
      case ok: False
      from t ok have "pt_ends (blit 0 xs buf) (start_parse (rest - length xs) (body @ xs) s1) res n2" by simp
      from less.IH [OF _ this] n1 n2 ok pos r show ?thesis by (subst parse_body_loop.simps) simp
    qed
  qed
qed

text \<open>
  (C25) The model of \<open>parseBody\<close> leaves its static array out, and may: run alone from any content of the
  array, the statements of the loop, which copy every block through it, end in some state exactly
  when the loop without an array returns that state.
\<close>

theorem parse_loop_by_statements:
  "parse_body_loop rest body s = Some (e, body1, s1)
    \<longleftrightarrow> (\<exists>n buf1 rest1. run_schedule pt_step (replicate n 0) (buf, [start_parse rest body s])
          = (buf1, [\<lparr>pt_pc = Finished, pt_rest = rest1, pt_error = e, pt_body = body1, pt_in = s1\<rparr>]))"
  using parse_body_loop_to_steps [of rest body s "(e, body1, s1)" buf]
    parse_body_loop_from_steps [of buf rest body s "(e, body1, s1)"]
  by (auto simp: pt_ends_def)

text \<open>A client whose request body is in the get area of its stream.\<close>

definition body_waits :: "string \<Rightarrow> SocketInputStream \<Rightarrow> bool" where
  "body_waits xs s = (is_good s \<and> get_area (is_buf s) = xs)"

text \<open>
  Racing workers mix request bodies up as well: when a second worker reads between the first
  one's read and append, the request of the first client is completed, without an error, with the
  body the second client has sent.
\<close>

theorem racing_requests_mixed:
  assumes "body_waits xs s1" and "body_waits ys s2" and "length xs = length ys" and "0 < length xs"
    and "length xs \<le> RQ_BFSIZE"
  shows "\<exists>buf' t u. run_schedule pt_step [0, 1, 0, 0, 1, 1]
      (buf, [start_parse (length xs) [] s1, start_parse (length ys) [] s2]) = (buf', [t, u])
    \<and> pt_pc t = Finished \<and> pt_error t = SERVER_OK \<and> pt_body t = ys
    \<and> pt_pc u = Finished \<and> pt_error u = SERVER_OK \<and> pt_body u = ys"
proof -
  define n where "n = length xs"
  have len: "length xs = n" "length ys = n" "0 < n" "(if n < RQ_BFSIZE then n else RQ_BFSIZE) = n"
    using assms(3-5) by (auto simp: n_def)
  have g: "is_good s1" "is_good s2" "get_area (is_buf s1) = xs" "get_area (is_buf s2) = ys"
    using assms(1,2) by (auto simp: body_waits_def)
  obtain t1 where t1: "istream_readsome s1 n = (xs, t1)" "\<not> is_fail t1"
    using istream_readsome_good(1) [OF g(1)] readsome_not_fail [OF g(1)] g(3) len(1)
    by (metis surj_pair take_all_iff order_refl)
  obtain t2 where t2: "istream_readsome s2 n = (ys, t2)" "\<not> is_fail t2"
    using istream_readsome_good(1) [OF g(2)] readsome_not_fail [OF g(2)] g(4) len(2)
    by (metis surj_pair take_all_iff order_refl)
  have sub: "subarr (blit 0 ys b) 0 n = ys" for b
    using subarr_blit_zero [of ys b] len(2) by simp
  show ?thesis
    using t1 t2 len sub by (cases "n < RQ_BFSIZE") (simp_all add: pt_step_def start_parse_def)
qed

theorem racing_requests_mixed_witness:
  "\<exists>s1 s2 buf' t u. run_schedule pt_step [0, 1, 0, 0, 1, 1]
      (\<lambda>_. CHR 0x00, [start_parse 1 [] s1, start_parse 1 [] s2]) = (buf', [t, u])
    \<and> get_area (is_buf s1) = ''a'' \<and> pt_error t = SERVER_OK \<and> pt_body t = ''b''"
proof -
  let ?s = "\<lambda>c. \<lparr>is_buf = \<lparr>ss_buffer = (\<lambda>_. c), ss_gptr = 0, ss_egptr = 1, ss_pptr = 0, ss_epptr = BFSIZE - 1,
      ss_socket = \<lparr>sk_rx = [], sk_tx = [], sk_snd = (\<lambda>_. BFSIZE), sk_nsnd = 0\<rparr>\<rparr>,
      is_eof = False, is_fail = False\<rparr>"
  have "body_waits [c] (?s c)" for c by (simp add: body_waits_def is_good_def subarr_def)
  from racing_requests_mixed [OF this this, of "CHR ''a''" "CHR ''b''" "\<lambda>_. CHR 0x00"] show ?thesis
    by (intro exI [of _ "?s CHR ''a''"] exI [of _ "?s CHR ''b''"]) (auto simp: RQ_BFSIZE_def subarr_def)
qed

end
