(* ===== verification/Handler_Log.thy ===== *)
theory Handler_Log
  imports IO_Handler Async_Logger
begin

text \<open>
  The log statements of the threads (\<open>IOEventHandler.cc\<close>, \<open>ListenEventHandler.cc\<close>, \<open>Worker.cc\<close>): their
  loops with the calls of \<open>LOG2DIARY\<close> on the shared asynchronous logger. The loops of \<open>IO_Handler\<close> and
  \<open>Event_Worker\<close> are these without the statements.
\<close>

section \<open>A log statement\<close>

text \<open>
  The logger with the number of times the clock has been read; a statement reads it for its begin
  tag and for its end tag. \<open>AsyncLogger::append\<close> returns an error the statement ignores.
\<close>

record diary =
  dy_now :: nat
  dy_logger :: AsyncLogger

definition diary_write ::
  "(nat \<Rightarrow> string option) \<Rightarrow> string \<Rightarrow> int \<Rightarrow> string list \<Rightarrow> diary \<Rightarrow> cpp_exception + diary" where
  "diary_write clock src line pieces d =
     (case lg_append (LOG2DIARY (clock (dy_now d)) (clock (Suc (dy_now d))) src line pieces) (dy_logger d) of
        Inl x \<Rightarrow> Inl x
      | Inr (e, l) \<Rightarrow> Inr \<lparr>dy_now = Suc (Suc (dy_now d)), dy_logger = l\<rparr>)"

text \<open>\<open>operator<<\<close> of a request writes its serialisation.\<close>

definition show_request :: "(header_t \<Rightarrow> header_t) \<Rightarrow> HttpRequest \<Rightarrow> string list" where
  "show_request ord req = [serialize_request ord req]"

definition log_parsed :: "int \<Rightarrow> server_err_t \<Rightarrow> string list" where
  "log_parsed fd error =
     [''getOneHttpRequest from clientFD '', int_to_string fd, '' with returned with error: '',
      to_string (error_code error), [CHR 0x0A]]"

definition log_answered :: "server_err_t \<Rightarrow> string list" where
  "log_answered error = [''response ret with error: '', to_string (error_code error), [CHR 0x0A]]"

section \<open>The request loop with its log statements\<close>

partial_function (option) io_loop_logged ::
  "(nat \<Rightarrow> string option) \<Rightarrow> string \<Rightarrow> int \<Rightarrow> indeterminate \<Rightarrow> (header_t \<Rightarrow> header_t) \<Rightarrow> IRouter \<Rightarrow> 'a accessor
    \<Rightarrow> 'a io_state \<Rightarrow> diary \<Rightarrow> ('a io_state \<times> diary) run"
where
  "io_loop_logged clock src fd un ord rt access s d =
     (case s of (inp, out, a, buf) \<Rightarrow>
        if is_eof inp then Some (Inr (s, d))
        else (case getOneHttpRequest inp of
                None \<Rightarrow> None
              | Some (Inl x) \<Rightarrow> Some (Inl x)
              | Some (Inr (req, error, inp1)) \<Rightarrow>
                  (case diary_write clock src 32 (log_parsed fd error) d of
                     Inl x \<Rightarrow> Some (Inl x)
                   | Inr d1 \<Rightarrow>
                       if error = SERVER_OK
                       then (case diary_write clock src 35 (show_request ord req @ [[CHR 0x0A]]) d1 of
                               Inl x \<Rightarrow> Some (Inl x)
                             | Inr d2 \<Rightarrow>
                                 (case getResponseFromRequest un rt access a req of
                                    None \<Rightarrow> None
                                  | Some (Inl x) \<Rightarrow> Some (Inl x)
                                  | Some (Inr (res, a1)) \<Rightarrow>
                                      (case response ord buf out res of
                                         None \<Rightarrow> None
                                       | Some (Inl x) \<Rightarrow> Some (Inl x)
                                       | Some (Inr (error1, res1, buf1, out1)) \<Rightarrow>
                                           (case diary_write clock src 38 (log_answered error1) d2 of
                                              Inl x \<Rightarrow> Some (Inl x)
                                            | Inr d3 \<Rightarrow>
                                                io_loop_logged clock src fd un ord rt access
                                                  (inp1, out1, a1, buf1) d3))))
                       else io_loop_logged clock src fd un ord rt access (inp1, out, a, buf) d1)))"

section \<open>Logging does not interfere\<close>

definition diary_ok :: "diary \<Rightarrow> bool" where
  "diary_ok d = lg_wf (dy_logger d)"

text \<open>A statement always returns, and appends the first 4096 bytes of its text while the logger runs.\<close>

lemma diary_write_ok:
  assumes "diary_ok d"
  obtains d' where "diary_write clock src line pieces d = Inr d'" and "diary_ok d'"
    and "dy_now d' = Suc (Suc (dy_now d))" and "lg_running (dy_logger d') = lg_running (dy_logger d)"
    and "pending (dy_logger d') = (if lg_running (dy_logger d)
      then pending (dy_logger d)
        @ take 4096 (message_text (clock (dy_now d)) (clock (Suc (dy_now d))) src line pieces)
      else pending (dy_logger d))"
proof (cases "lg_running (dy_logger d)")
  case True
  let ?b = "LOG2DIARY (clock (dy_now d)) (clock (Suc (dy_now d))) src line pieces"
  from assms have "lg_wf (dy_logger d)" by (simp add: diary_ok_def)
  from lg_append_spec [OF this log_message_wf True] obtain l where
    l: "lg_append ?b (dy_logger d) = Inr (SERVER_OK, l)" "lg_wf l"
      "pending l = pending (dy_logger d) @ bf_bytes ?b" "lg_running l = lg_running (dy_logger d)" by metis
  from log_message_eq have "bf_bytes ?b
      = take 4096 (message_text (clock (dy_now d)) (clock (Suc (dy_now d))) src line pieces)" by blast
  with that [of "\<lparr>dy_now = Suc (Suc (dy_now d)), dy_logger = l\<rparr>"] l True show thesis
    by (simp add: diary_write_def diary_ok_def)
next
  case False
  with that [of "d\<lparr>dy_now := Suc (Suc (dy_now d))\<rparr>"] assms show thesis
    by (cases d) (simp add: diary_write_def diary_ok_def lg_append_def lg_isRunning_def)
qed

text \<open>The diary after a statement, which always returns.\<close>

definition diary_next :: "(nat \<Rightarrow> string option) \<Rightarrow> string \<Rightarrow> int \<Rightarrow> string list \<Rightarrow> diary \<Rightarrow> diary" where
  "diary_next clock src line pieces d = projr (diary_write clock src line pieces d)"

lemma diary_next [simp]:
  assumes "diary_ok d"
  shows "diary_write clock src line pieces d = Inr (diary_next clock src line pieces d)"
    and "diary_ok (diary_next clock src line pieces d)"
    and "dy_now (diary_next clock src line pieces d) = Suc (Suc (dy_now d))"
    and "lg_running (dy_logger (diary_next clock src line pieces d)) = lg_running (dy_logger d)"
    and "pending (dy_logger (diary_next clock src line pieces d)) = (if lg_running (dy_logger d)
      then pending (dy_logger d)
        @ take 4096 (message_text (clock (dy_now d)) (clock (Suc (dy_now d))) src line pieces)
      else pending (dy_logger d))"
  by (rule diary_write_ok [OF assms, of clock src line pieces], simp add: diary_next_def)+

lemma logged_to_loop:
  assumes "io_loop_logged clock src fd un ord rt access s d = Some r" and "diary_ok d"
  shows "io_loop un ord rt access s = Some (map_sum id fst r)"
proof -
  have "diary_ok d \<longrightarrow> io_loop un ord rt access s = Some (map_sum id fst r)"
    by (rule io_loop_logged.raw_induct [where P = "\<lambda>clock src fd un ord rt access s d r.
        diary_ok d \<longrightarrow> io_loop un ord rt access s = Some (map_sum id fst r)", OF _ assms(1)], rule impI)
      (subst io_loop.simps, auto split: option.splits sum.splits if_splits prod.splits)
  with assms(2) show ?thesis by blast
qed

lemma loop_to_logged:
  assumes "io_loop un ord rt access s = Some r" and "diary_ok d"
  shows "\<exists>q. io_loop_logged clock src fd un ord rt access s d = Some q"
proof -
  have "\<forall>d. diary_ok d \<longrightarrow> (\<exists>q. io_loop_logged clock src fd un ord rt access s d = Some q)"
    by (rule io_loop.raw_induct [where P = "\<lambda>un ord rt access s r.
        \<forall>d. diary_ok d \<longrightarrow> (\<exists>q. io_loop_logged clock src fd un ord rt access s d = Some q)", OF _ assms(1)],
        intro allI impI)
      (subst io_loop_logged.simps, auto split: option.splits sum.splits if_splits prod.splits)
  with assms(2) show ?thesis by blast
qed

section \<open>The accept loop with its log statement\<close>

text \<open>
  The last statement of the loop body, reached when the client has been assigned: then the event is
  new and its worker stands at the tail. \<open>tid\<close> is the printed thread id of a worker.
\<close>

definition assigned :: "'k listen_state \<Rightarrow> 'k listen_state \<Rightarrow> worker_ptr option" where
  "assigned s s1 = (if li_next s1 = li_next s then None else Some (last (li_ioWorkers s1)))"

definition log_accepted :: "string \<Rightarrow> string list" where
  "log_accepted tid = [''Accept client with clientFD and assign it to worker: '', tid, [CHR 0x0A]]"

partial_function (option) listen_loop_logged ::
  "(nat \<Rightarrow> string option) \<Rightarrow> string \<Rightarrow> (worker_ptr \<Rightarrow> string) \<Rightarrow> 'k syscalls \<Rightarrow> int \<Rightarrow> 'k listen_state \<Rightarrow> diary
    \<Rightarrow> ('k listen_state \<times> diary) run"
where
  "listen_loop_logged clock src tid sys listenedFD s d =
     (case sys_accept sys (li_kernel s) listenedFD of
        (clientFD, k1) \<Rightarrow>
          if clientFD = -1 then Some (Inr (s\<lparr>li_kernel := k1\<rparr>, d))
          else (case accept_client sys clientFD (s\<lparr>li_kernel := k1\<rparr>) of
                  Inl x \<Rightarrow> Some (Inl x)
                | Inr s1 \<Rightarrow>
                    (case assigned s s1 of
                       None \<Rightarrow> listen_loop_logged clock src tid sys listenedFD s1 d
                     | Some p \<Rightarrow>
                         (case diary_write clock src 40 (log_accepted (tid p)) d of
                            Inl x \<Rightarrow> Some (Inl x)
                          | Inr d1 \<Rightarrow> listen_loop_logged clock src tid sys listenedFD s1 d1))))"

lemma listen_logged_to_loop:
  assumes "listen_loop_logged clock src tid sys lfd s d = Some r" and "diary_ok d"
  shows "listen_loop sys lfd s = Some (map_sum id fst r)"
proof -
  have "diary_ok d \<longrightarrow> listen_loop sys lfd s = Some (map_sum id fst r)"
    by (rule listen_loop_logged.raw_induct [where P = "\<lambda>clock src tid sys lfd s d r.
        diary_ok d \<longrightarrow> listen_loop sys lfd s = Some (map_sum id fst r)", OF _ assms(1)], rule impI)
      (subst listen_loop.simps, auto split: option.splits sum.splits if_splits prod.splits)
  with assms(2) show ?thesis by blast
qed

lemma listen_loop_to_logged:
  assumes "listen_loop sys lfd s = Some r" and "diary_ok d"
  shows "\<exists>q. listen_loop_logged clock src tid sys lfd s d = Some q"
proof -
  have "\<forall>d. diary_ok d \<longrightarrow> (\<exists>q. listen_loop_logged clock src tid sys lfd s d = Some q)"
    by (rule listen_loop.raw_induct [where P = "\<lambda>sys lfd s r.
        \<forall>d. diary_ok d \<longrightarrow> (\<exists>q. listen_loop_logged clock src tid sys lfd s d = Some q)", OF _ assms(1)],
        intro allI impI)
      (subst listen_loop_logged.simps, auto split: option.splits sum.splits if_splits prod.splits)
  with assms(2) show ?thesis by blast
qed

section \<open>The thread of a worker with its log statement\<close>

text \<open>
  The thread reports the local \<open>error\<close> at its end, which has no value before the first poll: its
  first value is an argument.
\<close>

definition log_exited :: "server_err_t \<Rightarrow> string list" where
  "log_exited error = [''worker exit with err '', to_string (error_code error), [CHR 0x0A]]"

partial_function (option) worker_loop_logged ::
  "(nat \<Rightarrow> string option) \<Rightarrow> string \<Rightarrow> server_err_t \<Rightarrow> 'k syscalls \<Rightarrow> ('k, 'x) handler \<Rightarrow> ('k, 'x) wstate \<Rightarrow> diary
    \<Rightarrow> (('k, 'x) wstate \<times> diary) run"
where
  "worker_loop_logged clock src error sys hnd s d =
     (case s of (k, heap, w, x) \<Rightarrow>
        if \<not> worker_isRunning w
        then Some (map_sum id (Pair (k, heap, worker_stop w, x)) (diary_write clock src 68 (log_exited error) d))
        else (case worker_eventPoll sys k heap (- 1) w of
                (err, es, heap1, k1) \<Rightarrow>
                  if err \<noteq> SERVER_OK
                  then Some (map_sum id (Pair (k1, heap1, worker_stop w, x)) (diary_write clock src 68 (log_exited err) d))
                  else (case handle_events hnd es (k1, heap1, w, x) of
                          None \<Rightarrow> None
                        | Some (Inl z) \<Rightarrow> Some (Inl z)
                        | Some (Inr (k2, heap2, w2, x2)) \<Rightarrow>
                            worker_loop_logged clock src err sys hnd (clear_events sys heap2 w2 es k2, heap2, w2, x2) d)))"

lemma worker_logged_to_loop:
  assumes "worker_loop_logged clock src error sys hnd s d = Some r" and "diary_ok d"
  shows "worker_loop sys hnd s = Some (map_sum id fst r)"
proof -
  have "diary_ok d \<longrightarrow> worker_loop sys hnd s = Some (map_sum id fst r)"
    by (rule worker_loop_logged.raw_induct [where P = "\<lambda>clock src error sys hnd s d r.
        diary_ok d \<longrightarrow> worker_loop sys hnd s = Some (map_sum id fst r)", OF _ assms(1)], rule impI)
      (subst worker_loop.simps, auto split: option.splits sum.splits if_splits prod.splits)
  with assms(2) show ?thesis by blast
qed

lemma worker_loop_to_logged:
  assumes "worker_loop sys hnd s = Some r" and "diary_ok d"
  shows "\<exists>q. worker_loop_logged clock src error sys hnd s d = Some q"
proof -
  have "\<forall>error. \<exists>q. worker_loop_logged clock src error sys hnd s d = Some q"
    by (rule worker_loop.raw_induct [where P = "\<lambda>sys hnd s r.
        \<forall>error. \<exists>q. worker_loop_logged clock src error sys hnd s d = Some q", OF _ assms(1)], rule allI)
      (subst worker_loop_logged.simps, use assms(2) in \<open>auto split: option.splits sum.splits if_splits prod.splits\<close>)
  then show ?thesis by blast
qed

section \<open>None of the statements interferes\<close>

text \<open>Two runs agree when each gives the other and the first result determines the second.\<close>

lemma logged_eq:
  assumes "\<And>r. logged = Some r \<Longrightarrow> plain = Some (map_sum id fst r)" and "\<And>r. plain = Some r \<Longrightarrow> \<exists>q. logged = Some q"
  shows "map_option (map_sum id fst) logged = plain"
  using assms by (cases logged; cases plain) auto



section \<open>What a client leaves in the log\<close>

text \<open>
  The text a client's requests leave: three messages for each request, each cut to 4096 bytes, and
  one for the failed attempt that finds the end of the input.
\<close>

primrec log_of :: "(nat \<Rightarrow> string option) \<Rightarrow> string \<Rightarrow> int \<Rightarrow> (header_t \<Rightarrow> header_t) \<Rightarrow> nat
    \<Rightarrow> wire_request list \<Rightarrow> string" where
  "log_of clock src fd ord n [] =
     take 4096 (message_text (clock n) (clock (n + 1)) src 32 (log_parsed fd PARSE_REQ_METHOD_FAILED))"
| "log_of clock src fd ord n (q # qs) =
     take 4096 (message_text (clock n) (clock (n + 1)) src 32 (log_parsed fd SERVER_OK))
     @ take 4096 (message_text (clock (n + 2)) (clock (n + 3)) src 35
         (show_request ord (as_request q) @ [[CHR 0x0A]]))
     @ take 4096 (message_text (clock (n + 4)) (clock (n + 5)) src 38 (log_answered SERVER_OK))
     @ log_of clock src fd ord (n + 6) qs"

context responder
begin

lemma logged_pipeline:
  assumes "is_clean inp" and "is_view inp = flat_good (concat (map wire_bytes qs))"
    and "list_all wire_ok qs" and "out_ready out" and "ok a"
    and "diary_ok d" and "lg_running (dy_logger d)"
  shows "\<exists>s' d'. io_loop_logged clock src fd un ord rt access (inp, out, a, buf) d = Some (Inr (s', d'))
    \<and> diary_ok d' \<and> lg_running (dy_logger d')
    \<and> pending (dy_logger d') = pending (dy_logger d) @ log_of clock src fd ord (dy_now d) qs"
  using assms
proof (induction qs arbitrary: inp out a buf d)
  case Nil
  from getOneHttpRequest_at_end [OF Nil(1)] Nil(2) obtain r t where
    g: "getOneHttpRequest inp = Some (Inr (r, PARSE_REQ_METHOD_FAILED, t))" "is_eof t" by auto
  have "\<not> is_eof inp" using Nil(2) by (simp add: is_view_def)
  with g Nil(6,7) show ?case
    by (simp add: io_loop_logged.simps [of _ _ _ _ _ _ _ "(inp, out, a, buf)"]
        io_loop_logged.simps [of _ _ _ _ _ _ _ "(t, out, a, buf)"])
next
  case (Cons q qs)
  have v: "is_view inp = flat_good (wire_bytes q @ concat (map wire_bytes qs))" "wire_ok q" "list_all wire_ok qs"
    using Cons.prems(2,3) by simp_all
  obtain inp1 r a1 r' out1 buf1 where
    c: "getOneHttpRequest inp = Some (Inr (as_request q, SERVER_OK, inp1))"
      "getResponseFromRequest un rt access a (as_request q) = Some (Inr (r, a1))"
      "response ord buf out r = Some (Inr (SERVER_OK, r', buf1, out1))"
      "is_clean inp1" "is_view inp1 = flat_good (concat (map wire_bytes qs))" "out_ready out1" "ok a1"
    by (rule io_turn_calls [OF Cons.prems(1) v(1,2) Cons.prems(4,5), of un ord buf])
  define d3 where "d3 = diary_next clock src 38 (log_answered SERVER_OK)
    (diary_next clock src 35 (show_request ord (as_request q) @ [[CHR 0x0A]])
      (diary_next clock src 32 (log_parsed fd SERVER_OK) d))"
  have d3: "diary_ok d3" "lg_running (dy_logger d3)" "dy_now d3 = dy_now d + 6"
    using Cons.prems(6,7) by (simp_all add: d3_def)
  have "\<not> is_eof inp" using v(1) by (simp add: is_view_def)
  with c(1-3) Cons.prems(6) have
    "io_loop_logged clock src fd un ord rt access (inp, out, a, buf) d
      = io_loop_logged clock src fd un ord rt access (inp1, out1, a1, buf1) d3"
    by (simp add: d3_def io_loop_logged.simps [of _ _ _ _ _ _ _ "(inp, out, a, buf)"])
  moreover have "pending (dy_logger d3) @ log_of clock src fd ord (dy_now d3) qs
      = pending (dy_logger d) @ log_of clock src fd ord (dy_now d) (q # qs)"
    unfolding d3(3) using Cons.prems(6,7) by (simp add: d3_def numeral_eq_Suc)
  ultimately show ?case using Cons.IH [OF c(4,5) v(3) c(6,7) d3(1,2), of buf1] by simp
qed

end

end
