(* ===== verification/Request_Typing.thy ===== *)
theory Request_Typing
  imports Http_Request
begin

text \<open>
  What every request the analyser builds (\<open>HttpUtils/HttpRequest.cc\<close>) is like, whatever bytes arrive:
  the types of its fields beyond \<open>std::string\<close> that its users rely on.
\<close>

section \<open>Words and lines\<close>

lemma word_loop_no_space:
  "word_loop c b acc = (w, c', b') \<Longrightarrow> \<forall>x \<in> set acc. \<not> isspace x \<Longrightarrow> \<forall>x \<in> set w. \<not> isspace x"
proof (induction c b acc arbitrary: w c' b' rule: word_loop.induct)
  case (1 c b acc)
  show ?case
  proof (cases "c \<noteq> EOF \<and> \<not> isspace (to_char_type c)")
    case True
    obtain c1 b1 where n: "snextc b = (c1, b1)" by fastforce
    with 1(2) True have "word_loop c1 b1 (acc @ [to_char_type c]) = (w, c', b')"
      by (simp add: word_loop.simps [of c b])
    from 1(1) [OF True n [symmetric] this] 1(3) True show ?thesis by auto
  next
    case False
    with 1(2,3) show ?thesis by (simp add: word_loop.simps [of c b] split: if_splits)
  qed
qed

lemma extract_no_space:
  assumes "istream_extract s = (Some w, t)"
  shows "\<forall>x \<in> set w. \<not> isspace x" and "\<not> is_fail t \<longrightarrow> w \<noteq> []"
  using assms word_loop_no_space [where acc = "[]"]
  by (auto simp: istream_extract_def split: if_splits prod.splits)

lemma extract_into_typed:
  assumes "extract_into [] s = (w, t)"
  shows "\<forall>x \<in> set w. \<not> isspace x" and "\<not> is_fail t \<longrightarrow> w \<noteq> []"
proof -
  obtain ow t' where x: "istream_extract s = (ow, t')" by fastforce
  have "ow = None \<Longrightarrow> is_fail t'" using x by (auto simp: istream_extract_def split: if_splits prod.splits)
  with assms x extract_no_space [of s] show "\<forall>x \<in> set w. \<not> isspace x" "\<not> is_fail t \<longrightarrow> w \<noteq> []"
    by (cases ow; simp add: extract_into_def; blast)+
qed

abbreviation at_char :: "int \<Rightarrow> SocketStreamBuffer \<Rightarrow> bool" where
  "at_char c b \<equiv> c \<noteq> EOF \<longrightarrow> ss_gptr b < ss_egptr b \<and> reads_as c (ss_buffer b (ss_gptr b))"

lemma reads_ascii_exact: "reads_as c x \<Longrightarrow> (of_char x :: int) < 128 \<Longrightarrow> c = to_int_type x"
  by (auto simp: reads_as_def char_promote_def to_int_type_def)

lemma line_loop_no_delim:
  "line_loop d c b acc = (l, c', b') \<Longrightarrow> at_char c b \<Longrightarrow> d \<notin> set acc \<Longrightarrow> (of_char d :: int) < 128 \<Longrightarrow> d \<notin> set l"
proof (induction d c b acc arbitrary: l c' b' rule: line_loop.induct)
  case (1 d c b acc)
  show ?case
  proof (cases "c \<noteq> EOF \<and> c \<noteq> to_int_type d")
    case True
    obtain c1 b1 where n: "snextc b = (c1, b1)" by fastforce
    with 1(2) True have k: "line_loop d c1 b1 (acc @ [to_char_type c]) = (l, c', b')"
      by (simp add: line_loop.simps [of d c b])
    have "at_char c1 b1" using snextc_buffered [OF _ n] 1(3) True by blast
    moreover have "to_char_type c \<noteq> d" using True 1(3,5) reads_as_to_char [of c] reads_ascii_exact [of c d] by metis
    ultimately show ?thesis using 1(1) [OF True n [symmetric] k] 1(4,5) by simp
  next
    case False
    with 1(2,4) show ?thesis by (simp add: line_loop.simps [of d c b] split: if_splits)
  qed
qed

lemma getline_no_newline:
  assumes "istream_getline s (CHR 0x0A) = (Some l, t)"
  shows "CHR 0x0A \<notin> set l"
proof -
  obtain c0 b0 where g: "sgetc (is_buf s) = (c0, b0)" by fastforce
  obtain l' c1 b1 where k: "line_loop (CHR 0x0A) c0 b0 [] = (l', c1, b1)" by (metis prod_cases3)
  have "l' = l" using assms g k by (auto simp: istream_getline_def split: if_splits)
  moreover have "at_char c0 b0" using sgetc_unread(2) [OF g] by blast
  ultimately show ?thesis using line_loop_no_delim [OF k] by simp
qed

section \<open>Header fields\<close>

definition field_typed :: "string \<times> string \<Rightarrow> bool" where
  "field_typed kv =
     (case kv of (k, v) \<Rightarrow>
        CHR '':'' \<notin> set k \<and> CHR 0x0A \<notin> set k \<and> CHR 0x0A \<notin> set v \<and> (v \<noteq> [] \<longrightarrow> hd v \<noteq> CHR '' ''))"

lemma header_field_typed:
  assumes "parse_header_line cur = Inr (HeaderField k v)" and "CHR 0x0A \<notin> set cur"
  shows "field_typed (k, v)"
proof -
  from assms(1) obtain tok where tok: "str_find cur (CHR '':'') = Some tok" "k = take tok (butlast cur)"
    "v = drop (skip_blanks (butlast cur) (Suc tok)) (butlast cur)"
    by (auto simp: parse_header_line_def str_substr_from_def Let_def split: if_splits option.splits sum.splits)
  from str_find_SomeD [OF tok(1)] have "CHR '':'' \<notin> set (take tok cur)" by simp
  moreover have "set k \<subseteq> set (take tok cur)" unfolding tok(2) butlast_conv_take
    by (metis set_take_subset take_take min.commute)
  moreover have "set k \<subseteq> set cur" "set v \<subseteq> set cur"
    using tok(2,3) by (auto dest: in_set_takeD in_set_dropD in_set_butlastD)
  moreover have "v = dropWhile (\<lambda>c. c = CHR '' '') (drop (Suc tok) (butlast cur))"
    unfolding tok(3) skip_blanks_eq by (metis dropWhile_eq_drop drop_drop add.commute)
  then have "v \<noteq> [] \<longrightarrow> hd v \<noteq> CHR '' ''" using hd_dropWhile by blast
  ultimately show ?thesis using assms(2) by (auto simp: field_typed_def)
qed

lemma update_typed:
  "list_all field_typed h \<Longrightarrow> field_typed (k, v) \<Longrightarrow> list_all field_typed (AList.update k v h)"
  by (induction h) auto

section \<open>Requests\<close>

text \<open>
  A typed request: no field name twice, none with a colon or a newline, no value with a newline or
  with a leading blank, no white space in the URI. It is complete when it has a URI and exactly the
  body its \<open>Content-Length\<close> announces.
\<close>

definition request_typed :: "HttpRequest \<Rightarrow> bool" where
  "request_typed r =
     (distinct (map fst (rq_header r)) \<and> list_all field_typed (rq_header r) \<and> (\<forall>c \<in> set (rq_uri r). \<not> isspace c))"

definition request_complete :: "HttpRequest \<Rightarrow> bool" where
  "request_complete r = (rq_uri r \<noteq> [] \<and> requestBodyLength r = Inr (length (rq_body r)))"

lemma parseLine_typed:
  assumes "parseLine s mk_HttpRequestBuilder = (e, t, b)"
  shows "request_typed (rb_build b)" and "rq_header (rb_build b) = []" and "rq_body (rb_build b) = []"
    and "e = SERVER_OK \<longrightarrow> rq_uri (rb_build b) \<noteq> []"
proof -
  obtain m s1 where 1: "extract_into [] s = (m, s1)" by fastforce
  obtain u s2 where 2: "extract_into [] s1 = (u, s2)" by fastforce
  obtain v s3 where 3: "extract_into [] s2 = (v, s3)" by fastforce
  note defs = parseLine_def mk_HttpRequestBuilder_def mk_HttpRequest_def rb_build_def rb_setHttpVersion_def
    rb_setURI_def rb_setRequestMethod_def setHttpVersion_def setURI_def setRequestMethod_def
  from assms 1 2 3 extract_into_typed [OF 2]
  show "request_typed (rb_build b)" "rq_header (rb_build b) = []" "rq_body (rb_build b) = []"
    "e = SERVER_OK \<longrightarrow> rq_uri (rb_build b) \<noteq> []"
    by (auto simp: request_typed_def defs split: if_splits prod.splits)
qed

lemma setHeader_typed:
  assumes "request_typed (rb_build b)" and "field_typed (k, v)"
  shows "request_typed (rb_build (rb_setHeader k v b))"
  using assms update_typed
  by (auto simp: request_typed_def rb_build_def rb_setHeader_def setHeader_def distinct_update)

lemma parseHead_typed:
  assumes "parseHead s b = Inr (e, t, b')" and "request_typed (rb_build b)"
  shows "request_typed (rb_build b') \<and> rq_uri (rb_build b') = rq_uri (rb_build b)
    \<and> rq_body (rb_build b') = rq_body (rb_build b)"
  using assms
proof (induction s b arbitrary: e t b' rule: parseHead.induct)
  case (1 s b)
  obtain l s1 where g: "istream_getline s (CHR 0x0A) = (l, s1)" by fastforce
  show ?case
  proof (cases "is_fail s1")
    case True
    with 1(2,3) g show ?thesis by (simp add: parseHead.simps [of s b])
  next
    case False
    with istream_getline_consumes(2) [OF g] obtain cur where l: "l = Some cur" by blast
    show ?thesis
    proof (cases "\<exists>k v. parse_header_line cur = Inr (HeaderField k v)")
      case True
      then obtain k v where h: "parse_header_line cur = Inr (HeaderField k v)" by blast
      have "field_typed (k, v)" using header_field_typed [OF h] getline_no_newline g l by blast
      from setHeader_typed [OF 1(3) this] have t: "request_typed (rb_build (rb_setHeader k v b))" .
      from 1(2) g l False h have "parseHead s1 (rb_setHeader k v b) = Inr (e, t, b')"
        by (simp add: parseHead.simps [of s b])
      from 1(1) [OF g [symmetric] False _ _ False this t] h l show ?thesis
        by (simp add: rb_build_def rb_setHeader_def setHeader_def)
    next
      case no: False
      with 1(2,3) g l False show ?thesis
        by (auto simp: parseHead.simps [of s b] split: sum.splits header_item.splits)
    qed
  qed
qed

lemma parse_body_loop_length:
  assumes "parse_body_loop rest body s = Some (SERVER_OK, body', t)"
  shows "length body' = length body + rest"
proof -
  have "fst r = SERVER_OK \<longrightarrow> length (fst (snd r)) = length body + rest"
    if "parse_body_loop rest body s = Some r" for r
  proof (rule parse_body_loop.raw_induct [where P = "\<lambda>rest body s r.
        fst r = SERVER_OK \<longrightarrow> length (fst (snd r)) = length body + rest", OF _ that])
    fix f rest body s r
    assume IH: "\<And>rest body s r. f rest body s = Some r \<Longrightarrow>
          fst r = SERVER_OK \<longrightarrow> length (fst (snd r)) = length body + rest"
      and eq: "(if rest = 0 then Some (SERVER_OK, body, s)
        else (case istream_readsome s (if rest < RQ_BFSIZE then rest else RQ_BFSIZE) of
                (xs, s') \<Rightarrow>
                  if is_fail s' then Some (PARSE_REQ_BODY_FAILED, body @ xs, s')
                  else f (rest - length xs) (body @ xs) s')) = Some r"
    obtain xs s1 where x: "istream_readsome s (if rest < RQ_BFSIZE then rest else RQ_BFSIZE) = (xs, s1)" by fastforce
    then have "length xs \<le> rest"
      by (auto simp: istream_readsome_def Let_def split: if_splits)
    with eq x IH [of "rest - length xs" "body @ xs" s1 r]
    show "fst r = SERVER_OK \<longrightarrow> length (fst (snd r)) = length body + rest"
      by (auto split: if_splits)
  qed
  from this [OF assms] show ?thesis by simp
qed

lemma parseBody_typed:
  assumes "parseBody s b = Some (Inr (e, t, b'))" and "request_typed (rb_build b)" and "rq_body (rb_build b) = []"
  shows "request_typed (rb_build b') \<and> rq_uri (rb_build b') = rq_uri (rb_build b)
    \<and> (e \<noteq> SERVER_OK \<longrightarrow> rq_body (rb_build b') = [])
    \<and> (e = SERVER_OK \<longrightarrow> requestBodyLength (rb_build b') = Inr (length (rq_body (rb_build b'))))"
  using assms
  by (auto simp: parseBody_def requestBodyLength_def request_typed_def rb_build_def rb_setBody_def setBody_def
      split: sum.splits if_splits option.splits dest: parse_body_loop_length)

text \<open>
  (C12) Whatever a client sends, a request the analyser hands on is well formed: its header is a map
  whose names contain no colon and no newline and whose values contain no newline and do not start
  with a blank, and its URI contains no white space. When the analyser reports success the request
  is complete, with a URI and exactly as many bytes of body as its \<open>Content-Length\<close> announces, and
  when it reports an error the request has no body.
\<close>

theorem parsed_request_typed:
  assumes "getOneHttpRequest s = Some (Inr (req, e, t))"
  shows "request_typed req \<and> (if e = SERVER_OK then request_complete req else rq_body req = [])"
proof -
  obtain e1 s1 b1 where 1: "parseLine s mk_HttpRequestBuilder = (e1, s1, b1)" using prod_cases3 by blast
  note l = parseLine_typed [OF 1]
  show ?thesis
  proof (cases "e1 = SERVER_OK")
    case False
    with assms 1 l show ?thesis by (auto simp: getOneHttpRequest_def)
  next
    case True
    with assms 1 obtain e2 s2 b2 where 2: "parseHead s1 b1 = Inr (e2, s2, b2)"
      by (auto simp: getOneHttpRequest_def split: sum.splits)
    note h = parseHead_typed [OF 2 l(1)]
    show ?thesis
    proof (cases "e2 = SERVER_OK")
      case False
      with assms 1 2 True l h show ?thesis by (auto simp: getOneHttpRequest_def)
    next
      case ok: True
      with assms 1 2 True obtain e3 s3 b3 where 3: "parseBody s2 b2 = Some (Inr (e3, s3, b3))"
        by (auto simp: getOneHttpRequest_def split: sum.splits option.splits)
      have "rq_body (rb_build b2) = []" using h l(3) by simp
      from parseBody_typed [OF 3 _ this] h l(4) True 1 2 3 ok assms show ?thesis
        by (auto simp: getOneHttpRequest_def request_complete_def)
    qed
  qed
qed

theorem parsed_request_typed_witness:
  "\<exists>req t. getOneHttpRequest (mk_SocketInputStream (mk_SocketStreamBuffer (\<lambda>_. CHR 0x00)
       \<lparr>sk_rx = [wire_line GET ''/a'' HTTP_1_1, wire_head [(''Host'', ''x'')]], sk_tx = [], sk_snd = (\<lambda>_. 0), sk_nsnd = 0\<rparr>))
     = Some (Inr (req, SERVER_OK, t)) \<and> rq_header req = [(''Host'', ''x'')] \<and> request_typed req \<and> request_complete req"
proof -
  let ?s = "mk_SocketInputStream (mk_SocketStreamBuffer (\<lambda>_. CHR 0x00)
       \<lparr>sk_rx = [wire_line GET ''/a'' HTTP_1_1, wire_head [(''Host'', ''x'')]], sk_tx = [], sk_snd = (\<lambda>_. 0), sk_nsnd = 0\<rparr>)"
  let ?r = "\<lparr>rq_method = GET, rq_uri = ''/a'', rq_version = HTTP_1_1, rq_header = [(''Host'', ''x'')], rq_body = []\<rparr>"
  have s: "is_clean ?s" "is_view ?s = flat_good (wire_line GET ''/a'' HTTP_1_1 @ wire_head [(''Host'', ''x'')] @ [])"
    by (simp_all add: is_clean_def clean_def is_view_def unread_def
        mk_SocketInputStream_def mk_SocketStreamBuffer_def CRLF_def wire_line_def wire_head_def
        serialize_method_def serialize_version_def HttpRequestMethodString_def HttpVersionString_def)
  from getOneHttpRequest_reads [OF s] obtain t where t: "getOneHttpRequest ?s = Some (Inr (?r, SERVER_OK, t))"
    by (auto simp: wire_uri_def wire_field_def isspace_def)
  from parsed_request_typed [OF t] t show ?thesis by auto
qed

end
