(* ===== verification/Message_Builders.thy ===== *)
theory Message_Builders
  imports Http_Response Redis_Connection
begin

text \<open>
  The builder interfaces (\<open>IHttpReqeustBuilder\<close>, \<open>IHttpResponseBuilder\<close>, \<open>IRedisConnectionBuilder\<close>) with
  the classes that implement them, and the getters of the objects they build: through its interface
  a builder is the object it builds, a header is a map, and the last call on a field wins. Also the
  printing of a response.
\<close>

section \<open>Getters\<close>

definition getRequestMethod :: "HttpRequest \<Rightarrow> HttpRequestMethod" where
  "getRequestMethod r = rq_method r"

definition req_getURI :: "HttpRequest \<Rightarrow> string" where
  "req_getURI r = rq_uri r"

definition req_getHttpVersion :: "HttpRequest \<Rightarrow> HttpVersion" where
  "req_getHttpVersion r = rq_version r"

definition req_getHeader :: "HttpRequest \<Rightarrow> header_t" where
  "req_getHeader r = rq_header r"

definition req_getBody :: "HttpRequest \<Rightarrow> string" where
  "req_getBody r = rq_body r"

definition resp_getHttpVersion :: "HttpResponse \<Rightarrow> HttpVersion" where
  "resp_getHttpVersion r = rp_version r"

definition getResponseStatus :: "HttpResponse \<Rightarrow> HttpResponseStatus" where
  "getResponseStatus r = rp_status r"

definition resp_getHeader :: "HttpResponse \<Rightarrow> header_t" where
  "resp_getHeader r = rp_header r"

definition resp_getBody :: "HttpResponse \<Rightarrow> body_stream option" where
  "resp_getBody r = rp_body r"

definition st_getCode :: "HttpResponseStatus \<Rightarrow> statecode_t" where
  "st_getCode st = st_code st"

definition st_getDetail :: "HttpResponseStatus \<Rightarrow> string" where
  "st_getDetail st = st_detail st"

lemmas getter_defs = getRequestMethod_def req_getURI_def req_getHttpVersion_def req_getHeader_def req_getBody_def
  resp_getHttpVersion_def getResponseStatus_def resp_getHeader_def resp_getBody_def st_getCode_def st_getDetail_def

section \<open>The interfaces and their implementations\<close>

record 'b IHttpReqeustBuilder =
  iq_build :: "'b \<Rightarrow> HttpRequest"
  iq_setRequestMethod :: "HttpRequestMethod \<Rightarrow> 'b \<Rightarrow> 'b"
  iq_setHttpVersion :: "HttpVersion \<Rightarrow> 'b \<Rightarrow> 'b"
  iq_setURI :: "string \<Rightarrow> 'b \<Rightarrow> 'b"
  iq_setHeader :: "string \<Rightarrow> string \<Rightarrow> 'b \<Rightarrow> 'b"
  iq_delHeader :: "string \<Rightarrow> 'b \<Rightarrow> 'b"
  iq_setBody :: "string \<Rightarrow> 'b \<Rightarrow> 'b"

definition HttpRequestBuilder_ops :: "HttpRequestBuilder IHttpReqeustBuilder" where
  "HttpRequestBuilder_ops = \<lparr>iq_build = rb_build, iq_setRequestMethod = rb_setRequestMethod,
     iq_setHttpVersion = rb_setHttpVersion, iq_setURI = rb_setURI, iq_setHeader = rb_setHeader,
     iq_delHeader = rb_delHeader, iq_setBody = rb_setBody\<rparr>"

record 'b IHttpResponseBuilder =
  ip_build :: "'b \<Rightarrow> HttpResponse"
  ip_setHttpVersion :: "HttpVersion \<Rightarrow> 'b \<Rightarrow> 'b"
  ip_setResponseStatus :: "statecode_t \<Rightarrow> 'b \<Rightarrow> 'b"
  ip_setHeader :: "string \<Rightarrow> string \<Rightarrow> 'b \<Rightarrow> 'b"
  ip_delHeader :: "string \<Rightarrow> 'b \<Rightarrow> 'b"
  ip_setBody :: "body_stream option \<Rightarrow> 'b \<Rightarrow> 'b"

definition HttpResponseBuilder_ops :: "HttpResponseBuilder IHttpResponseBuilder" where
  "HttpResponseBuilder_ops = \<lparr>ip_build = pb_build, ip_setHttpVersion = pb_setHttpVersion,
     ip_setResponseStatus = pb_setResponseStatus, ip_setHeader = pb_setHeader, ip_delHeader = pb_delHeader,
     ip_setBody = pb_setBody\<rparr>"

record 'b IRedisConnectionBuilder =
  ic_setIP :: "string \<Rightarrow> 'b \<Rightarrow> 'b"
  ic_setPort :: "16 word \<Rightarrow> 'b \<Rightarrow> 'b"
  ic_setPasswd :: "string \<Rightarrow> 'b \<Rightarrow> 'b"
  ic_setLockTimeout :: "int \<Rightarrow> 'b \<Rightarrow> 'b"
  ic_setReqTimeout :: "int \<Rightarrow> 'b \<Rightarrow> 'b"
  ic_setPool :: "nat option \<Rightarrow> 'b \<Rightarrow> 'b"
  ic_build :: "'b \<Rightarrow> RedisConnection"

definition RedisConnectionBuilder_ops :: "RedisConnectionBuilder IRedisConnectionBuilder" where
  "RedisConnectionBuilder_ops = \<lparr>ic_setIP = cb_setIP, ic_setPort = cb_setPort, ic_setPasswd = cb_setPasswd,
     ic_setLockTimeout = cb_setLockTimeout, ic_setReqTimeout = cb_setReqTimeout, ic_setPool = cb_setPool,
     ic_build = cb_build\<rparr>"

section \<open>Printing a response\<close>

text \<open>\<open>operator<<\<close> on a response makes a responder of its own and drops the error it returns.\<close>

definition show_response :: "(header_t \<Rightarrow> header_t) \<Rightarrow> carray \<Rightarrow> SocketOutputStream \<Rightarrow> HttpResponse
    \<Rightarrow> (HttpResponse \<times> carray \<times> SocketOutputStream) run" where
  "show_response ord buf out r = map_option (map_sum id snd) (response ord buf out r)"

lemma show_response_sends:
  assumes "out_ready out" and "rp_body r = Some body" and "rd_sound body"
  shows "\<exists>r' buf' out'. show_response ord buf out r = Some (Inr (r', buf', out'))
    \<and> sk_tx (ss_socket (os_buf out')) = written out @ response_text ord r (rd_data body)"
  using response_reaches [OF assms, of ord buf] by (auto simp: show_response_def)

section \<open>A header is a map\<close>

text \<open>The contract of everything that keeps header fields.\<close>

locale header_store =
  fixes get_header :: "'m \<Rightarrow> header_t"
    and set_header :: "string \<Rightarrow> string \<Rightarrow> 'm \<Rightarrow> 'm"
    and del_header :: "string \<Rightarrow> 'm \<Rightarrow> 'm"
  assumes header_set: "map_of (get_header (set_header k v m)) = (map_of (get_header m))(k \<mapsto> v)"
    and header_del: "map_of (get_header (del_header k m)) = (map_of (get_header m))(k := None)"
    and set_distinct: "distinct (map fst (get_header m)) \<Longrightarrow> distinct (map fst (get_header (set_header k v m)))"
    and del_distinct: "distinct (map fst (get_header m)) \<Longrightarrow> distinct (map fst (get_header (del_header k m)))"

text \<open>A sequence of updates: a value puts a field, no value removes it.\<close>

definition header_update :: "(string \<Rightarrow> string \<Rightarrow> 'm \<Rightarrow> 'm) \<Rightarrow> (string \<Rightarrow> 'm \<Rightarrow> 'm) \<Rightarrow> string \<times> string option \<Rightarrow> 'm \<Rightarrow> 'm" where
  "header_update set_header del_header u m =
     (case u of (k, Some v) \<Rightarrow> set_header k v m | (k, None) \<Rightarrow> del_header k m)"

context header_store
begin

lemma update_map: "map_of (get_header (header_update set_header del_header (k, v) m)) = (map_of (get_header m))(k := v)"
  by (cases v) (simp_all add: header_update_def header_set header_del)

lemma last_update_wins:
  "map_of (get_header (fold (header_update set_header del_header) us m)) k
    = (case map_of (rev us) k of None \<Rightarrow> map_of (get_header m) k | Some v \<Rightarrow> v)"
  by (induction us arbitrary: m) (auto simp: update_map map_add_def split: option.splits)

lemma updates_distinct:
  "distinct (map fst (get_header m)) \<Longrightarrow> distinct (map fst (get_header (fold (header_update set_header del_header) us m)))"
  by (induction us arbitrary: m)
    (auto simp: header_update_def set_distinct del_distinct split: option.splits)

end

lemma delete_absent: "map_of xs k = None \<Longrightarrow> (map_of xs)(k := None) = map_of xs"
  by auto

interpretation req_header: header_store req_getHeader setHeader delHeader
  by unfold_locales
    (auto simp: getter_defs setHeader_def delHeader_def update_conv' delete_conv' distinct_update distinct_delete fun_eq_iff)

interpretation resp_header: header_store resp_getHeader resp_setHeader resp_delHeader
  by unfold_locales
    (auto simp: getter_defs resp_setHeader_def resp_delHeader_def update_conv' delete_conv' distinct_update
      distinct_delete fun_eq_iff)

text \<open>A builder keeps the header of the object it builds.\<close>

lemma builder_header_store:
  assumes "header_store get_header set_header del_header"
    and "\<And>k v b. build (b_set k v b) = set_header k v (build b)" and "\<And>k b. build (b_del k b) = del_header k (build b)"
  shows "header_store (get_header \<circ> build) b_set b_del"
  using assms unfolding header_store_def by simp

interpretation rb_header: header_store "req_getHeader \<circ> iq_build HttpRequestBuilder_ops"
  "iq_setHeader HttpRequestBuilder_ops" "iq_delHeader HttpRequestBuilder_ops"
  by (rule builder_header_store [OF req_header.header_store_axioms])
    (simp_all add: HttpRequestBuilder_ops_def rb_build_def rb_setHeader_def rb_delHeader_def)

interpretation pb_header: header_store "resp_getHeader \<circ> ip_build HttpResponseBuilder_ops"
  "ip_setHeader HttpResponseBuilder_ops" "ip_delHeader HttpResponseBuilder_ops"
  by (rule builder_header_store [OF resp_header.header_store_axioms])
    (simp_all add: HttpResponseBuilder_ops_def pb_build_def pb_setHeader_def pb_delHeader_def)


end
