(* ===== verification/Spec2Isabelle.thy ===== *)
theory Spec2Isabelle
  imports Concurrent_Server Worker_Shutdown Shared_Response Shared_Request Handler_Log Request_Typing Message_Builders
begin

text \<open>
  Verification of CXXWebServer, a multi-threaded HTTP server in C++ (files under \<open>src/src\<close>).

  \<^bold>\<open>The program.\<close> \<open>main.cc\<close> starts a \<open>Server\<close> and checks every ten seconds that its workers are alive.
  The server makes a router, a resource accessor (with a Redis cache behind a pool of
  connections), a number of IO workers and one listening worker, each a thread around an \<open>Epoll\<close>
  and an event handler. The listening handler accepts clients and distributes them over the IO
  workers; the IO handler reads the requests of a client through a socket stream, answers them
  through another and gives the connection up. All parts log through an asynchronous logger.

  \<^bold>\<open>Theories.\<close> Each theory models the files it names, one definition per function, class or enum, and
  proves what makes that part correct.
  \<^item> \<open>Prelude\<close>: arrays, C++ characters and \<open>std::stoul\<close>, exceptions, the locale \<open>invariant_system\<close>.
  \<^item> \<open>Error_Codes\<close> (\<open>Error.hpp\<close>), \<open>Http_Config\<close> (\<open>HttpUtils/HttpConfig\<close>): enums and tables.
  \<^item> \<open>Socket_Stream\<close> (\<open>HttpUtils/SocketStream\<close>): the stream buffer over \<open>recv\<close> and \<open>send\<close> and the
    operations of \<open>std::istream\<close> and \<open>std::ostream\<close> used on it. Reading refines a flat byte
    sequence (locale \<open>byte_istream\<close>), so segmentation does not matter to its clients; writing stays in
    bounds and sends what was written; partial sends repeat bytes.
  \<^item> \<open>Http_Request\<close> (\<open>HttpUtils/HttpRequest\<close>): request, builder, analyser. Well-formed requests are
    parsed into their parts, with or without a body, in any segmentation; the exceptions; the body
    loop returns exactly when the body is buffered; every other request makes progress.
  \<^item> \<open>Request_Typing\<close>: whatever a client sends, a parsed request is well formed.
  \<^item> \<open>Body_Stream\<close>: the \<open>std::istream\<close> of a response body (file or string).
  \<^item> \<open>Http_Router\<close> (\<open>HttpUtils/Resource\<close>, \<open>Router\<close>): resources, routes, locale \<open>static_router\<close>.
  \<^item> \<open>Resource_Accessor\<close> (\<open>HttpUtils/ResourceAccessor\<close>, \<open>Cache/Cache.hpp\<close>): file and cached accessor,
    the locales \<open>resource_accessor\<close> and \<open>cache_spec\<close>.
  \<^item> \<open>Http_Response\<close> (\<open>HttpUtils/HttpResponse\<close>): choice of the response and its serialisation; locale
    \<open>responder\<close>, the client of a static router and an accessor.
  \<^item> \<open>Message_Builders\<close>: the builder interfaces of the three headers, the getters, and the header as a
    map (locale \<open>header_store\<close>, for the messages and for their builders).
  \<^item> \<open>Redis_Connection\<close>, \<open>Redis_Pool\<close>, \<open>Redis_Cache\<close> (\<open>Cache/RedisCache\<close>): connections, the pool with
    its 32-bit counts under every interleaving, the cache; hiredis and the Redis server are the record
    \<open>hiredis\<close> with the laws of the locales \<open>redis_server\<close>, \<open>responsive_redis\<close> and \<open>redis_startup\<close>.
  \<^item> \<open>Log_Stream\<close> (\<open>Log/Buffer\<close>, \<open>LogStream\<close>, \<open>Logger\<close>), \<open>Async_Logger\<close> (\<open>Log/AsyncLogger\<close>): no message is
    lost, duplicated or reordered under any interleaving of producers and the logger thread.
  \<^item> \<open>Event_Poll\<close> (\<open>Event\<close>, \<open>Epoll\<close>): events, and a poller whose table mirrors the kernel (locale
    \<open>epoll_kernel\<close>; the system calls are the record \<open>syscalls\<close>).
  \<^item> \<open>Event_Worker\<close> (\<open>Worker\<close>, \<open>EventHandler.hpp\<close>, \<open>ListenEventHandler\<close>): the worker's loop, accepting
    and distributing clients (locales \<open>accept_kernel\<close> and \<open>accept_reliable\<close> for the backlog).
  \<^item> \<open>IO_Handler\<close> (\<open>IOEventHandler\<close>): the request loop; pipelined requests are answered in order,
    for one client and for a batch, and the loop can hang only in the body of a request (all inside
    the locale \<open>responder\<close>).
  \<^item> \<open>Handler_Log\<close>: this loop, the accept loop and the thread of a worker with their log statements,
    which do not change what they do; the exact text a client leaves in the log.
  \<^item> \<open>Shared_Buffers\<close>, \<open>Shared_Response\<close>, \<open>Shared_Request\<close>: the two loops that copy through a static
    buffer shared by all workers, one statement at a time under any schedule of threads (locale
    \<open>shared_copy\<close>). Alone a loop does what the loop of \<open>Http_Response\<close> or \<open>Http_Request\<close> does; threads
    whose turns do not overlap stay intact; racing ones keep every length but can deliver the bytes
    of one client to another.
  \<^item> \<open>Server_Threads\<close>, \<open>Thread_Safety\<close>: the listening thread and the IO workers interleaved between
    any two system calls or table updates, over kernels that hand out unused descriptors (locales
    \<open>descriptor_kernel\<close>, \<open>ample_kernel\<close>): who owns which descriptor and which event; the descriptor
    that is closed twice when a registration fails.
  \<^item> \<open>Web_Server\<close> (\<open>Server\<close>, \<open>main.cc\<close>) and \<open>Server_Lifecycle\<close>: initialisation, start, stop, clean, status
    and the main loop; what a successful and a failed start leave behind, the leak of the
    listening socket, the cache of a started server, supervision, the first clients.
  \<^item> \<open>Running_Server\<close>: the threads of a server that has started satisfy what \<open>Thread_Safety\<close> assumes,
    so they never abort and no descriptor has two owners, in any interleaving.
  \<^item> \<open>Concurrent_Server\<close>: these threads with the whole IO handler on the sockets of the clients, while
    bytes arrive (locale \<open>serving_threads\<close>): every client that leaves has got its answers, once,
    and no worker touches the socket of another's client. It refines \<open>Server_Threads\<close>.
  \<^item> \<open>Worker_Shutdown\<close>: the loop of a worker by statements against the destructor of the server: a
    stopped worker leaves after a bounded number of its statements, and a destructor that does not
    wait for it pulls its object away.
  This theory composes them: the responder the server builds, one turn of an IO worker from the
  report of the kernel to the last byte and the close, and a server from its start to its answers.

  \<^bold>\<open>Conventions.\<close> A class is a record and its methods functions that return the updated record. Errors
  are the codes of \<open>Error.hpp\<close>; exceptions and null dereferences are \<open>Inl\<close> values; a call that may
  run forever is a \<open>partial_function (option)\<close>, whose \<open>None\<close> is not returning (\<open>'a run\<close>), and where
  such a call is claimed to return this is proved as such. No fuel is used. Fixed-width
  numbers are words where wrap-around can matter. Shared pointers to events and connections are
  addresses in a heap; a destructor that has an effect is a definition of its own. A mutex makes the
  section it guards one step, and interleavings are sequences of such steps; unguarded shared state is
  stepped statement by statement. Variables the code
  leaves uninitialised, the order in which an \<open>unordered_map\<close> is walked, and what the system calls, hiredis,
  the clock and the scheduler answer are arguments.

  \<^bold>\<open>Not modelled.\<close> The log message of the destructor of \<open>Server\<close>, those of \<open>main\<close> on \<open>cout\<close>, the empty SIGPIPE handler; thread
  ids beyond their printed form, an argument of the log statements; freeing memory; the file
  \<open>web.xml\<close>, which the code never opens; the tests and the build files. Torn reads of a single
  variable are outside a model whose smallest step is a statement. In \<open>Concurrent_Server\<close> a call of the
  IO handler is one step; what two calls do to each other through the static buffers is the subject
  of \<open>Shared_Response\<close> and \<open>Shared_Request\<close>.
\<close>

section \<open>The responder the server builds\<close>

lemma cached_responder:
  assumes "redis_server hi data" and "fs_sound fs"
  shows "responder (as_IRouter mk_Router) (cached_access (RedisCache_ops hi) fs) (fs_files fs) plain_key
    (cache_coherent (cached_data data) plain_key cache_inv (fs_files fs))"
  by (intro responder.intro responder_axioms.intro static_router_Router [OF mk_Router_wf]
      redis_server.accessor [OF assms] router_paths_plain)

text \<open>
  (C5) The choice of the answer: over a coherent cache the responder always returns a response,
  whose version, status and body are the specified functions of the request, the routes and the
  files: 505 and 501 for an unknown version or method, 404 for an unknown URI, 500 for a
  missing file, 200 and the bytes of the file otherwise, with the configured error page where its
  file exists and the generated one where not. The indeterminate locals of the code have no
  influence, and the cache stays coherent.
\<close>

theorem response_matches_spec:
  assumes "redis_server hi data" and "fs_sound fs"
    and "cache_coherent (cached_data data) plain_key cache_inv (fs_files fs) a"
  shows "\<exists>r a'. getResponseFromRequest un (as_IRouter mk_Router) (cached_access (RedisCache_ops hi) fs) a req
      = Some (Inr (r, a'))
    \<and> answers r (expected_version req) (expected_code (as_IRouter mk_Router) (fs_files fs) req)
        (expected_body (as_IRouter mk_Router) (fs_files fs) req)
    \<and> cache_coherent (cached_data data) plain_key cache_inv (fs_files fs) a'"
  using responder.getResponse_answers [OF cached_responder [OF assms(1,2)] assms(3), of un req] by blast

definition demo_cache :: "(string \<times> string) list RedisCache option" where
  "demo_cache = Some \<lparr>ca_pool = \<lparr>pl_conns = [(ConnPtr 0, 0)], pl_maxConn = 1, pl_maxRef = 1\<rparr>,
     ca_conn = (\<lambda>p. (mk_RedisConnection 6379)\<lparr>rc_context := Some 1\<rparr>), ca_world = []\<rparr>"

definition demo_fs :: file_system where
  "demo_fs = block_fs (\<lambda>p. if p = ''./hello.html'' then Some ''<p>'' else None)"

lemma demo_coherent:
  "fs_sound demo_fs" "cache_coherent (cached_data map_of) plain_key cache_inv (fs_files demo_fs) demo_cache"
  by (simp_all add: demo_fs_def demo_cache_def fs_sound_block_fs cache_coherent_def cached_data_def
      cache_inv_def pool_wf_def)

theorem response_matches_spec_witness:
  "\<exists>r a' b. getResponseFromRequest \<lparr>un_version = HTTP_1_1, un_err = SERVER_OK, un_code = 7\<rparr> (as_IRouter mk_Router)
        (cached_access (RedisCache_ops mem_hiredis) demo_fs) demo_cache
        \<lparr>rq_method = GET, rq_uri = ''/hello'', rq_version = HTTP_1_0, rq_header = [], rq_body = []\<rparr>
      = Some (Inr (r, a')) \<and> rp_status r = mk_HttpResponseStatus 200 \<and> rp_body r = Some b \<and> rd_data b = ''<p>''"
proof -
  let ?req = "\<lparr>rq_method = GET, rq_uri = ''/hello'', rq_version = HTTP_1_0, rq_header = [], rq_body = []\<rparr>"
  have c: "expected_code (as_IRouter mk_Router) (fs_files demo_fs) ?req = 200"
    by (simp add: expected_code_def as_IRouter_def router_at_uri_mk demo_fs_def)
  have b: "expected_body (as_IRouter mk_Router) (fs_files demo_fs) ?req = ''<p>''"
    by (simp add: expected_body_def c) (simp add: as_IRouter_def router_at_uri_mk demo_fs_def)
  from response_matches_spec [OF mem.redis_server_axioms demo_coherent, of _ ?req] show ?thesis
    unfolding c b by (fastforce simp: answers_def split: option.splits)
qed

section \<open>One turn of an IO worker\<close>

text \<open>
  (C3) The clients of a batch are served: when polling reports readable clients, on each of which
  any number of well-formed requests without bodies have arrived, cut into segments in any way,
  the worker answers each client's requests in their order with exactly the specified bytes,
  touches no other connection, and removes the clients from its poller; the connections of those
  that are out of it are closed before it polls again.
\<close>

theorem clients_served:
  assumes "redis_server hi data" and "fs_sound fs"
    and "cache_coherent (cached_data data) plain_key cache_inv (fs_files fs) (io_accessor x)"
    and "worker_isRunning w" and "worker_eventPoll sys k heap (- 1) w = (SERVER_OK, es, heap1, k1)"
    and "clients_ready heap1 x qs es"
    and "release_all sys heap1 es (k1, w) = (k2, w2)"
    and "\<forall>e \<in> set es. e \<notin> snd ` set (ep_events (wk_poller w2))"
  shows "\<exists>x1. worker_loop sys (io_handle sys raw un ord (as_IRouter mk_Router)
        (cached_access (RedisCache_ops hi) fs)) (k, heap, w, x)
      = worker_loop sys (io_handle sys raw un ord (as_IRouter mk_Router)
        (cached_access (RedisCache_ops hi) fs))
          (foldl (\<lambda>k e. sys_close sys k (ev_fd (heap1 e))) k2 es, heap1, w2, x1)
    \<and> (\<forall>e \<in> set es. sk_tx (io_sockets x1 (ev_fd (heap1 e))) = sk_tx (io_sockets x (ev_fd (heap1 e)))
          @ concat (map (answer_bytes ord (as_IRouter mk_Router) (fs_files fs) \<circ> as_request) (qs e)))
    \<and> (\<forall>fd. fd \<notin> ev_fd ` heap1 ` set es \<longrightarrow> io_sockets x1 fd = io_sockets x fd)
    \<and> cache_coherent (cached_data data) plain_key cache_inv (fs_files fs) (io_accessor x1)"
proof -
  let ?hnd = "io_handle sys raw un ord (as_IRouter mk_Router) (cached_access (RedisCache_ops hi) fs)"
  from responder.handle_events_serves [where sys = sys and k = k1 and w = w and raw = raw and un = un
      and ord = ord, OF cached_responder [OF assms(1,2)] assms(6,3)] assms(7)
  obtain x1 where x1: "handle_events ?hnd es (k1, heap1, w, x) = Some (Inr (k2, heap1, w2, x1))"
    "cache_coherent (cached_data data) plain_key cache_inv (fs_files fs) (io_accessor x1)"
    "\<forall>e \<in> set es. sk_tx (io_sockets x1 (ev_fd (heap1 e))) = sk_tx (io_sockets x (ev_fd (heap1 e)))
      @ concat (map (answer_bytes ord (as_IRouter mk_Router) (fs_files fs) \<circ> as_request) (qs e))"
    "\<forall>fd. fd \<notin> ev_fd ` heap1 ` set es \<longrightarrow> io_sockets x1 fd = io_sockets x fd" by auto
  have "distinct es" using assms(6) by (simp add: clients_ready_def distinct_map)
  from clear_released [OF assms(8) this, of sys heap1 k2] x1(1) assms(4,5) have
    "worker_loop sys ?hnd (k, heap, w, x)
      = worker_loop sys ?hnd (foldl (\<lambda>k e. sys_close sys k (ev_fd (heap1 e))) k2 es, heap1, w2, x1)"
    by (simp add: worker_loop.simps [of _ _ "(k, heap, w, x)"])
  with x1(2-4) show ?thesis by blast
qed




definition demo_io :: "(string \<times> string) list RedisCache option io_env" where
  "demo_io = \<lparr>io_sockets = (\<lambda>_. \<lparr>sk_rx = [''GET /hel'', ''lo HTTP/1.0'' @ CRLF @ CRLF], sk_tx = [],
     sk_snd = (\<lambda>_. BFSIZE), sk_nsnd = 0\<rparr>), io_accessor = demo_cache, io_buf = (\<lambda>_. CHR 0x00)\<rparr>"

definition demo_worker :: Worker where
  "demo_worker = \<lparr>wk_running = True, wk_poller = \<lparr>ep_epfd = 3, ep_maxFDS = 2, ep_events = [(7, 0)]\<rparr>\<rparr>"

lemma demo_io_arrived: "arrived (io_sockets demo_io fd) [demo_request]" "list_all wire_ok [demo_request]"
  by (simp_all add: arrived_def demo_io_def demo_request_def wire_bytes_def wire_line_def wire_head_def
      serialize_method_def serialize_version_def HttpRequestMethodString_def HttpVersionString_def
      CRLF_def takes_all_def wire_ok_def wire_uri_def isspace_def)

theorem clients_served_witness:
  "\<exists>heap1 k2 w2 x1. worker_loop ref_syscalls (io_handle ref_syscalls (\<lambda>_. CHR 0x00)
        \<lparr>un_version = HTTP_1_1, un_err = SERVER_OK, un_code = 7\<rparr> id (as_IRouter mk_Router)
        (cached_access (RedisCache_ops mem_hiredis) demo_fs))
      ((\<lambda>_. [])(3 := [7]), \<lambda>_. setWorker (Some 0) (mk_Event 7 1), demo_worker, demo_io)
    = worker_loop ref_syscalls (io_handle ref_syscalls (\<lambda>_. CHR 0x00)
        \<lparr>un_version = HTTP_1_1, un_err = SERVER_OK, un_code = 7\<rparr> id (as_IRouter mk_Router)
        (cached_access (RedisCache_ops mem_hiredis) demo_fs)) (k2, heap1, w2, x1)
    \<and> sk_tx (io_sockets x1 7)
      = answer_bytes id (as_IRouter mk_Router) (fs_files demo_fs) (as_request demo_request)"
proof -
  let ?un = "\<lparr>un_version = HTTP_1_1, un_err = SERVER_OK, un_code = 7\<rparr>"
  let ?k = "(\<lambda>_. [])(3 := [7]) :: int \<Rightarrow> int list" and ?heap = "\<lambda>_. setWorker (Some 0) (mk_Event 7 1)"
  let ?heap1 = "?heap(0 := setResponseEvent 1 (?heap 0))"
  have fd: "ev_fd (?heap1 0) = 7" by (simp add: setResponseEvent_def setWorker_def mk_Event_def)
  have p: "worker_eventPoll ref_syscalls ?k ?heap (- 1) demo_worker = (SERVER_OK, [0], ?heap1, ?k)"
    by (simp add: worker_eventPoll_def epollWait_def demo_worker_def validEpollFD_def ref_syscalls_def maxFDS_def)
  have w: "ev_worker (?heap1 0) = Some 0" by (simp add: setResponseEvent_def setWorker_def)
  obtain w2 k2 where d: "release_all ref_syscalls ?heap1 [0] (?k, demo_worker) = (k2, w2)"
    "\<forall>e \<in> set [0 :: nat]. e \<notin> snd ` set (ep_events (wk_poller w2))"
    by (simp add: worker_delEvent_def epollDelEvent_def demo_worker_def validEpollFD_def ref_syscalls_def
        ref_ctl_def setResponseEvent_def setWorker_def mk_Event_def Let_def)
  have c: "cache_coherent (cached_data map_of) plain_key cache_inv (fs_files demo_fs) (io_accessor demo_io)"
    using demo_coherent(2) by (simp add: demo_io_def)
  have r: "worker_isRunning demo_worker" by (simp add: worker_isRunning_def demo_worker_def)
  have a: "clients_ready ?heap1 demo_io (\<lambda>_. [demo_request]) [0]"
    using demo_io_arrived w by (simp add: clients_ready_def)
  have "sk_tx (io_sockets demo_io fd) = []" for fd by (simp add: demo_io_def)
  with clients_served [OF mem.redis_server_axioms demo_coherent(1) c r p a d,
      of "\<lambda>_. CHR 0x00" ?un id] fd show ?thesis by auto
qed

section \<open>What a client leaves in the log\<close>

text \<open>
  (C16) Every request is logged: for a client whose well-formed requests have arrived, in any
  segments, the request loop of the server with its log statements returns what the loop without
  them returns, and the log grows by exactly three messages for each request in order, the
  report of the parser, the request itself and the report of the response, and by the report of
  the attempt that met the end of the input, each cut to 4096 bytes and none lost.
\<close>

theorem requests_are_logged:
  assumes "redis_server hi data" and "fs_sound fs"
    and "cache_coherent (cached_data data) plain_key cache_inv (fs_files fs) a"
    and "arrived sk qs" and "list_all wire_ok qs" and "diary_ok d" and "lg_running (dy_logger d)"
  shows "\<exists>s1 d1. io_loop_logged clock src fd un ord (as_IRouter mk_Router) (cached_access (RedisCache_ops hi) fs)
        (mk_SocketInputStream (mk_SocketStreamBuffer raw sk), mk_SocketOutputStream (mk_SocketStreamBuffer raw sk),
         a, buf) d = Some (Inr (s1, d1))
    \<and> io_loop un ord (as_IRouter mk_Router) (cached_access (RedisCache_ops hi) fs)
        (mk_SocketInputStream (mk_SocketStreamBuffer raw sk), mk_SocketOutputStream (mk_SocketStreamBuffer raw sk),
         a, buf) = Some (Inr s1)
    \<and> pending (dy_logger d1) = pending (dy_logger d) @ log_of clock src fd ord (dy_now d) qs"
proof -
  note s = arrived_streams [OF assms(4), of raw]
  from responder.logged_pipeline [OF cached_responder [OF assms(1,2)] s(1,2) assms(5) s(3) assms(3,6,7),
      of clock src fd un ord buf] obtain s1 d1 where
    l: "io_loop_logged clock src fd un ord (as_IRouter mk_Router) (cached_access (RedisCache_ops hi) fs)
        (mk_SocketInputStream (mk_SocketStreamBuffer raw sk), mk_SocketOutputStream (mk_SocketStreamBuffer raw sk),
         a, buf) d = Some (Inr (s1, d1))"
      "pending (dy_logger d1) = pending (dy_logger d) @ log_of clock src fd ord (dy_now d) qs" by blast
  from logged_to_loop [OF l(1) assms(6)] have "io_loop un ord (as_IRouter mk_Router) (cached_access (RedisCache_ops hi) fs)
        (mk_SocketInputStream (mk_SocketStreamBuffer raw sk), mk_SocketOutputStream (mk_SocketStreamBuffer raw sk),
         a, buf) = Some (Inr s1)" by simp
  with l show ?thesis by blast
qed

theorem requests_are_logged_witness:
  "\<exists>s1 d1. io_loop_logged (\<lambda>_. None) ''IOEventHandler.cc'' 7 \<lparr>un_version = HTTP_1_1, un_err = SERVER_OK, un_code = 7\<rparr>
        id (as_IRouter mk_Router) (cached_access (RedisCache_ops mem_hiredis) demo_fs)
        (mk_SocketInputStream (mk_SocketStreamBuffer (\<lambda>_. CHR 0x00) (io_sockets demo_io 7)),
         mk_SocketOutputStream (mk_SocketStreamBuffer (\<lambda>_. CHR 0x00) (io_sockets demo_io 7)),
         demo_cache, \<lambda>_. CHR 0x00) \<lparr>dy_now = 0, dy_logger = mk_AsyncLogger (\<lambda>_. [])\<rparr> = Some (Inr (s1, d1))
    \<and> pending (dy_logger d1) = log_of (\<lambda>_. None) ''IOEventHandler.cc'' 7 id 0 [demo_request]"
proof -
  let ?d = "\<lparr>dy_now = 0, dy_logger = mk_AsyncLogger (\<lambda>_. [])\<rparr>"
  have d: "diary_ok ?d" "lg_running (dy_logger ?d)" "pending (dy_logger ?d) = []" "dy_now ?d = 0"
    by (simp_all add: diary_ok_def mk_AsyncLogger_def lg_wf_def DEFAULT_OVERFLOW_def pending_def)
  from requests_are_logged [OF mem.redis_server_axioms demo_coherent demo_io_arrived d(1,2),
      of "\<lambda>_. None" "''IOEventHandler.cc''" 7 "\<lparr>un_version = HTTP_1_1, un_err = SERVER_OK, un_code = 7\<rparr>" id
        "\<lambda>_. CHR 0x00" 7 "\<lambda>_. CHR 0x00"] d(3,4) show ?thesis by auto
qed

section \<open>A started server answers\<close>

text \<open>
  (C2) From start to answer: with the Redis cache enabled and its old entries equal to the
  current files, a server that has started owns a router and an accessor with which every
  readable client that has sent well-formed requests is answered, in order, with the specified
  bytes, whatever the kernel, the indeterminate values and the iteration order of the headers are.
\<close>

theorem started_server_answers:
  assumes "redis_startup (se_redis en) data" and "server_start en s = (SERVER_OK, s')"
    and "cf_redisCacheEnable (sv_cfg s)" and "cf_maxRef (sv_cfg s) \<noteq> -1" and "fs_sound fs"
    and "\<And>key v. plain_key key \<Longrightarrow> data (server_world s) key = Some v \<Longrightarrow> fs_files fs key = Some v"
    and "arrived (io_sockets x (ev_fd (heap e))) qs" and "list_all wire_ok qs"
    and "ev_worker (heap e) = Some wp"
  shows "\<exists>rt cache k1 w1 x1. sv_router s' = Some rt \<and> sv_accessor s' = Some (CachedResourceAccessor cache)
    \<and> io_handle sys raw un ord (as_IRouter rt) (cached_access (RedisCache_ops (se_redis en)) fs) e
        (k, heap, w, x\<lparr>io_accessor := cache\<rparr>) = Some (Inr (k1, heap, w1, x1))
    \<and> sk_tx (io_sockets x1 (ev_fd (heap e))) = sk_tx (io_sockets x (ev_fd (heap e)))
        @ concat (map (answer_bytes ord (as_IRouter rt) (fs_files fs) \<circ> as_request) qs)"
proof -
  have hi: "redis_server (se_redis en) data" using assms(1) by (rule redis_startup.axioms(1))
  from started_accessor [OF assms(1,2,4), of "fs_files fs"] assms(6) obtain acc where
    acc: "sv_accessor s' = Some acc" "init_accessor_coherent data (fs_files fs) (sv_cfg s) acc" by blast
  then obtain cache where c: "sv_accessor s' = Some (CachedResourceAccessor cache)"
    "cache_coherent (cached_data data) plain_key cache_inv (fs_files fs) cache"
    using assms(3) by (cases acc) (auto simp: init_accessor_coherent_def)
  have rt: "sv_router s' = Some mk_Router"
    using server_start_ready(1) [OF assms(2)] by (simp add: server_ready_def)
  let ?x = "x\<lparr>io_accessor := cache\<rparr>"
  have a: "arrived (io_sockets ?x (ev_fd (heap e))) qs"
    "cache_coherent (cached_data data) plain_key cache_inv (fs_files fs) (io_accessor ?x)"
    using assms(7) c(2) by simp_all
  from responder.io_handle_serves [where sys = sys and k = k and w = w and raw = raw and un = un and ord = ord
      and heap = heap and e = e and x = ?x,
      OF cached_responder [OF hi assms(5)] a(1) assms(8) a(2) assms(9)] rt c(1)
  show ?thesis by auto
qed

theorem started_server_answers_witness:
  "\<exists>s' rt cache k1 heap w1 x1. server_start quiet_env quiet_server = (SERVER_OK, s')
    \<and> sv_router s' = Some rt \<and> sv_accessor s' = Some (CachedResourceAccessor cache)
    \<and> io_handle ref_syscalls (\<lambda>_. CHR 0x00) \<lparr>un_version = HTTP_1_1, un_err = SERVER_OK, un_code = 7\<rparr> id
        (as_IRouter rt) (cached_access (RedisCache_ops mem_hiredis) demo_fs) 0
        (\<lambda>_. [], heap, demo_worker, demo_io\<lparr>io_accessor := cache\<rparr>) = Some (Inr (k1, heap, w1, x1))
    \<and> sk_tx (io_sockets x1 7) = answer_bytes id (as_IRouter rt) (fs_files demo_fs) (as_request demo_request)"
proof -
  obtain s' where s': "server_start quiet_env quiet_server = (SERVER_OK, s')" by (rule quiet_start)
  let ?heap = "\<lambda>_. setWorker (Some 0) (mk_Event 7 1)"
  have r: "redis_startup (se_redis quiet_env) map_of"
    by (simp add: quiet_env_def mem.redis_startup_axioms)
  have cfg: "cf_redisCacheEnable (sv_cfg quiet_server)" "cf_maxRef (sv_cfg quiet_server) \<noteq> -1"
    by (simp_all add: defaultCfg_def)
  have d: "fs_files demo_fs key = Some v" if "map_of (server_world quiet_server) key = Some v" for key v
    using that by simp
  have w: "ev_worker (?heap 0) = Some 0" and fd: "ev_fd (?heap 0) = 7"
    by (simp_all add: setWorker_def mk_Event_def)
  have t: "sk_tx (io_sockets demo_io fd) = []" for fd by (simp add: demo_io_def)
  have h: "se_redis quiet_env = mem_hiredis" by (simp add: quiet_env_def)
  from started_server_answers [where sys = ref_syscalls and raw = "\<lambda>_. CHR 0x00" and ord = id
      and un = "\<lparr>un_version = HTTP_1_1, un_err = SERVER_OK, un_code = 7\<rparr>" and k = "\<lambda>_. []"
      and w = demo_worker and x = demo_io and heap = ?heap and e = 0,
      OF r s' cfg demo_coherent(1) d demo_io_arrived w, unfolded h fd t]
  obtain rt cache k1 w1 x1 where a: "sv_router s' = Some rt" "sv_accessor s' = Some (CachedResourceAccessor cache)"
    "io_handle ref_syscalls (\<lambda>_. CHR 0x00) \<lparr>un_version = HTTP_1_1, un_err = SERVER_OK, un_code = 7\<rparr> id
        (as_IRouter rt) (cached_access (RedisCache_ops mem_hiredis) demo_fs) 0
        (\<lambda>_. [], ?heap, demo_worker, demo_io\<lparr>io_accessor := cache\<rparr>) = Some (Inr (k1, ?heap, w1, x1))"
    "sk_tx (io_sockets x1 7) = answer_bytes id (as_IRouter rt) (fs_files demo_fs) (as_request demo_request)"
    by auto
  with s' show ?thesis by blast
qed

end
